(* ===== verification/Envoy_Prelude.thy ===== *)
theory Envoy_Prelude
  imports Main "HOL-Library.Sublist" "HOL-Library.Char_ord" "HOL-Library.List_Lexorder"
begin

text \<open>
  What every component of the development shares: Go errors as values, the result type of
  fallible calls, the collections of rewrite rules the component proofs use, the generic
  transition system in which the concurrent parts are stated, and a few lemmas on lists and
  maps that the library theories do not have in the form needed.
\<close>

section \<open>Errors and results\<close>

text \<open>
  A Go \<^verbatim>\<open>error\<close>. \<open>ErrorString\<close> is \<^verbatim>\<open>errors.New\<close>, \<open>Wrapped\<close> is
  \<^verbatim>\<open>errors.Wrap\<close> of \<^verbatim>\<open>github.com/pkg/errors\<close> and \<^verbatim>\<open>fmt.Errorf\<close> with a trailing
  \<^verbatim>\<open>%w\<close> (both print the message, a colon and the cause), \<open>PathError\<close> an error of the
  \<^verbatim>\<open>os\<close> package with the flag that \<^verbatim>\<open>os.IsNotExist\<close> reads, \<open>ExitError\<close> the error
  of a command with its captured standard error, \<open>NoAppliedConfigsError\<close> the agents package's
  own error type.
\<close>

datatype go_error =
    ErrorString string
  | Wrapped string go_error
  | PathError bool string
  | ExitError string string
  | NoAppliedConfigsError

fun Error :: "go_error \<Rightarrow> string" where
  "Error (ErrorString s) = s"
| "Error (Wrapped msg e) = msg @ '': '' @ Error e"
| "Error (PathError _ s) = s"
| "Error (ExitError s _) = s"
| "Error NoAppliedConfigsError = ''no configurations were applied''"

text \<open>\<^verbatim>\<open>errors.Cause\<close>: the innermost error under the wrapping.\<close>

fun Cause :: "go_error \<Rightarrow> go_error" where
  "Cause (Wrapped _ e) = Cause e"
| "Cause e = e"

fun os_IsNotExist :: "go_error \<Rightarrow> bool" where
  "os_IsNotExist (PathError notExist _) = notExist"
| "os_IsNotExist _ = False"

type_synonym 'a result = "go_error + 'a"

definition wrap_result :: "string \<Rightarrow> 'a result \<Rightarrow> 'a result" where
  "wrap_result msg r = (case r of Inl e \<Rightarrow> Inl (Wrapped msg e) | Inr x \<Rightarrow> Inr x)"

lemma wrap_result_simps [simp]:
  "wrap_result msg (Inl e) = Inl (Wrapped msg e)"
  "wrap_result msg (Inr x) = Inr x"
  by (simp_all add: wrap_result_def)

lemma wrap_result_Inr_iff [simp]: "wrap_result msg r = Inr x \<longleftrightarrow> r = Inr x"
  by (cases r) simp_all

lemma Cause_not_Wrapped: "Cause e \<noteq> Wrapped m e'"
  by (induction e rule: Cause.induct) auto

section \<open>Collections of rewrite rules\<close>

named_theorems frame_simps \<open>which parts of a state an operation leaves alone\<close>
named_theorems handler_defs \<open>the definitions of the handlers of a component\<close>
named_theorems inv_intros \<open>preservation of a component's invariant\<close>

section \<open>Transition systems\<close>

text \<open>
  The concurrent parts of the program are step relations. The interface fixes the initial
  states and the steps; an invariant proved for both holds in every reachable state.
\<close>

locale transition_system =
  fixes initial :: "'s \<Rightarrow> bool"
    and step :: "'s \<Rightarrow> 'e \<Rightarrow> 's \<Rightarrow> bool"
    and reachable :: "'s \<Rightarrow> bool"
  assumes reachable_induct:
    "reachable s \<Longrightarrow> \<forall>s. initial s \<longrightarrow> P s \<Longrightarrow>
       \<forall>s e t. reachable s \<longrightarrow> P s \<longrightarrow> step s e t \<longrightarrow> P t \<Longrightarrow> P s"
begin

lemma invariant_rule:
  assumes "reachable s"
    and "\<And>s. initial s \<Longrightarrow> I s"
    and "\<And>s e t. reachable s \<Longrightarrow> I s \<Longrightarrow> step s e t \<Longrightarrow> I t"
  shows "I s"
  using assms(1) by (rule reachable_induct) (use assms(2,3) in blast)+

lemma invariant_rule_with:
  assumes "reachable s"
    and "\<And>s. reachable s \<Longrightarrow> J s"
    and "\<And>s. initial s \<Longrightarrow> I s"
    and "\<And>s e t. I s \<Longrightarrow> J s \<Longrightarrow> step s e t \<Longrightarrow> I t"
  shows "I s"
  using assms(1) by (rule invariant_rule) (use assms in blast)+

end

section \<open>Lists and maps\<close>

lemma map_of_fold_upd_notin:
  "k \<notin> fst ` set xs \<Longrightarrow> fold (\<lambda>(k, v) m. m(k \<mapsto> v)) xs m k = m k"
  by (induction xs arbitrary: m) auto

lemma fold_upd_eq_map_of:
  "fold (\<lambda>(k, v) m. m(k \<mapsto> v)) xs m = m ++ map_of (rev xs)"
  by (induction xs arbitrary: m) (auto simp: map_add_def fun_eq_iff split: option.splits)

lemma map_of_rev_distinct:
  assumes "distinct (map fst xs)"
  shows "map_of (rev xs) = map_of xs"
proof
  fix k
  have d: "distinct (map fst (rev xs))" using assms by (simp add: rev_map [symmetric])
  show "map_of (rev xs) k = map_of xs k"
  proof (cases "map_of xs k")
    case None
    then have "map_of (rev xs) k = None" by (simp add: map_of_eq_None_iff)
    with None show ?thesis by simp
  next
    case (Some v)
    then show ?thesis using map_of_is_SomeI [OF d] by (simp add: map_of_SomeD)
  qed
qed

lemma dom_fold_upd: "dom (fold (\<lambda>(k, v) m. m(k \<mapsto> v)) xs m) = dom m \<union> fst ` set xs"
  by (induction xs arbitrary: m) auto

lemma prefix_take: "prefix p v \<longleftrightarrow> take (length p) v = p"
  by (metis append_eq_conv_conj append_take_drop_id prefix_def)

lemma prefix_append_same [simp]: "prefix (xs @ ys) (xs @ zs) \<longleftrightarrow> prefix ys zs"
  by (simp add: prefix_def)

end
