(* ===== verification/Go_Strings.thy ===== *)
theory Go_Strings
  imports Envoy_Prelude "HOL-Library.Word" "HOL-Library.Code_Target_Nat"
begin

text \<open>
  The parts of Go's \<^verbatim>\<open>strings\<close>, \<^verbatim>\<open>strconv\<close>, \<^verbatim>\<open>bufio\<close> and \<^verbatim>\<open>path\<close> packages that the
  program calls. A Go string is a sequence of bytes: \<open>string\<close> here, one \<open>char\<close> a byte.
\<close>

section \<open>Prefixes, suffixes, substrings\<close>

definition HasPrefix :: "string \<Rightarrow> string \<Rightarrow> bool" where
  "HasPrefix s p = (take (length p) s = p)"

definition HasSuffix :: "string \<Rightarrow> string \<Rightarrow> bool" where
  "HasSuffix s p = HasPrefix (rev s) (rev p)"

fun Contains :: "string \<Rightarrow> string \<Rightarrow> bool" where
  "Contains [] sub = (sub = [])"
| "Contains (c # cs) sub = (HasPrefix (c # cs) sub \<or> Contains cs sub)"

lemma HasPrefix_iff: "HasPrefix s p \<longleftrightarrow> prefix p s"
  by (auto simp: HasPrefix_def prefix_def) (metis append_take_drop_id)

lemma HasPrefix_append [simp]: "HasPrefix (p @ s) p"
  by (simp add: HasPrefix_def)

lemma HasPrefix_split: "HasPrefix s p \<Longrightarrow> s = p @ drop (length p) s"
  by (metis HasPrefix_def append_take_drop_id)

lemma HasSuffix_iff: "HasSuffix s p \<longleftrightarrow> suffix p s"
  by (simp add: HasSuffix_def HasPrefix_iff suffix_to_prefix)

lemma Contains_iff: "Contains s sub \<longleftrightarrow> sublist sub s"
proof (induction s sub rule: Contains.induct)
  case (1 sub)
  then show ?case by simp
next
  case (2 c cs sub)
  then show ?case by (simp add: HasPrefix_iff sublist_Cons_right)
qed

section \<open>Decimal numbers\<close>

definition digit_char :: "nat \<Rightarrow> char" where
  "digit_char d = char_of (48 + d)"

definition is_digit :: "char \<Rightarrow> bool" where
  "is_digit c = (48 \<le> (of_char c :: nat) \<and> (of_char c :: nat) \<le> 57)"

definition digit_val :: "char \<Rightarrow> nat" where
  "digit_val c = of_char c - 48"

lemma is_digit_char [simp]: "d < 10 \<Longrightarrow> is_digit (digit_char d)"
  by (simp add: is_digit_def digit_char_def)

lemma digit_val_char [simp]: "d < 10 \<Longrightarrow> digit_val (digit_char d) = d"
  by (simp add: digit_val_def digit_char_def)

text \<open>\<^verbatim>\<open>strconv.FormatUint(n, 10)\<close>, \<^verbatim>\<open>%d\<close> of an unsigned number.\<close>

fun show_nat :: "nat \<Rightarrow> string" where
  "show_nat n = (if n < 10 then [digit_char n] else show_nat (n div 10) @ [digit_char (n mod 10)])"

declare show_nat.simps [simp del]

definition show_int :: "int \<Rightarrow> string" where
  "show_int i = (if i < 0 then ''-'' @ show_nat (nat (- i)) else show_nat (nat i))"

definition read_nat :: "string \<Rightarrow> nat" where
  "read_nat s = foldl (\<lambda>n c. 10 * n + digit_val c) 0 s"

lemma read_nat_snoc: "read_nat (s @ [c]) = 10 * read_nat s + digit_val c"
  by (simp add: read_nat_def)

lemma show_nat_digits: "list_all is_digit (show_nat n)"
proof (induction n rule: show_nat.induct)
  case (1 n)
  then show ?case by (cases "n < 10") (simp_all add: show_nat.simps [of n])
qed

lemma show_nat_nonempty [simp]: "show_nat n \<noteq> []"
  by (subst show_nat.simps) simp

lemma read_show_nat [simp]: "read_nat (show_nat n) = n"
proof (induction n rule: show_nat.induct)
  case (1 n)
  then show ?case
    by (cases "n < 10") (simp_all add: show_nat.simps [of n] read_nat_snoc, simp add: read_nat_def)
qed

lemma show_nat_inj: "show_nat m = show_nat n \<longleftrightarrow> m = n"
  by (metis read_show_nat)

text \<open>
  \<^verbatim>\<open>strconv.ParseInt(s, 10, 64)\<close>: an optional sign, at least one digit, nothing else, and
  the value in the range of a signed 64-bit integer. \<^verbatim>\<open>strconv.Atoi\<close> is the same on the
  64-bit platforms.
\<close>

definition parse_digits :: "string \<Rightarrow> nat option" where
  "parse_digits s = (if s \<noteq> [] \<and> list_all is_digit s then Some (read_nat s) else None)"

definition ParseInt :: "string \<Rightarrow> int option" where
  "ParseInt s =
     (let neg = HasPrefix s ''-'';
          body = (if neg \<or> HasPrefix s ''+'' then tl s else s)
      in case parse_digits body of
           None \<Rightarrow> None
         | Some n \<Rightarrow>
             (if neg then (if n \<le> 2 ^ 63 then Some (- int n) else None)
              else (if n < 2 ^ 63 then Some (int n) else None)))"

lemma ParseInt_range: "ParseInt s = Some i \<Longrightarrow> - (2 ^ 63) \<le> i \<and> i < 2 ^ 63"
  by (auto simp: ParseInt_def Let_def split: option.splits if_splits)

lemma parse_digits_show_nat [simp]: "parse_digits (show_nat n) = Some n"
  by (simp add: parse_digits_def show_nat_digits)

lemma show_nat_hd_digit: "is_digit (hd (show_nat n))"
  using show_nat_digits [of n] show_nat_nonempty [of n] by (cases "show_nat n") auto

lemma show_nat_no_sign:
  "\<not> HasPrefix (show_nat n) ''-''" "\<not> HasPrefix (show_nat n) ''+''"
  using show_nat_hd_digit [of n] show_nat_nonempty [of n]
  by (cases "show_nat n"; auto simp: HasPrefix_def is_digit_def)+

lemma ParseInt_show_int:
  assumes "- (2 ^ 63) \<le> i" and "i < 2 ^ 63"
  shows "ParseInt (show_int i) = Some i"
proof (cases "i < 0")
  case True
  then have "nat (- i) \<le> 2 ^ 63" using assms by simp
  with True show ?thesis
    by (simp add: ParseInt_def show_int_def HasPrefix_def)
next
  case False
  then have "nat i < 2 ^ 63" using assms by simp
  with False show ?thesis
    by (simp add: ParseInt_def show_int_def show_nat_no_sign)
qed

section \<open>Lower case and white space\<close>

text \<open>
  \<^verbatim>\<open>strings.ToLower\<close>, on ASCII letters; bytes above 127 are left alone (Go maps them by
  the Unicode tables). \<^verbatim>\<open>strings.TrimSpace\<close> strips the ASCII white space and the UTF-8
  encodings of the other Unicode spaces.
\<close>

definition lower_char :: "char \<Rightarrow> char" where
  "lower_char c =
     (let n = (of_char c :: nat) in if 65 \<le> n \<and> n \<le> 90 then char_of (n + 32) else c)"

definition ToLower :: "string \<Rightarrow> string" where
  "ToLower s = map lower_char s"

lemma lower_char_idem [simp]: "lower_char (lower_char c) = lower_char c"
  by (auto simp: lower_char_def Let_def)

lemma ToLower_idem [simp]: "ToLower (ToLower s) = ToLower s"
  by (simp add: ToLower_def)

lemma ToLower_no_upper: "c \<in> set (ToLower s) \<Longrightarrow> \<not> (65 \<le> (of_char c :: nat) \<and> (of_char c :: nat) \<le> 90)"
  by (auto simp: ToLower_def lower_char_def Let_def split: if_splits)

definition bytes :: "nat list \<Rightarrow> string" where
  "bytes ns = map char_of ns"

definition space_runes :: "string list" where
  "space_runes =
     map bytes ([[9], [10], [11], [12], [13], [32], [194, 133], [194, 160], [225, 154, 128],
       [226, 128, 168], [226, 128, 169], [226, 128, 175], [226, 129, 159], [227, 128, 128]]
       @ map (\<lambda>n. [226, 128, n]) [128..<139])"

definition strip_rune :: "string list \<Rightarrow> string \<Rightarrow> string option" where
  "strip_rune rs s =
     (case find (HasPrefix s) rs of None \<Rightarrow> None | Some r \<Rightarrow> Some (drop (length r) s))"

text \<open>The loop strips at most one rune a turn: the length of the string is fuel enough.\<close>

fun trim_runes :: "nat \<Rightarrow> string list \<Rightarrow> string \<Rightarrow> string" where
  "trim_runes 0 rs s = s"
| "trim_runes (Suc n) rs s =
     (case strip_rune rs s of None \<Rightarrow> s | Some s' \<Rightarrow> trim_runes n rs s')"

definition TrimSpace :: "string \<Rightarrow> string" where
  "TrimSpace s =
     (let l = trim_runes (length s) space_runes s
      in rev (trim_runes (length l) (map rev space_runes) (rev l)))"

lemma strip_rune_shorter:
  assumes "strip_rune rs s = Some s'" and "[] \<notin> set rs"
  shows "length s' < length s"
proof -
  obtain r where r: "find (HasPrefix s) rs = Some r" and s': "s' = drop (length r) s"
    using assms(1) by (auto simp: strip_rune_def split: option.splits)
  from r have "r \<in> set rs" and "HasPrefix s r"
    by (auto simp: find_Some_iff)
  moreover from this assms(2) have "r \<noteq> []" by auto
  ultimately show ?thesis
    using HasPrefix_split [of s r] s' by (metis add.commute append_Nil2 append_take_drop_id
        drop_eq_Nil2 length_append length_greater_0_conv less_add_same_cancel1 nat_less_le
        same_append_eq)
qed

lemma trim_runes_done:
  "length s \<le> n \<Longrightarrow> [] \<notin> set rs \<Longrightarrow> strip_rune rs (trim_runes n rs s) = None"
proof (induction n arbitrary: s)
  case 0
  then show ?case
    by (auto simp: strip_rune_def find_None_iff HasPrefix_def split: option.splits)
next
  case (Suc n)
  then show ?case
    by (auto split: option.split dest: strip_rune_shorter)
qed

section \<open>Scanning lines\<close>

text \<open>
  \<^verbatim>\<open>bufio.Scanner\<close> with the default split function: lines without their newline and one
  trailing carriage return. The scanner's buffer holds 65536 bytes; a line that does not fit
  with its newline ends the scan with an error, and the rest of the input is not read.
\<close>

definition maxTokenSize :: nat where
  "maxTokenSize = 65536"

definition dropCR :: "string \<Rightarrow> string" where
  "dropCR s = (if s \<noteq> [] \<and> last s = CHR 0x0D then butlast s else s)"

fun break_line :: "string \<Rightarrow> string \<times> string option" where
  "break_line [] = ([], None)"
| "break_line (c # cs) =
     (if c = CHR 0x0A then ([], Some cs)
      else case break_line cs of (l, r) \<Rightarrow> (c # l, r))"

lemma break_line_shorter: "break_line s = (l, Some r) \<Longrightarrow> length r < length s"
  by (induction s arbitrary: l) (auto split: if_splits prod.splits)

lemma break_line_eq:
  "break_line s = (l, r) \<Longrightarrow> s = (case r of None \<Rightarrow> l | Some r' \<Rightarrow> l @ CHR 0x0A # r')"
  by (induction s arbitrary: l r) (auto split: if_splits prod.splits option.splits)

lemma break_line_no_nl: "break_line s = (l, r) \<Longrightarrow> CHR 0x0A \<notin> set l"
  by (induction s arbitrary: l r) (auto split: if_splits prod.splits)

lemma break_line_append:
  "CHR 0x0A \<notin> set l \<Longrightarrow> break_line (l @ CHR 0x0A # r) = (l, Some r)"
  by (induction l) auto

text \<open>The lines delivered, and whether the scan ended with \<^verbatim>\<open>bufio.ErrTooLong\<close>.\<close>

function ScanLines :: "string \<Rightarrow> string list \<times> bool" where
  "ScanLines s =
     (if s = [] then ([], False)
      else case break_line s of (l, r) \<Rightarrow>
        if length l \<ge> maxTokenSize then ([], True)
        else case r of
            None \<Rightarrow> ([dropCR l], False)
          | Some r' \<Rightarrow> (case ScanLines r' of (ls, e) \<Rightarrow> (dropCR l # ls, e)))"
  by pat_completeness auto
termination
  by (relation "measure length") (auto dest: break_line_shorter sym)

declare ScanLines.simps [simp del]

lemma ScanLines_Nil [simp]: "ScanLines [] = ([], False)"
  by (simp add: ScanLines.simps)

lemma ScanLines_line:
  assumes "CHR 0x0A \<notin> set l" and "length l < maxTokenSize"
  shows "ScanLines (l @ CHR 0x0A # s) = (dropCR l # fst (ScanLines s), snd (ScanLines s))"
  using assms by (subst ScanLines.simps) (simp add: break_line_append split: prod.splits)

end
