(* ===== verification/Command_Output.thy ===== *)
theory Command_Output
  imports Go_Strings
begin

text \<open>
  The goroutines that forward an agent's output and look for the phrase that shows it is up
  (\<^verbatim>\<open>setupCommandLogging\<close>, \<^verbatim>\<open>handleCommandOutputPipe\<close> and the select of
  \<^verbatim>\<open>StartAgentCommand\<close> in \<^verbatim>\<open>agents/command_handler.go\<close>): two readers that share one channel
  of capacity 1 with the starter. A step is one action of one goroutine; their order is not
  determined.
\<close>

datatype pipe = Stdout | Stderr

text \<open>
  A reader is at its read (with the flag \<^verbatim>\<open>checkingWaitFor\<close>), at the send of \<open>true\<close> after
  which it reads on, at the send of \<open>false\<close> after which it returns, or has returned.
\<close>

datatype reader_state = Reading bool | SendingTrue | SendingFalse | Exited

datatype start_wait = Selecting | SawContent | ExitedEarly | TimedOut | NotStarted

record output_state =
  waitForChan :: "bool list"
  reader :: "pipe \<Rightarrow> reader_state"
  starter :: start_wait

datatype output_event =
    LineRead pipe string
  | ReadFailed pipe
  | SawDone pipe
  | SendDone pipe
  | Receive
  | TimerFired
  | StartFailed

definition chan_capacity :: nat where
  "chan_capacity = 1"

definition setupCommandLogging :: "string \<Rightarrow> output_state" where
  "setupCommandLogging waitFor =
     \<lparr>waitForChan = (if waitFor = [] then [True] else []),
      reader = (\<lambda>_. Reading (waitFor \<noteq> [])),
      starter = Selecting\<rparr>"

text \<open>\<open>None\<close> means that the action is not possible in the state.\<close>

fun output_next :: "string \<Rightarrow> output_state \<Rightarrow> output_event \<Rightarrow> output_state option" where
  "output_next waitFor s (LineRead p line) =
     (case reader s p of
        Reading checkingWaitFor \<Rightarrow>
          Some (if checkingWaitFor \<and> Contains line waitFor
                then s\<lparr>reader := (reader s)(p := SendingTrue)\<rparr> else s)
      | _ \<Rightarrow> None)"
| "output_next waitFor s (ReadFailed p) =
     (case reader s p of
        Reading _ \<Rightarrow> Some (s\<lparr>reader := (reader s)(p := SendingFalse)\<rparr>)
      | _ \<Rightarrow> None)"
| "output_next waitFor s (SawDone p) =
     (case reader s p of
        Reading _ \<Rightarrow> Some (s\<lparr>reader := (reader s)(p := Exited)\<rparr>)
      | _ \<Rightarrow> None)"
| "output_next waitFor s (SendDone p) =
     (if length (waitForChan s) < chan_capacity then
        (case reader s p of
           SendingTrue \<Rightarrow>
             Some (s\<lparr>waitForChan := waitForChan s @ [True], reader := (reader s)(p := Reading False)\<rparr>)
         | SendingFalse \<Rightarrow>
             Some (s\<lparr>waitForChan := waitForChan s @ [False], reader := (reader s)(p := Exited)\<rparr>)
         | _ \<Rightarrow> None)
      else None)"
| "output_next waitFor s Receive =
     (case (starter s, waitForChan s) of
        (Selecting, result # rest) \<Rightarrow>
          Some (s\<lparr>waitForChan := rest, starter := (if result then SawContent else ExitedEarly)\<rparr>)
      | _ \<Rightarrow> None)"
| "output_next waitFor s TimerFired =
     (if starter s = Selecting then Some (s\<lparr>starter := TimedOut\<rparr>) else None)"
| "output_next waitFor s StartFailed =
     (if starter s = Selecting then Some (s\<lparr>starter := NotStarted\<rparr>) else None)"

fun output_run :: "string \<Rightarrow> output_state \<Rightarrow> output_event list \<Rightarrow> output_state option" where
  "output_run waitFor s [] = Some s"
| "output_run waitFor s (e # es) =
     (case output_next waitFor s e of None \<Rightarrow> None | Some t \<Rightarrow> output_run waitFor t es)"

fun_cases lineE: "output_next w s (LineRead p l) = Some t"
  and failE: "output_next w s (ReadFailed p) = Some t"
  and doneE: "output_next w s (SawDone p) = Some t"
  and sendE: "output_next w s (SendDone p) = Some t"
  and recvE: "output_next w s Receive = Some t"
  and timerE: "output_next w s TimerFired = Some t"
  and startFailE: "output_next w s StartFailed = Some t"

lemmas output_elims = lineE failE doneE sendE recvE timerE startFailE

section \<open>Runs\<close>

lemma output_run_append:
  "output_run w s (es @ fs) =
   (case output_run w s es of None \<Rightarrow> None | Some t \<Rightarrow> output_run w t fs)"
  by (induction es arbitrary: s) (auto split: option.split)

text \<open>An invariant that may also speak of the events so far.\<close>

lemma output_run_induct:
  assumes "output_run w (setupCommandLogging w) es = Some s"
    and "I [] (setupCommandLogging w)"
    and "\<And>es s e t. I es s \<Longrightarrow> output_next w s e = Some t \<Longrightarrow> I (es @ [e]) t"
  shows "I es s"
  using assms(1)
proof (induction es arbitrary: s rule: rev_induct)
  case Nil
  with assms(2) show ?case by simp
next
  case (snoc e es)
  then obtain u where "output_run w (setupCommandLogging w) es = Some u" "output_next w u e = Some s"
    by (auto simp: output_run_append split: option.splits)
  with snoc.IH assms(3) show ?case by blast
qed

section \<open>The starter's result\<close>

definition content_seen :: "string \<Rightarrow> output_event list \<Rightarrow> bool" where
  "content_seen waitFor es \<longleftrightarrow>
     waitFor = [] \<or> (\<exists>p line. LineRead p line \<in> set es \<and> Contains line waitFor)"

definition read_failed :: "output_event list \<Rightarrow> bool" where
  "read_failed es \<longleftrightarrow> (\<exists>p. ReadFailed p \<in> set es)"

text \<open>Where a result of the search may still come from.\<close>

definition true_pending :: "output_state \<Rightarrow> bool" where
  "true_pending s \<longleftrightarrow>
     True \<in> set (waitForChan s) \<or> starter s = SawContent \<or> (\<exists>p. reader s p = SendingTrue)"

definition false_pending :: "output_state \<Rightarrow> bool" where
  "false_pending s \<longleftrightarrow>
     False \<in> set (waitForChan s) \<or> starter s = ExitedEarly \<or> (\<exists>p. reader s p = SendingFalse)"

lemma true_pending_step:
  assumes "output_next w s e = Some t" and "true_pending t"
  shows "true_pending s \<or> (\<exists>p l. e = LineRead p l \<and> Contains l w)"
proof (cases e)
  case (LineRead p l)
  with assms show ?thesis
    by (cases "reader s p") (auto simp: true_pending_def split: if_splits)
next
  case (ReadFailed p)
  with assms show ?thesis
    by (cases "reader s p") (auto simp: true_pending_def split: if_splits)
next
  case (SawDone p)
  with assms show ?thesis
    by (cases "reader s p") (auto simp: true_pending_def split: if_splits)
next
  case (SendDone p)
  with assms show ?thesis
    by (cases "reader s p") (auto simp: true_pending_def split: if_splits)
next
  case Receive
  with assms show ?thesis
    by (cases "waitForChan s"; cases "starter s") (auto simp: true_pending_def split: if_splits)
qed (use assms in \<open>auto simp: true_pending_def split: if_splits\<close>)

lemma false_pending_step:
  assumes "output_next w s e = Some t" and "false_pending t"
  shows "false_pending s \<or> (\<exists>p. e = ReadFailed p)"
proof (cases e)
  case (LineRead p l)
  with assms show ?thesis
    by (cases "reader s p") (auto simp: false_pending_def split: if_splits)
next
  case (SawDone p)
  with assms show ?thesis
    by (cases "reader s p") (auto simp: false_pending_def split: if_splits)
next
  case (SendDone p)
  with assms show ?thesis
    by (cases "reader s p") (auto simp: false_pending_def split: if_splits)
next
  case Receive
  with assms show ?thesis
    by (cases "waitForChan s"; cases "starter s") (auto simp: false_pending_def split: if_splits)
qed (use assms in \<open>auto simp: false_pending_def split: if_splits\<close>)

lemma true_pending_run:
  assumes "output_run w (setupCommandLogging w) es = Some s"
  shows "true_pending s \<longrightarrow> content_seen w es"
  using assms
proof (rule output_run_induct)
  show "true_pending (setupCommandLogging w) \<longrightarrow> content_seen w []"
    by (auto simp: true_pending_def setupCommandLogging_def content_seen_def split: if_splits)
next
  fix es s e t
  assume "true_pending s \<longrightarrow> content_seen w es" and "output_next w s e = Some t"
  then show "true_pending t \<longrightarrow> content_seen w (es @ [e])"
    by (auto simp: content_seen_def dest!: true_pending_step)
qed

lemma false_pending_run:
  assumes "output_run w (setupCommandLogging w) es = Some s"
  shows "false_pending s \<longrightarrow> read_failed es"
  using assms
proof (rule output_run_induct)
  show "false_pending (setupCommandLogging w) \<longrightarrow> read_failed []"
    by (simp add: false_pending_def setupCommandLogging_def)
next
  fix es s e t
  assume "false_pending s \<longrightarrow> read_failed es" and "output_next w s e = Some t"
  then show "false_pending t \<longrightarrow> read_failed (es @ [e])"
    by (auto simp: read_failed_def dest!: false_pending_step)
qed

text \<open>
  C17 \<^verbatim>\<open>StartAgentCommand\<close> sees the expected content only when no phrase was asked for or some
  line of either pipe contained it, and reports an early exit only when a read of a pipe failed
  or ended.
\<close>

theorem start_result_sound:
  assumes "output_run w (setupCommandLogging w) es = Some s"
  shows "(starter s = SawContent \<longrightarrow>
            w = [] \<or> (\<exists>p line. LineRead p line \<in> set es \<and> Contains line w)) \<and>
         (starter s = ExitedEarly \<longrightarrow> (\<exists>p. ReadFailed p \<in> set es))"
  using true_pending_run [OF assms] false_pending_run [OF assms]
  by (auto simp: true_pending_def false_pending_def content_seen_def read_failed_def)

lemma start_result_sound_witness:
  "\<exists>s. output_run ''up'' (setupCommandLogging ''up'') [LineRead Stdout ''is up'', SendDone Stdout, Receive] = Some s \<and>
     starter s = SawContent \<and> Contains ''is up'' ''up''"
  using start_result_sound [of "''up''" "[LineRead Stdout ''is up'', SendDone Stdout, Receive]"]
  by (simp add: setupCommandLogging_def HasPrefix_def chan_capacity_def)

section \<open>The readers after the start\<close>

text \<open>How many readers have returned by sending \<open>false\<close>; without a cancelled context there is
  no other way to return.\<close>

definition exited :: "output_state \<Rightarrow> nat" where
  "exited s = card {p. reader s p = Exited}"

lemma UNIV_pipe: "(UNIV :: pipe set) = {Stdout, Stderr}"
  by (auto intro: pipe.exhaust)

lemma exited_eq:
  "exited s = (if reader s Stdout = Exited then 1 else 0) + (if reader s Stderr = Exited then 1 else 0)"
proof -
  have "{p. reader s p = Exited} = {p \<in> {Stdout, Stderr}. reader s p = Exited}"
    using UNIV_pipe by auto
  also have "\<dots> = (if reader s Stdout = Exited then {Stdout} else {}) \<union>
      (if reader s Stderr = Exited then {Stderr} else {})"
    by auto
  finally show ?thesis by (auto simp: exited_def)
qed

definition no_cancel :: "output_event list \<Rightarrow> bool" where
  "no_cancel es \<longleftrightarrow> (\<forall>p. SawDone p \<notin> set es)"

definition sends_inv :: "output_event list \<Rightarrow> output_state \<Rightarrow> bool" where
  "sends_inv es s \<longleftrightarrow>
     length (waitForChan s) \<le> chan_capacity \<and>
     (no_cancel es \<longrightarrow> starter s \<noteq> ExitedEarly \<longrightarrow> exited s \<le> length (filter Not (waitForChan s)))"

lemma sends_inv_step:
  assumes I: "sends_inv es s" and n: "output_next w s e = Some t"
  shows "sends_inv (es @ [e]) t"
proof (cases e)
  case (LineRead p l)
  with n I show ?thesis
    by (cases p; cases "reader s p") (auto simp: sends_inv_def no_cancel_def exited_eq split: if_splits)
next
  case (ReadFailed p)
  with n I show ?thesis
    by (cases p; cases "reader s p") (auto simp: sends_inv_def no_cancel_def exited_eq split: if_splits)
next
  case (SawDone p)
  with n I show ?thesis
    by (cases "reader s p") (auto simp: sends_inv_def no_cancel_def split: if_splits)
next
  case (SendDone p)
  with n I show ?thesis
    by (cases p; cases "reader s p")
       (auto simp: sends_inv_def no_cancel_def exited_eq chan_capacity_def split: if_splits)
next
  case Receive
  then obtain r rest where c: "starter s = Selecting" "waitForChan s = r # rest"
    and t: "t = s\<lparr>waitForChan := rest, starter := (if r then SawContent else ExitedEarly)\<rparr>"
    using n by (cases "starter s"; cases "waitForChan s") auto
  with I Receive show ?thesis
    by (cases r) (auto simp: sends_inv_def no_cancel_def exited_def)
next
  case TimerFired
  with n I show ?thesis by (auto simp: sends_inv_def no_cancel_def exited_def split: if_splits)
next
  case StartFailed
  with n I show ?thesis by (auto simp: sends_inv_def no_cancel_def exited_def split: if_splits)
qed

lemma sends_inv_init: "sends_inv [] (setupCommandLogging w)"
  by (simp add: sends_inv_def setupCommandLogging_def exited_eq chan_capacity_def)

lemma sends_inv_run: "output_run w (setupCommandLogging w) es = Some s \<Longrightarrow> sends_inv es s"
  by (rule output_run_induct [where I = sends_inv]) (auto intro: sends_inv_init sends_inv_step)

text \<open>
  Once the search has ended in any way but an early exit, the two readers never both return
  unless one of them sees the context done: only one of their two \<open>false\<close> fits in the channel
  and nobody receives any more.
\<close>

lemma readers_not_both_return:
  assumes "output_run w (setupCommandLogging w) es = Some s"
    and "starter s \<noteq> ExitedEarly" and "\<forall>p. SawDone p \<notin> set es"
  shows "\<exists>p. reader s p \<noteq> Exited"
proof (rule ccontr)
  assume "\<nexists>p. reader s p \<noteq> Exited"
  then have "exited s = 2" by (simp add: exited_eq)
  moreover have "exited s \<le> length (filter Not (waitForChan s))" "length (waitForChan s) \<le> 1"
    using sends_inv_run [OF assms(1)] assms(2,3) by (auto simp: sends_inv_def no_cancel_def chan_capacity_def)
  ultimately show False using length_filter_le [of Not "waitForChan s"] by linarith
qed

text \<open>The life of an agent that starts well and later ends: one reader returns, the other does
  not.\<close>

definition normal_life :: "output_event list" where
  "normal_life =
     [LineRead Stdout ''up'', SendDone Stdout, Receive,
      ReadFailed Stdout, ReadFailed Stderr, SendDone Stdout]"

lemma readers_not_both_return_witness:
  "\<exists>s. output_run ''up'' (setupCommandLogging ''up'') normal_life = Some s \<and> starter s = SawContent \<and>
     (\<exists>p. reader s p \<noteq> Exited)"
proof -
  obtain s where s: "output_run ''up'' (setupCommandLogging ''up'') normal_life = Some s" "starter s = SawContent"
    by (simp add: normal_life_def setupCommandLogging_def HasPrefix_def chan_capacity_def)
  with readers_not_both_return [of "''up''" normal_life s] show ?thesis
    by (auto simp: normal_life_def)
qed

text \<open>
  A reader at its send of \<open>false\<close> while the channel is full and the starter has finished is
  blocked for good: no action of any goroutine, not even cancelling the context, lets it return.
  This is where the second reader of every agent that was started successfully ends up.
\<close>

lemma reader_blocked_forever:
  assumes "starter s \<noteq> Selecting" and "length (waitForChan s) = chan_capacity"
    and "reader s p = SendingFalse" and "output_run w s es = Some t"
  shows "reader t p = SendingFalse \<and> waitForChan t = waitForChan s"
  using assms
proof (induction es arbitrary: s)
  case Nil
  then show ?case by simp
next
  case (Cons e es)
  then obtain u where u: "output_next w s e = Some u" and run: "output_run w u es = Some t"
    by (auto split: option.splits)
  have "starter u = starter s \<and> waitForChan u = waitForChan s \<and> reader u p = SendingFalse"
    using u Cons.prems(1-3)
    by (cases e) (auto split: reader_state.splits start_wait.splits list.splits if_splits)
  with Cons.IH [of u] Cons.prems run show ?case by simp
qed

lemma reader_blocked_forever_witness:
  "\<exists>s t. output_run ''up'' (setupCommandLogging ''up'') normal_life = Some s \<and>
     output_run ''up'' s [] = Some t \<and> reader t Stderr = SendingFalse"
proof -
  obtain s where "output_run ''up'' (setupCommandLogging ''up'') normal_life = Some s"
    and "starter s \<noteq> Selecting" "length (waitForChan s) = chan_capacity" "reader s Stderr = SendingFalse"
    by (simp add: normal_life_def setupCommandLogging_def HasPrefix_def chan_capacity_def)
  with reader_blocked_forever [of s Stderr "''up''" "[]" s] show ?thesis by auto
qed

end
