(* ===== verification/Go_Files.thy ===== *)
theory Go_Files
  imports Go_Strings "HOL-Library.AList"
begin

text \<open>
  The file system as the program sees it through Go's \<^verbatim>\<open>os\<close>, \<^verbatim>\<open>io/ioutil\<close>, \<^verbatim>\<open>path\<close>
  and \<^verbatim>\<open>path/filepath\<close> packages: absolute, cleaned paths, a finite tree of directories, files
  and symbolic links, and the system calls the program makes. Any call may also fail for a
  reason outside the model (permissions, a full disk); a fault function given to each call
  decides that.
\<close>

section \<open>Paths\<close>

text \<open>
  A cleaned absolute path is the list of its components. The data directory is configured as
  an absolute path, and every other path of the program is joined onto it.
\<close>

type_synonym path = "string list"

fun split_slash :: "string \<Rightarrow> string list" where
  "split_slash [] = [[]]"
| "split_slash (c # cs) =
     (if c = CHR ''/'' then [] # split_slash cs
      else case split_slash cs of [] \<Rightarrow> [[c]] | w # ws \<Rightarrow> (c # w) # ws)"

definition clean_step :: "path \<Rightarrow> string \<Rightarrow> path" where
  "clean_step p c =
     (if c = [] \<or> c = ''.'' then p else if c = ''..'' then butlast p else p @ [c])"

text \<open>\<^verbatim>\<open>path.Join\<close> of an absolute path and one more element: the elements are joined with a
  slash and the result is cleaned lexically.\<close>

definition Join :: "path \<Rightarrow> string \<Rightarrow> path" where
  "Join p s = foldl clean_step p (split_slash s)"

fun path_Ext_rev :: "string \<Rightarrow> string \<Rightarrow> string" where
  "path_Ext_rev [] acc = []"
| "path_Ext_rev (c # cs) acc =
     (if c = CHR ''/'' then [] else if c = CHR ''.'' then c # acc else path_Ext_rev cs (c # acc))"

text \<open>\<^verbatim>\<open>path.Ext\<close>: the suffix from the last dot of the last element, if any.\<close>

definition path_Ext :: "string \<Rightarrow> string" where
  "path_Ext s = path_Ext_rev (rev s) []"

text \<open>The file half of \<^verbatim>\<open>path.Split\<close>: what follows the last slash.\<close>

definition path_File :: "string \<Rightarrow> string" where
  "path_File s = last (split_slash s)"

definition plain_name :: "string \<Rightarrow> bool" where
  "plain_name s \<longleftrightarrow> s \<noteq> [] \<and> s \<noteq> ''.'' \<and> s \<noteq> ''..'' \<and> CHR ''/'' \<notin> set s"

lemma split_slash_nonempty [simp]: "split_slash s \<noteq> []"
  by (induction s) (auto split: list.splits)

lemma split_slash_plain: "CHR ''/'' \<notin> set s \<Longrightarrow> split_slash s = [s]"
  by (induction s) auto

lemma Join_plain [simp]: "plain_name s \<Longrightarrow> Join p s = p @ [s]"
  by (simp add: Join_def plain_name_def split_slash_plain clean_step_def)

lemma path_Ext_rev_acc:
  "CHR ''.'' \<notin> set e \<Longrightarrow> CHR ''/'' \<notin> set e \<Longrightarrow>
   path_Ext_rev (rev e @ CHR ''.'' # r) acc = CHR ''.'' # e @ acc"
  by (induction e arbitrary: acc rule: rev_induct) auto

lemma path_Ext_append:
  "CHR ''.'' \<notin> set e \<Longrightarrow> CHR ''/'' \<notin> set e \<Longrightarrow> path_Ext (s @ CHR ''.'' # e) = CHR ''.'' # e"
  using path_Ext_rev_acc [of e "rev s" "[]"] by (simp add: path_Ext_def)

section \<open>The tree\<close>

datatype node = Dir | File string | Link string

type_synonym fs = "(path \<times> node) list"

definition lookup :: "fs \<Rightarrow> path \<Rightarrow> node option" where
  "lookup fs p = (if p = [] then Some Dir else map_of fs p)"

definition put :: "path \<Rightarrow> node \<Rightarrow> fs \<Rightarrow> fs" where
  "put p n fs = AList.update p n fs"

definition remove_tree :: "path \<Rightarrow> fs \<Rightarrow> fs" where
  "remove_tree p fs = filter (\<lambda>(q, _). \<not> prefix p q) fs"

definition children :: "fs \<Rightarrow> path \<Rightarrow> string list" where
  "children fs p = map last (filter (\<lambda>q. q \<noteq> [] \<and> butlast q = p) (map fst fs))"

lemma lookup_Nil [simp]: "lookup fs [] = Some Dir"
  by (simp add: lookup_def)

lemma lookup_put [simp]:
  "p \<noteq> [] \<Longrightarrow> lookup (put p n fs) q = (if q = p then Some n else lookup fs q)"
  by (auto simp: lookup_def put_def update_conv')

lemma map_of_filter_key:
  "map_of (filter (\<lambda>(k, _). P k) xs) k = (if P k then map_of xs k else None)"
  by (induction xs) auto

lemma lookup_remove_tree [simp]:
  "p \<noteq> [] \<Longrightarrow> lookup (remove_tree p fs) q = (if prefix p q then None else lookup fs q)"
  using map_of_filter_key [of "\<lambda>k. \<not> prefix p k" fs q]
  by (simp add: lookup_def remove_tree_def)

lemma mem_children: "c \<in> set (children fs p) \<longleftrightarrow> lookup fs (p @ [c]) \<noteq> None"
proof -
  have "lookup fs (p @ [c]) \<noteq> None \<longleftrightarrow> p @ [c] \<in> fst ` set fs"
    by (simp add: lookup_def map_of_eq_None_iff)
  also have "\<dots> \<longleftrightarrow> c \<in> set (children fs p)"
    by (force simp: children_def image_iff)
  finally show ?thesis by simp
qed

section \<open>Resolving a path\<close>

text \<open>
  The kernel's walk: components in order, symbolic links followed (the last one only on
  request), at most 40 links, as Linux does. The result is the path of a node or of an absent
  entry in an existing directory.
\<close>

fun walk :: "nat \<Rightarrow> fs \<Rightarrow> bool \<Rightarrow> path \<Rightarrow> string list \<Rightarrow> path result" where
  "walk n fs follow cur [] = Inr cur"
| "walk n fs follow cur (c # cs) =
     (if c = [] \<or> c = ''.'' then walk n fs follow cur cs
      else if c = ''..'' then walk n fs follow (butlast cur) cs
      else case lookup fs (cur @ [c]) of
          None \<Rightarrow>
            if cs = [] then Inr (cur @ [c]) else Inl (PathError True ''no such file or directory'')
        | Some Dir \<Rightarrow> walk n fs follow (cur @ [c]) cs
        | Some (File _) \<Rightarrow>
            if cs = [] then Inr (cur @ [c]) else Inl (PathError False ''not a directory'')
        | Some (Link t) \<Rightarrow>
            if cs = [] \<and> \<not> follow then Inr (cur @ [c])
            else (case n of
                    0 \<Rightarrow> Inl (PathError False ''too many levels of symbolic links'')
                  | Suc n' \<Rightarrow>
                      walk n' fs follow (if HasPrefix t ''/'' then [] else cur) (split_slash t @ cs)))"

definition resolve :: "fs \<Rightarrow> bool \<Rightarrow> path \<Rightarrow> path result" where
  "resolve fs follow p = walk 40 fs follow [] p"

text \<open>A path all of whose proper prefixes are directories resolves to itself.\<close>

definition dirs_above :: "fs \<Rightarrow> path \<Rightarrow> bool" where
  "dirs_above fs p \<longleftrightarrow>
     (\<forall>i < length p. lookup fs (take i p) = Some Dir) \<and> list_all plain_name p"

lemma walk_dirs:
  assumes "\<forall>i < length cs. lookup fs (cur @ take i cs) = Some Dir" and "list_all plain_name cs"
    and "cs \<noteq> []" and "\<forall>t. lookup fs (cur @ cs) \<noteq> Some (Link t)"
  shows "walk n fs follow cur cs = Inr (cur @ cs)"
  using assms
proof (induction cs arbitrary: cur)
  case Nil
  then show ?case by simp
next
  case (Cons c cs)
  have c: "c \<noteq> []" "c \<noteq> ''.''" "c \<noteq> ''..''" using Cons.prems(2) by (auto simp: plain_name_def)
  show ?case
  proof (cases "cs = []")
    case True
    with c Cons.prems(4) show ?thesis by (auto split: option.split node.split)
  next
    case False
    have "lookup fs (cur @ [c]) = Some Dir"
      using Cons.prems(1) False by (auto dest: spec [of _ 1])
    moreover have "\<forall>i < length cs. lookup fs ((cur @ [c]) @ take i cs) = Some Dir"
      using Cons.prems(1) by (metis Suc_mono append.assoc append_Cons append_Nil length_Cons take_Suc_Cons)
    ultimately show ?thesis
      using c False Cons.IH [of "cur @ [c]"] Cons.prems(2,4) by auto
  qed
qed

lemma resolve_plain:
  "dirs_above fs p \<Longrightarrow> p \<noteq> [] \<Longrightarrow> \<forall>t. lookup fs p \<noteq> Some (Link t) \<Longrightarrow> resolve fs follow p = Inr p"
  using walk_dirs [of p fs "[]"] by (simp add: resolve_def dirs_above_def)

lemma walk_no_follow:
  assumes "\<forall>i < length cs. lookup fs (cur @ take i cs) = Some Dir" and "list_all plain_name cs"
    and "cs \<noteq> []"
  shows "walk n fs False cur cs = Inr (cur @ cs)"
  using assms
proof (induction cs arbitrary: cur)
  case Nil
  then show ?case by simp
next
  case (Cons c cs)
  have c: "c \<noteq> []" "c \<noteq> ''.''" "c \<noteq> ''..''" using Cons.prems(2) by (auto simp: plain_name_def)
  show ?case
  proof (cases "cs = []")
    case True
    with c show ?thesis by (auto split: option.split node.split)
  next
    case False
    have "lookup fs (cur @ [c]) = Some Dir"
      using Cons.prems(1) False by (auto dest: spec [of _ 1])
    moreover have "\<forall>i < length cs. lookup fs ((cur @ [c]) @ take i cs) = Some Dir"
      using Cons.prems(1) by (metis Suc_mono append.assoc append_Cons append_Nil length_Cons take_Suc_Cons)
    ultimately show ?thesis
      using c False Cons.IH [of "cur @ [c]"] Cons.prems(2) by auto
  qed
qed

lemma resolve_no_follow: "dirs_above fs p \<Longrightarrow> p \<noteq> [] \<Longrightarrow> resolve fs False p = Inr p"
  using walk_no_follow [of p fs "[]"] by (simp add: resolve_def dirs_above_def)

section \<open>Well-formed trees\<close>

text \<open>Every entry lies in a directory and has a proper name.\<close>

definition wf_fs :: "fs \<Rightarrow> bool" where
  "wf_fs fs \<longleftrightarrow>
     (\<forall>p n. p \<noteq> [] \<longrightarrow> lookup fs p = Some n \<longrightarrow> lookup fs (butlast p) = Some Dir \<and> plain_name (last p))"

lemma wf_fsD:
  "wf_fs fs \<Longrightarrow> lookup fs (p @ [c]) = Some n \<Longrightarrow> lookup fs p = Some Dir"
  "wf_fs fs \<Longrightarrow> lookup fs (p @ [c]) = Some n \<Longrightarrow> plain_name c"
  by (auto simp: wf_fs_def dest: spec [of _ "p @ [c]"])

lemma wf_fs_empty [simp]: "wf_fs []"
  by (simp add: wf_fs_def lookup_def)

lemma wf_fs_dir_above:
  assumes "wf_fs fs" and "lookup fs p = Some Dir" and "prefix q p"
  shows "lookup fs q = Some Dir"
  using assms(2,3)
proof (induction p rule: rev_induct)
  case Nil
  then show ?case by simp
next
  case (snoc c p)
  from snoc.prems assms(1) have "lookup fs p = Some Dir" by (blast dest: wf_fsD)
  with snoc show ?case by (auto simp: prefix_snoc)
qed

lemma wf_fs_plain: "wf_fs fs \<Longrightarrow> lookup fs p = Some n \<Longrightarrow> list_all plain_name p"
proof (induction p arbitrary: n rule: rev_induct)
  case Nil
  then show ?case by simp
next
  case (snoc c p)
  then show ?case by (auto dest: wf_fsD)
qed

lemma wf_dirs_above:
  assumes "wf_fs fs" and "lookup fs p = Some Dir" and "plain_name c"
  shows "dirs_above fs (p @ [c])"
  using assms wf_fs_dir_above [OF assms(1,2)] wf_fs_plain [OF assms(1,2)]
  by (auto simp: dirs_above_def take_is_prefix)

lemma resolve_child [simp]:
  assumes "wf_fs fs" and "lookup fs p = Some Dir" and "plain_name c"
  shows "resolve fs False (p @ [c]) = Inr (p @ [c])"
    and "\<forall>t. lookup fs (p @ [c]) \<noteq> Some (Link t) \<Longrightarrow> resolve fs follow (p @ [c]) = Inr (p @ [c])"
  using wf_dirs_above [OF assms] resolve_no_follow resolve_plain by auto

lemma resolve_dir [simp]:
  assumes "wf_fs fs" and "lookup fs p = Some Dir"
  shows "resolve fs follow p = Inr p"
proof (cases p rule: rev_cases)
  case Nil
  then show ?thesis by (simp add: resolve_def)
next
  case (snoc q c)
  with assms have "lookup fs q = Some Dir" "plain_name c" by (auto dest: wf_fsD)
  with assms snoc show ?thesis by auto
qed

lemma wf_fs_put:
  assumes "wf_fs fs" and "lookup fs p = Some Dir" and "plain_name c"
    and "lookup fs (p @ [c]) \<noteq> Some Dir \<or> n = Dir"
  shows "wf_fs (put (p @ [c]) n fs)"
  unfolding wf_fs_def
proof (intro allI impI)
  fix q m
  assume q: "q \<noteq> []" and m: "lookup (put (p @ [c]) n fs) q = Some m"
  show "lookup (put (p @ [c]) n fs) (butlast q) = Some Dir \<and> plain_name (last q)"
  proof (cases "q = p @ [c]")
    case True
    with assms show ?thesis by simp
  next
    case False
    with m q assms(1) have "lookup fs (butlast q) = Some Dir \<and> plain_name (last q)"
      by (auto simp: wf_fs_def)
    with assms(4) show ?thesis by auto
  qed
qed

lemma wf_fs_remove_tree:
  assumes "wf_fs fs" and "p \<noteq> []"
  shows "wf_fs (remove_tree p fs)"
  unfolding wf_fs_def
proof (intro allI impI)
  fix q m
  assume q: "q \<noteq> []" and m: "lookup (remove_tree p fs) q = Some m"
  then have "\<not> prefix p q" "lookup fs q = Some m" using assms(2) by (auto split: if_splits)
  moreover from this(1) have "\<not> prefix p (butlast q)"
    by (metis prefix_order.trans prefixeq_butlast)
  ultimately show "lookup (remove_tree p fs) (butlast q) = Some Dir \<and> plain_name (last q)"
    using assms q by (auto simp: wf_fs_def)
qed

lemma split_slash_no_slash: "list_all (\<lambda>c. CHR ''/'' \<notin> set c) (split_slash s)"
  by (induction s) (auto split: list.splits)

text \<open>Where a walk ends: the root, or a proper name in an existing directory.\<close>

definition entry_of :: "fs \<Rightarrow> path \<Rightarrow> bool" where
  "entry_of fs q \<longleftrightarrow> q = [] \<or> (lookup fs (butlast q) = Some Dir \<and> plain_name (last q))"

lemma walk_entry:
  assumes "wf_fs fs" and "lookup fs cur = Some Dir" and "list_all (\<lambda>c. CHR ''/'' \<notin> set c) cs"
    and "walk n fs follow cur cs = Inr q"
  shows "entry_of fs q"
  using assms
proof (induction n fs follow cur cs rule: walk.induct)
  case (1 n fs follow cur)
  then show ?case
    by (cases cur rule: rev_cases) (auto simp: entry_of_def wf_fs_def)
next
  case (2 n fs follow cur c cs)
  note wf = "2.prems"(1) and cur = "2.prems"(2) and noslash = "2.prems"(3) and w = "2.prems"(4)
  consider (skip) "c = [] \<or> c = ''.''" | (up) "c = ''..''" | (name) "plain_name c"
    using noslash by (auto simp: plain_name_def)
  then show ?case
  proof cases
    case skip
    then show ?thesis using "2.IH"(1) wf cur noslash w by auto
  next
    case up
    moreover have "lookup fs (butlast cur) = Some Dir"
      using wf_fs_dir_above [OF wf cur] by (simp add: prefixeq_butlast)
    ultimately show ?thesis using "2.IH"(2) wf noslash w by auto
  next
    case name
    then have c: "c \<noteq> []" "c \<noteq> ''.''" "c \<noteq> ''..''" by (auto simp: plain_name_def)
    have here: "entry_of fs (cur @ [c])" using cur name by (simp add: entry_of_def)
    have noslash_t: "list_all (\<lambda>c. CHR ''/'' \<notin> set c) (split_slash t @ cs)" for t
      using noslash split_slash_no_slash by simp
    have base: "lookup fs (if HasPrefix t ''/'' then [] else cur) = Some Dir" for t
      using cur by simp
    show ?thesis
    proof (cases "lookup fs (cur @ [c])")
      case None
      with w c here show ?thesis by (auto split: if_splits)
    next
      case (Some nd)
      then show ?thesis
      proof (cases nd)
        case Dir
        with w c Some noslash wf show ?thesis using "2.IH"(3) by auto
      next
        case (File d)
        with w c Some here show ?thesis by (auto split: if_splits)
      next
        case (Link t)
        with w c Some here show ?thesis
          using "2.IH"(4) [OF _ _ Some Link] wf noslash_t base
          by (auto split: if_splits nat.splits)
      qed
    qed
  qed
qed

lemma resolve_entry:
  assumes "wf_fs fs" and "list_all (\<lambda>c. CHR ''/'' \<notin> set c) p" and "resolve fs follow p = Inr q"
  shows "entry_of fs q"
  using walk_entry [of fs "[]" p 40 follow q] assms by (simp add: resolve_def lookup_def)

section \<open>System calls\<close>

text \<open>
  Each call takes the fault function of the current request: \<open>flt c p\<close> makes the call \<open>c\<close> on
  the path \<open>p\<close> fail with an error that is not "does not exist". A call that only returns an
  error in Go returns \<open>go_error option\<close> here, \<open>None\<close> being \<^verbatim>\<open>nil\<close>, beside the new tree.
\<close>

datatype syscall =
    SysStat | SysLstat | SysReadlink | SysMkdir | SysRemove | SysRemoveAll | SysWriteFile
  | SysOpenFile | SysWrite | SysSymlink | SysOpenDir | SysReadDir

type_synonym faults = "syscall \<Rightarrow> path \<Rightarrow> bool"

definition no_faults :: faults where
  "no_faults = (\<lambda>_ _. False)"

lemma no_faults [simp]: "\<not> no_faults c p"
  by (simp add: no_faults_def)

definition io_error :: go_error where
  "io_error = PathError False ''input/output error''"

definition not_exist :: go_error where
  "not_exist = PathError True ''no such file or directory''"

lemma IsNotExist_simps [simp]: "\<not> os_IsNotExist io_error" "os_IsNotExist not_exist"
  by (simp_all add: io_error_def not_exist_def)

definition stat_node :: "fs \<Rightarrow> bool \<Rightarrow> path \<Rightarrow> node result" where
  "stat_node fs follow p =
     (case resolve fs follow p of
        Inl e \<Rightarrow> Inl e
      | Inr q \<Rightarrow> (case lookup fs q of None \<Rightarrow> Inl not_exist | Some n \<Rightarrow> Inr n))"

definition os_Stat :: "faults \<Rightarrow> fs \<Rightarrow> path \<Rightarrow> node result" where
  "os_Stat flt fs p = (if flt SysStat p then Inl io_error else stat_node fs True p)"

definition os_Lstat :: "faults \<Rightarrow> fs \<Rightarrow> path \<Rightarrow> node result" where
  "os_Lstat flt fs p = (if flt SysLstat p then Inl io_error else stat_node fs False p)"

definition os_Readlink :: "faults \<Rightarrow> fs \<Rightarrow> path \<Rightarrow> string result" where
  "os_Readlink flt fs p =
     (if flt SysReadlink p then Inl io_error
      else case stat_node fs False p of
          Inl e \<Rightarrow> Inl e
        | Inr (Link t) \<Rightarrow> Inr t
        | Inr _ \<Rightarrow> Inl (PathError False ''invalid argument''))"

text \<open>Creating an entry that must not be there yet: \<^verbatim>\<open>os.Mkdir\<close> and \<^verbatim>\<open>os.Symlink\<close>.\<close>

definition create_entry :: "fs \<Rightarrow> path \<Rightarrow> node \<Rightarrow> go_error option \<times> fs" where
  "create_entry fs p n =
     (case resolve fs False p of
        Inl e \<Rightarrow> (Some e, fs)
      | Inr q \<Rightarrow>
          (case lookup fs q of
             None \<Rightarrow> (None, put q n fs)
           | Some _ \<Rightarrow> (Some (PathError False ''file exists''), fs)))"

definition os_Mkdir :: "faults \<Rightarrow> fs \<Rightarrow> path \<Rightarrow> go_error option \<times> fs" where
  "os_Mkdir flt fs p = (if flt SysMkdir p then (Some io_error, fs) else create_entry fs p Dir)"

definition os_Symlink :: "faults \<Rightarrow> fs \<Rightarrow> string \<Rightarrow> path \<Rightarrow> go_error option \<times> fs" where
  "os_Symlink flt fs target p =
     (if flt SysSymlink p then (Some io_error, fs) else create_entry fs p (Link target))"

text \<open>\<^verbatim>\<open>os.MkdirAll\<close> recurses on the parent, the last component off: the path is given
  reversed.\<close>

fun mkdir_all_rev :: "faults \<Rightarrow> fs \<Rightarrow> string list \<Rightarrow> go_error option \<times> fs" where
  "mkdir_all_rev flt fs [] = (None, fs)"
| "mkdir_all_rev flt fs (c # rp) =
     (let p = rev (c # rp) in
      case os_Stat flt fs p of
        Inr Dir \<Rightarrow> (None, fs)
      | Inr _ \<Rightarrow> (Some (PathError False ''not a directory''), fs)
      | Inl _ \<Rightarrow>
          (case mkdir_all_rev flt fs rp of
             (Some e, fs') \<Rightarrow> (Some e, fs')
           | (None, fs') \<Rightarrow>
               (case os_Mkdir flt fs' p of
                  (None, fs'') \<Rightarrow> (None, fs'')
                | (Some e, fs'') \<Rightarrow>
                    (case os_Lstat flt fs'' p of
                       Inr Dir \<Rightarrow> (None, fs'')
                     | _ \<Rightarrow> (Some e, fs'')))))"

definition os_MkdirAll :: "faults \<Rightarrow> fs \<Rightarrow> path \<Rightarrow> go_error option \<times> fs" where
  "os_MkdirAll flt fs p = mkdir_all_rev flt fs (rev p)"

definition os_Remove :: "faults \<Rightarrow> fs \<Rightarrow> path \<Rightarrow> go_error option \<times> fs" where
  "os_Remove flt fs p =
     (if flt SysRemove p then (Some io_error, fs)
      else case resolve fs False p of
          Inl e \<Rightarrow> (Some e, fs)
        | Inr q \<Rightarrow>
            (case lookup fs q of
               None \<Rightarrow> (Some not_exist, fs)
             | Some n \<Rightarrow>
                 if q = [] then (Some (PathError False ''device or resource busy''), fs)
                 else if n = Dir \<and> children fs q \<noteq> []
                 then (Some (PathError False ''directory not empty''), fs)
                 else (None, remove_tree q fs)))"

definition os_RemoveAll :: "faults \<Rightarrow> fs \<Rightarrow> path \<Rightarrow> go_error option \<times> fs" where
  "os_RemoveAll flt fs p =
     (if flt SysRemoveAll p then (Some io_error, fs)
      else case resolve fs False p of
          Inl e \<Rightarrow> (if os_IsNotExist e then None else Some e, fs)
        | Inr q \<Rightarrow>
            if q = [] then (Some (PathError False ''device or resource busy''), fs)
            else (None, remove_tree q fs))"

text \<open>
  Opening a file for writing, creating it if need be. \<^verbatim>\<open>ioutil.WriteFile\<close> truncates it;
  \<^verbatim>\<open>os.OpenFile\<close> with \<^verbatim>\<open>O_RDWR|O_CREATE\<close> does not, so that writing the bytes \<open>new\<close> at
  offset 0 of a longer file keeps the rest of the old content.
\<close>

definition open_create :: "fs \<Rightarrow> path \<Rightarrow> (path \<times> string) result" where
  "open_create fs p =
     (case resolve fs True p of
        Inl e \<Rightarrow> Inl e
      | Inr q \<Rightarrow>
          (case lookup fs q of
             None \<Rightarrow> Inr (q, [])
           | Some (File old) \<Rightarrow> Inr (q, old)
           | Some _ \<Rightarrow> Inl (PathError False ''is a directory'')))"

definition overwrite :: "string \<Rightarrow> string \<Rightarrow> string" where
  "overwrite new old = new @ drop (length new) old"

definition ioutil_WriteFile :: "faults \<Rightarrow> fs \<Rightarrow> path \<Rightarrow> string \<Rightarrow> go_error option \<times> fs" where
  "ioutil_WriteFile flt fs p data =
     (if flt SysWriteFile p then (Some io_error, fs)
      else case open_create fs p of
          Inl e \<Rightarrow> (Some e, fs)
        | Inr (q, _) \<Rightarrow> (None, put q (File data) fs))"

text \<open>\<^verbatim>\<open>os.OpenFile(p, O_RDWR|O_CREATE, mode)\<close>: the file exists afterwards.\<close>

definition os_OpenFile :: "faults \<Rightarrow> fs \<Rightarrow> path \<Rightarrow> path result \<times> fs" where
  "os_OpenFile flt fs p =
     (if flt SysOpenFile p then (Inl io_error, fs)
      else case open_create fs p of
          Inl e \<Rightarrow> (Inl e, fs)
        | Inr (q, old) \<Rightarrow> (Inr q, put q (File old) fs))"

text \<open>One write of all bytes at offset 0 of the file opened at \<open>q\<close>. A write that fails may
  leave nothing written.\<close>

definition file_Write :: "faults \<Rightarrow> fs \<Rightarrow> path \<Rightarrow> string \<Rightarrow> go_error option \<times> fs" where
  "file_Write flt fs q data =
     (if flt SysWrite q then (Some io_error, fs)
      else case lookup fs q of
          Some (File old) \<Rightarrow> (None, put q (File (overwrite data old)) fs)
        | _ \<Rightarrow> (Some io_error, fs))"

text \<open>\<^verbatim>\<open>os.Open\<close> of a directory followed by \<^verbatim>\<open>Readdirnames(0)\<close>.\<close>

definition os_OpenDir :: "faults \<Rightarrow> fs \<Rightarrow> path \<Rightarrow> path result" where
  "os_OpenDir flt fs p =
     (if flt SysOpenDir p then Inl io_error
      else case resolve fs True p of
          Inl e \<Rightarrow> Inl e
        | Inr q \<Rightarrow> (case lookup fs q of None \<Rightarrow> Inl not_exist | Some _ \<Rightarrow> Inr q))"

definition Readdirnames :: "faults \<Rightarrow> fs \<Rightarrow> path \<Rightarrow> string list result" where
  "Readdirnames flt fs q =
     (if flt SysReadDir q then Inl io_error
      else if lookup fs q = Some Dir then Inr (children fs q)
      else Inl (PathError False ''not a directory''))"

section \<open>Every call keeps the tree well-formed\<close>

definition clean_path :: "path \<Rightarrow> bool" where
  "clean_path p \<longleftrightarrow> list_all (\<lambda>c. CHR ''/'' \<notin> set c) p"

lemma clean_path_simps [simp]:
  "clean_path []" "clean_path (c # p) \<longleftrightarrow> CHR ''/'' \<notin> set c \<and> clean_path p"
  "clean_path (p @ q) \<longleftrightarrow> clean_path p \<and> clean_path q"
  by (simp_all add: clean_path_def)

lemma clean_path_rev [simp]: "clean_path (rev p) = clean_path p"
  by (simp add: clean_path_def list_all_iff)

lemma clean_path_butlast: "clean_path p \<Longrightarrow> clean_path (butlast p)"
  by (auto simp: clean_path_def list_all_iff dest: in_set_butlastD)

lemma clean_step_clean: "clean_path p \<Longrightarrow> CHR ''/'' \<notin> set c \<Longrightarrow> clean_path (clean_step p c)"
  by (auto simp: clean_step_def clean_path_butlast)

lemma Join_clean: "clean_path p \<Longrightarrow> clean_path (Join p s)"
proof -
  have "clean_path p \<Longrightarrow> list_all (\<lambda>c. CHR ''/'' \<notin> set c) cs \<Longrightarrow> clean_path (foldl clean_step p cs)" for cs
    by (induction cs arbitrary: p) (auto simp: clean_step_clean)
  then show "clean_path p \<Longrightarrow> clean_path (Join p s)"
    by (simp add: Join_def split_slash_no_slash)
qed

lemma wf_fs_put_entry:
  assumes "wf_fs fs" and "entry_of fs q" and "lookup fs q \<noteq> Some Dir"
  shows "wf_fs (put q n fs)"
  using assms wf_fs_put [of fs "butlast q" "last q" n]
  by (cases "q = []") (auto simp: entry_of_def)

lemma resolve_clean_entry:
  "wf_fs fs \<Longrightarrow> clean_path p \<Longrightarrow> resolve fs follow p = Inr q \<Longrightarrow> entry_of fs q"
  unfolding clean_path_def by (rule resolve_entry)

lemma wf_create_entry:
  assumes "wf_fs fs" and "clean_path p"
  shows "wf_fs (snd (create_entry fs p n))"
  using assms
  by (auto simp: create_entry_def split: sum.splits option.splits
      intro: wf_fs_put_entry resolve_clean_entry)

lemma wf_os_Mkdir: "wf_fs fs \<Longrightarrow> clean_path p \<Longrightarrow> wf_fs (snd (os_Mkdir flt fs p))"
  by (simp add: os_Mkdir_def wf_create_entry)

lemma wf_os_Symlink: "wf_fs fs \<Longrightarrow> clean_path p \<Longrightarrow> wf_fs (snd (os_Symlink flt fs t p))"
  by (simp add: os_Symlink_def wf_create_entry)

lemma wf_mkdir_all_rev:
  "wf_fs fs \<Longrightarrow> clean_path rp \<Longrightarrow> wf_fs (snd (mkdir_all_rev flt fs rp))"
proof (induction flt fs rp rule: mkdir_all_rev.induct)
  case (1 flt fs)
  then show ?case by simp
next
  case (2 flt fs c rp)
  then have IH: "os_Stat flt fs (rev rp @ [c]) = Inl e \<Longrightarrow> wf_fs (snd (mkdir_all_rev flt fs rp))" for e
    by simp
  show ?case
  proof (cases "os_Stat flt fs (rev rp @ [c])")
    case (Inr nd)
    then show ?thesis using "2.prems" by (auto split: node.split)
  next
    case (Inl e)
    obtain r fs' where r: "mkdir_all_rev flt fs rp = (r, fs')" by fastforce
    obtain r2 fs2 where r2: "os_Mkdir flt fs' (rev rp @ [c]) = (r2, fs2)" by fastforce
    have "wf_fs fs'" using IH [OF Inl] r by simp
    then have "wf_fs fs2"
      using wf_os_Mkdir [of fs' "rev rp @ [c]" flt] r2 "2.prems" by simp
    with Inl r r2 \<open>wf_fs fs'\<close> show ?thesis
      by (auto simp: Let_def split: option.split sum.split node.split)
  qed
qed

lemma wf_os_MkdirAll: "wf_fs fs \<Longrightarrow> clean_path p \<Longrightarrow> wf_fs (snd (os_MkdirAll flt fs p))"
  by (simp add: os_MkdirAll_def wf_mkdir_all_rev)

lemma wf_os_Remove: "wf_fs fs \<Longrightarrow> wf_fs (snd (os_Remove flt fs p))"
  by (auto simp: os_Remove_def wf_fs_remove_tree split: sum.splits option.splits)

lemma wf_os_RemoveAll: "wf_fs fs \<Longrightarrow> wf_fs (snd (os_RemoveAll flt fs p))"
  by (auto simp: os_RemoveAll_def wf_fs_remove_tree split: sum.splits option.splits)

lemma open_create_entry:
  assumes "wf_fs fs" and "clean_path p" and "open_create fs p = Inr (q, old)"
  shows "entry_of fs q" "q \<noteq> []" "lookup fs q = None \<and> old = [] \<or> lookup fs q = Some (File old)"
  using assms
  by (auto simp: open_create_def dest: resolve_clean_entry split: sum.splits option.splits node.splits)

lemma wf_ioutil_WriteFile:
  "wf_fs fs \<Longrightarrow> clean_path p \<Longrightarrow> wf_fs (snd (ioutil_WriteFile flt fs p d))"
  using open_create_entry [of fs p]
  by (fastforce simp: ioutil_WriteFile_def split: sum.splits intro: wf_fs_put_entry)

lemma wf_os_OpenFile: "wf_fs fs \<Longrightarrow> clean_path p \<Longrightarrow> wf_fs (snd (os_OpenFile flt fs p))"
  using open_create_entry [of fs p]
  by (fastforce simp: os_OpenFile_def split: sum.splits intro: wf_fs_put_entry)

lemma wf_file_Write: "wf_fs fs \<Longrightarrow> wf_fs (snd (file_Write flt fs q d))"
  by (cases "q = []")
     (auto simp: file_Write_def entry_of_def wf_fs_def [of fs]
       intro!: wf_fs_put_entry split: option.splits node.splits)

lemmas wf_syscalls =
  wf_os_Mkdir wf_os_Symlink wf_os_MkdirAll wf_os_Remove wf_os_RemoveAll wf_ioutil_WriteFile
  wf_os_OpenFile wf_file_Write

section \<open>The calls on a plain name in an existing directory\<close>

text \<open>
  The configuration files of an agent are such names: what each call does to them is stated
  once here and used by every runner.
\<close>

definition file_slot :: "fs \<Rightarrow> path \<Rightarrow> string \<Rightarrow> bool" where
  "file_slot fs d c \<longleftrightarrow>
     wf_fs fs \<and> lookup fs d = Some Dir \<and> plain_name c \<and>
     (case lookup fs (d @ [c]) of None \<Rightarrow> True | Some (File _) \<Rightarrow> True | _ \<Rightarrow> False)"

definition file_content :: "fs \<Rightarrow> path \<Rightarrow> string option" where
  "file_content fs p = (case lookup fs p of Some (File s) \<Rightarrow> Some s | _ \<Rightarrow> None)"

lemma open_create_slot:
  "file_slot fs d c \<Longrightarrow>
   open_create fs (d @ [c]) =
     Inr (d @ [c], case file_content fs (d @ [c]) of None \<Rightarrow> [] | Some old \<Rightarrow> old)"
  by (auto simp: file_slot_def open_create_def file_content_def split: option.splits node.splits)

lemma WriteFile_slot:
  "file_slot fs d c \<Longrightarrow>
   ioutil_WriteFile no_faults fs (d @ [c]) data = (None, put (d @ [c]) (File data) fs)"
  by (simp add: ioutil_WriteFile_def open_create_slot)

lemma Remove_slot:
  "file_slot fs d c \<Longrightarrow>
   os_Remove no_faults fs (d @ [c]) =
     (if lookup fs (d @ [c]) = None then (Some not_exist, fs)
      else (None, remove_tree (d @ [c]) fs))"
  by (auto simp: file_slot_def os_Remove_def split: option.splits)

section \<open>Making a directory and those above it\<close>

text \<open>A path with nothing but directories, or nothing at all, along it.\<close>

definition dir_path :: "fs \<Rightarrow> path \<Rightarrow> bool" where
  "dir_path fs p \<longleftrightarrow>
     list_all plain_name p \<and> (\<forall>q. prefix q p \<longrightarrow> lookup fs q = None \<or> lookup fs q = Some Dir)"

lemma dir_path_snoc: "dir_path fs (p @ [c]) \<Longrightarrow> dir_path fs p \<and> plain_name c"
  by (auto simp: dir_path_def)

lemma dir_path_Dir: "wf_fs fs \<Longrightarrow> lookup fs p = Some Dir \<Longrightarrow> dir_path fs p"
  using wf_fs_dir_above wf_fs_plain by (simp add: dir_path_def)

lemma walk_dir_path:
  assumes "list_all plain_name cs"
    and "\<forall>i \<le> length cs. lookup fs (cur @ take i cs) = None \<or> lookup fs (cur @ take i cs) = Some Dir"
    and "walk n fs follow cur cs = Inr q"
  shows "q = cur @ cs"
  using assms
proof (induction cs arbitrary: cur)
  case (Cons c cs)
  have c: "c \<noteq> []" "c \<noteq> ''.''" "c \<noteq> ''..''" using Cons.prems(1) by (auto simp: plain_name_def)
  have l: "lookup fs (cur @ [c]) = None \<or> lookup fs (cur @ [c]) = Some Dir"
    using Cons.prems(2) by (auto dest: spec [of _ 1])
  have all: "\<forall>i \<le> length cs. lookup fs ((cur @ [c]) @ take i cs) = None \<or>
      lookup fs ((cur @ [c]) @ take i cs) = Some Dir"
    using Cons.prems(2) by (auto dest: spec [of _ "Suc _"])
  show ?case
    using l c Cons.prems(1,3) Cons.IH [OF _ all] by (auto split: if_splits)
qed simp

lemma stat_dir_path:
  assumes "wf_fs fs" and "dir_path fs p"
  shows "(\<exists>e. os_Stat no_faults fs p = Inl e) \<and> lookup fs p = None \<or>
     os_Stat no_faults fs p = Inr Dir \<and> lookup fs p = Some Dir"
proof (cases "lookup fs p = Some Dir")
  case True
  with assms(1) show ?thesis by (simp add: os_Stat_def stat_node_def)
next
  case False
  then have n: "lookup fs p = None" using assms(2) by (auto simp: dir_path_def)
  have "\<exists>e. stat_node fs True p = Inl e"
  proof (cases "resolve fs True p")
    case (Inr q)
    then have "q = p"
      using walk_dir_path [of p fs "[]" 40 True q] assms(2)
      by (auto simp: resolve_def dir_path_def take_is_prefix)
    with Inr n show ?thesis by (simp add: stat_node_def)
  qed (simp add: stat_node_def)
  with n show ?thesis by (simp add: os_Stat_def)
qed

lemma mkdir_all_rev_dir_path:
  assumes "wf_fs fs" and "dir_path fs (rev rp)"
  shows "\<exists>fs'. mkdir_all_rev no_faults fs rp = (None, fs') \<and> wf_fs fs' \<and>
     (\<forall>q. lookup fs' q = (if prefix q (rev rp) then Some Dir else lookup fs q))"
  using assms
proof (induction rp)
  case Nil
  then show ?case by simp
next
  case (Cons c rp)
  let ?p = "rev rp @ [c]"
  note wf = Cons.prems(1) and dp = Cons.prems(2) [simplified]
  show ?case
  proof (cases "lookup fs ?p = Some Dir")
    case True
    then have "os_Stat no_faults fs ?p = Inr Dir" using stat_dir_path [OF wf dp] by auto
    moreover have "lookup fs q = Some Dir" if "prefix q ?p" for q
      using wf_fs_dir_above [OF wf True that] .
    ultimately show ?thesis using wf by (auto simp: Let_def simp del: no_faults)
  next
    case False
    then obtain e where st: "os_Stat no_faults fs ?p = Inl e" and n: "lookup fs ?p = None"
      using stat_dir_path [OF wf dp] by auto
    obtain fs1 where m: "mkdir_all_rev no_faults fs rp = (None, fs1)" and wf1: "wf_fs fs1"
      and l1: "\<And>q. lookup fs1 q = (if prefix q (rev rp) then Some Dir else lookup fs q)"
      using Cons.IH [OF wf] dir_path_snoc [OF dp] by blast
    have d: "lookup fs1 (rev rp) = Some Dir" "lookup fs1 ?p = None"
      using l1 n by (auto simp: prefix_def)
    have pc: "plain_name c" using dir_path_snoc [OF dp] by simp
    have mk: "os_Mkdir no_faults fs1 ?p = (None, put ?p Dir fs1)"
      using d pc wf1 by (simp add: os_Mkdir_def create_entry_def)
    have "wf_fs (put ?p Dir fs1)" using wf_fs_put [OF wf1 d(1) pc] by simp
    moreover have "\<forall>q. lookup (put ?p Dir fs1) q = (if prefix q ?p then Some Dir else lookup fs q)"
      using l1 by (auto simp: prefix_snoc)
    ultimately show ?thesis using st m mk by (auto simp: Let_def simp del: no_faults)
  qed
qed

lemma os_MkdirAll_dir_path:
  assumes "wf_fs fs" and "dir_path fs p"
  obtains fs' where "os_MkdirAll no_faults fs p = (None, fs')" and "wf_fs fs'"
    and "\<And>q. lookup fs' q = (if prefix q p then Some Dir else lookup fs q)"
  using mkdir_all_rev_dir_path [of fs "rev p"] assms that by (auto simp: os_MkdirAll_def)

section \<open>Removing a directory\<close>

text \<open>Below something that is not there, nothing resolves.\<close>

lemma walk_missing:
  assumes "list_all plain_name cs" and "cs \<noteq> []"
    and "\<forall>i < length cs. lookup fs (cur @ take i cs) = None \<or> lookup fs (cur @ take i cs) = Some Dir"
    and "\<exists>i < length cs. 0 < i \<and> lookup fs (cur @ take i cs) = None"
  shows "\<exists>m. walk n fs follow cur cs = Inl (PathError True m)"
  using assms
proof (induction cs arbitrary: cur)
  case (Cons c cs)
  have c: "c \<noteq> []" "c \<noteq> ''.''" "c \<noteq> ''..''" using Cons.prems(1) by (auto simp: plain_name_def)
  obtain i where i: "i < Suc (length cs)" "0 < i" "lookup fs (cur @ take i (c # cs)) = None"
    using Cons.prems(4) by auto
  then have ne: "cs \<noteq> []" by auto
  have l: "lookup fs (cur @ [c]) = None \<or> lookup fs (cur @ [c]) = Some Dir"
    using Cons.prems(3) ne by (auto dest: spec [of _ 1])
  show ?case
  proof (cases "lookup fs (cur @ [c])")
    case None
    then show ?thesis using c ne by simp
  next
    case (Some n)
    then have d: "lookup fs (cur @ [c]) = Some Dir" using l by simp
    have "\<forall>j < length cs. lookup fs ((cur @ [c]) @ take j cs) = None \<or> lookup fs ((cur @ [c]) @ take j cs) = Some Dir"
      using Cons.prems(3) by (auto dest: spec [of _ "Suc _"])
    moreover have "\<exists>j < length cs. 0 < j \<and> lookup fs ((cur @ [c]) @ take j cs) = None"
    proof -
      obtain k where k: "i = Suc k" using i(2) by (cases i) auto
      moreover have "k \<noteq> 0" using i(3) d k by (cases k) auto
      ultimately show ?thesis using i by (intro exI [of _ k]) auto
    qed
    ultimately show ?thesis using Cons.IH [of "cur @ [c]"] Cons.prems(1) ne c d by auto
  qed
qed simp

lemma dir_path_take: "dir_path fs p \<Longrightarrow> lookup fs (take i p) = None \<or> lookup fs (take i p) = Some Dir"
  by (simp add: dir_path_def take_is_prefix)

text \<open>\<^verbatim>\<open>os.RemoveAll\<close> of a name in a directory that may be missing.\<close>

lemma os_RemoveAll_dir_path:
  assumes "wf_fs fs" and "dir_path fs p" and "plain_name c"
  obtains fs' where "os_RemoveAll no_faults fs (p @ [c]) = (None, fs')" and "wf_fs fs'"
    and "\<And>q. lookup fs' q = (if prefix (p @ [c]) q then None else lookup fs q)"
proof (cases "lookup fs p = Some Dir")
  case True
  have "os_RemoveAll no_faults fs (p @ [c]) = (None, remove_tree (p @ [c]) fs)"
    using True assms by (simp add: os_RemoveAll_def)
  then show ?thesis
    using that [of "remove_tree (p @ [c]) fs"] wf_fs_remove_tree [OF assms(1), of "p @ [c]"] by simp
next
  case False
  then have n: "lookup fs p = None" using assms(2) by (auto simp: dir_path_def)
  then have ne: "p \<noteq> []" by auto
  have "\<exists>m. walk 40 fs False [] (p @ [c]) = Inl (PathError True m)"
  proof (rule walk_missing)
    show "list_all plain_name (p @ [c])" using assms(2,3) by (simp add: dir_path_def)
    show "\<forall>i < length (p @ [c]). lookup fs ([] @ take i (p @ [c])) = None \<or>
        lookup fs ([] @ take i (p @ [c])) = Some Dir"
      using dir_path_take [OF assms(2)] by auto
    show "\<exists>i < length (p @ [c]). 0 < i \<and> lookup fs ([] @ take i (p @ [c])) = None"
      using n ne by (intro exI [of _ "length p"]) auto
  qed simp
  then have r: "os_RemoveAll no_faults fs (p @ [c]) = (None, fs)"
    by (auto simp: os_RemoveAll_def resolve_def)
  have "lookup fs q = None" if "prefix (p @ [c]) q" for q
  proof (rule ccontr)
    assume q: "lookup fs q \<noteq> None"
    obtain zs where zs: "q = p @ c # zs" using \<open>prefix (p @ [c]) q\<close> by (auto simp: prefix_def)
    have "lookup fs (butlast q) = Some Dir"
      using q zs assms(1) by (auto simp: wf_fs_def)
    moreover have "prefix p (butlast q)" using zs by (auto simp: butlast_append)
    ultimately have "lookup fs p = Some Dir" using wf_fs_dir_above [OF assms(1)] by blast
    with False show False by simp
  qed
  with r that [OF r assms(1)] show ?thesis by simp
qed

lemma dir_path_mono:
  assumes "dir_path fs p" and "\<And>q. lookup fs' q = lookup fs q \<or> lookup fs' q = None"
  shows "dir_path fs' p"
  using assms(1) assms(2) unfolding dir_path_def by metis

end
