(* ===== verification/Go_Duration.thy ===== *)
theory Go_Duration
  imports Go_Strings
begin

text \<open>
  \<^verbatim>\<open>time.Duration\<close>: nanoseconds in a signed 64-bit integer, with the multiplication by
  \<^verbatim>\<open>time.Second\<close> that the runners perform on intervals and timeouts and the text that
  \<^verbatim>\<open>Duration.String\<close> writes into agent configurations.
\<close>

type_synonym int64 = "64 word"
type_synonym uint64 = "64 word"
type_synonym duration = int64

section \<open>Seconds to a duration, with wrap-around\<close>

definition time_Second :: duration where
  "time_Second = 1000000000"

text \<open>\<^verbatim>\<open>time.Duration(n) * time.Second\<close>.\<close>

definition duration_seconds :: "int64 \<Rightarrow> duration" where
  "duration_seconds n = n * time_Second"

lemma sint_duration_seconds:
  assumes "\<bar>sint n\<bar> \<le> 9223372036"
  shows "sint (duration_seconds n) = sint n * 1000000000"
proof -
  have "sint (duration_seconds n) = signed_take_bit 63 (sint n * 1000000000)"
    by (simp add: duration_seconds_def time_Second_def sint_word_ariths)
  also have "\<dots> = sint n * 1000000000"
    using assms by (intro signed_take_bit_int_eq_self) (simp_all add: abs_le_iff)
  finally show ?thesis .
qed

section \<open>Duration.String\<close>

text \<open>\<^verbatim>\<open>fmtFrac\<close>: the digits after the decimal point, trailing zeros and an empty fraction
  left out; the result is the text and the integral part.\<close>

fun fmtFrac :: "nat \<Rightarrow> nat \<Rightarrow> bool \<Rightarrow> string \<Rightarrow> string \<times> nat" where
  "fmtFrac 0 v print acc = ((if print then CHR ''.'' # acc else acc), v)"
| "fmtFrac (Suc prec) v print acc =
     (let digit = v mod 10; print' = (print \<or> digit \<noteq> 0)
      in fmtFrac prec (v div 10) print' (if print' then digit_char digit # acc else acc))"

definition duration_text :: "nat \<Rightarrow> string" where
  "duration_text u =
     (if u < 1000000000 then
        (if u = 0 then ''0s''
         else if u < 1000 then show_nat u @ ''ns''
         else if u < 1000000 then
           (case fmtFrac 3 u False (bytes [194, 181] @ ''s'') of (f, v) \<Rightarrow> show_nat v @ f)
         else (case fmtFrac 6 u False ''ms'' of (f, v) \<Rightarrow> show_nat v @ f))
      else
        (case fmtFrac 9 u False ''s'' of (f, secs) \<Rightarrow>
           (let s = show_nat (secs mod 60) @ f; mins = secs div 60 in
            if mins = 0 then s
            else (let m = show_nat (mins mod 60) @ ''m'' @ s; hours = mins div 60 in
                  if hours = 0 then m else show_nat hours @ ''h'' @ m))))"

definition Duration_String :: "duration \<Rightarrow> string" where
  "Duration_String d =
     (if sint d < 0 then ''-'' @ duration_text (nat (- sint d)) else duration_text (nat (sint d)))"

lemma fmtFrac_zeros: "fmtFrac prec (v * 10 ^ prec) False acc = (acc, v)"
  by (induction prec arbitrary: v) (simp_all add: mult.assoc [symmetric] mult.commute)

text \<open>What the text of a whole number of seconds looks like.\<close>

definition hms_text :: "nat \<Rightarrow> string" where
  "hms_text n =
     (if n < 60 then show_nat n @ ''s''
      else if n < 3600 then show_nat (n div 60) @ ''m'' @ show_nat (n mod 60) @ ''s''
      else show_nat (n div 3600) @ ''h'' @ show_nat (n div 60 mod 60) @ ''m'' @ show_nat (n mod 60) @ ''s'')"

lemma duration_text_seconds:
  assumes "0 < n"
  shows "duration_text (n * 1000000000) = hms_text n"
proof -
  have "fmtFrac 9 (n * 1000000000) False ''s'' = (''s'', n)"
    using fmtFrac_zeros [of 9 n "''s''"] by simp
  moreover have "n div 60 div 60 = n div 3600" by (simp add: div_mult2_eq [symmetric])
  moreover have "n div 60 = 0 \<longleftrightarrow> n < 60" "n div 3600 = 0 \<longleftrightarrow> n < 3600"
    by (simp_all add: div_eq_0_iff)
  moreover have "\<not> n * 1000000000 < 1000000000" using assms by simp
  ultimately show ?thesis
    by (auto simp add: duration_text_def hms_text_def Let_def)
qed

lemma Duration_String_seconds:
  assumes "0 < sint n" and "sint n \<le> 9223372036"
  shows "Duration_String (duration_seconds n) = hms_text (nat (sint n))"
proof -
  have "sint (duration_seconds n) = sint n * 1000000000"
    using assms by (intro sint_duration_seconds) simp
  moreover from this have "nat (sint (duration_seconds n)) = nat (sint n) * 1000000000"
    using assms by (simp add: nat_mult_distrib)
  ultimately show ?thesis
    using assms duration_text_seconds [of "nat (sint n)"] by (simp add: Duration_String_def)
qed

section \<open>Reading the text back\<close>

text \<open>
  The reading of such a text by the agents that receive it, on the units that whole seconds
  use: a sequence of numbers, each followed by \<open>h\<close>, \<open>m\<close> or \<open>s\<close>, added up in seconds.
\<close>

fun read_hms :: "nat \<Rightarrow> string \<Rightarrow> nat option" where
  "read_hms n [] = (if n = 0 then Some 0 else None)"
| "read_hms n (c # cs) =
     (if is_digit c then read_hms (10 * n + digit_val c) cs
      else case (if c = CHR ''h'' then Some 3600 else if c = CHR ''m'' then Some 60
                 else if c = CHR ''s'' then Some 1 else None) of
          None \<Rightarrow> None
        | Some unit \<Rightarrow> map_option (\<lambda>t. n * unit + t) (read_hms 0 cs))"

lemma read_hms_digits:
  "list_all is_digit ds \<Longrightarrow> read_hms n (ds @ cs) = read_hms (foldl (\<lambda>n c. 10 * n + digit_val c) n ds) cs"
  by (induction ds arbitrary: n) auto

lemma read_hms_show_nat: "read_hms 0 (show_nat k @ cs) = read_hms k cs"
  using read_hms_digits [OF show_nat_digits, of 0 k cs] read_show_nat [of k]
  by (simp add: read_nat_def)

lemma unit_chars [simp]: "\<not> is_digit (CHR ''h'')" "\<not> is_digit (CHR ''m'')" "\<not> is_digit (CHR ''s'')"
  by (simp_all add: is_digit_def)

lemma read_hms_text: "read_hms 0 (hms_text n) = Some n"
proof -
  have "n div 60 = n div 3600 * 60 + n div 60 mod 60"
    using div_mult_mod_eq [of "n div 60" 60] by (simp add: div_mult2_eq [symmetric])
  moreover have "n = n div 60 * 60 + n mod 60" by simp
  ultimately have "n div 3600 * 3600 + (n div 60 mod 60 * 60 + n mod 60) = n"
    by linarith
  then show ?thesis
    by (simp add: hms_text_def read_hms_show_nat)
qed

end
