(* ===== verification/Telemetry.thy ===== *)
theory Telemetry
  imports Go_Duration
begin

text \<open>
  The messages of the telemetry protocol the program exchanges with an Ambassador, with the
  fields the program reads and writes. The Go types are generated from the protocol's
  definition, which is a separate module.
\<close>

datatype AgentType = TELEGRAF | FILEBEAT | ORACLE | PACKAGES | OtherAgent int

fun AgentType_String :: "AgentType \<Rightarrow> string" where
  "AgentType_String TELEGRAF = ''TELEGRAF''"
| "AgentType_String FILEBEAT = ''FILEBEAT''"
| "AgentType_String ORACLE = ''ORACLE''"
| "AgentType_String PACKAGES = ''PACKAGES''"
| "AgentType_String (OtherAgent n) = show_int n"

datatype OpType = CREATE | MODIFY | REMOVE | OtherOp int

record ConfigurationOp =
  op_id :: string
  op_type :: OpType
  op_content :: string
  op_extraLabels :: "(string \<times> string) list"
  op_interval :: int64

record EnvoyInstructionInstall =
  inst_agentType :: AgentType
  inst_version :: string
  inst_url :: string
  inst_exe :: string

record EnvoyInstructionConfigure =
  conf_agentType :: AgentType
  conf_operations :: "ConfigurationOp list"

record EnvoyInstructionTestMonitor =
  tm_agentType :: AgentType
  tm_correlationId :: string
  tm_content :: string
  tm_timeout :: int64

text \<open>A \<^verbatim>\<open>float64\<close> is named by the decimal text or the integer it was converted from.\<close>

datatype float64 = FloatText string | FloatInt int

record NameTagValueMetric =
  mt_name :: string
  mt_timestamp :: int64
  mt_tags :: "string \<rightharpoonup> string"
  mt_fvalues :: "string \<rightharpoonup> float64"
  mt_svalues :: "string \<rightharpoonup> string"

record TestMonitorResults =
  res_correlationId :: string
  res_errors :: "string list"
  res_metrics :: "NameTagValueMetric list"

record LogEvent =
  log_agentType :: AgentType
  log_jsonContent :: string

text \<open>The alternatives of an instruction; \<open>NoDetails\<close> is one that sets none the program knows.\<close>

datatype EnvoyInstruction =
    Ready
  | Install EnvoyInstructionInstall
  | Configure EnvoyInstructionConfigure
  | TestMonitor EnvoyInstructionTestMonitor
  | Refresh
  | NoDetails

lemma show_nat_digit_set: "c \<in> set (show_nat n) \<Longrightarrow> is_digit c"
  using show_nat_digits [of n] by (simp add: list_all_iff)

lemma show_int_plain: "plain_digits = show_int n \<Longrightarrow> CHR ''/'' \<notin> set plain_digits"
  by (auto simp: show_int_def is_digit_def dest: show_nat_digit_set split: if_splits)

lemma AgentType_String_registered_inj:
  "a \<in> {TELEGRAF, FILEBEAT, ORACLE, PACKAGES} \<Longrightarrow> b \<in> {TELEGRAF, FILEBEAT, ORACLE, PACKAGES} \<Longrightarrow>
   AgentType_String a = AgentType_String b \<longleftrightarrow> a = b"
  by auto

end
