(* ===== verification/Command_Handler.thy ===== *)
theory Command_Handler
  imports Command_Output Go_Files Telemetry
begin

text \<open>
  The lifecycle of agent processes (\<^verbatim>\<open>agents/command_handler.go\<close>): the running contexts, the
  operating system's processes behind them, the goroutines that wait for a process to end and
  the restarts they schedule. Every call runs to completion here; the races between the lock of
  \<^verbatim>\<open>Stop\<close> and the waiting goroutine are the subject of the theory \<open>Stop_Protocol\<close>.
\<close>

section \<open>State\<close>

datatype wait_status = StatusExited int | StatusSignaled nat

datatype signal = SIGHUP | SIGTERM | SIGKILL

text \<open>\<^verbatim>\<open>exec.Cmd\<close>: \<open>cmd_env\<close> is what is added to the inherited environment, \<open>cmd_process\<close>
  whether \<^verbatim>\<open>Process\<close> is set, \<open>cmd_state\<close> the \<^verbatim>\<open>ProcessState\<close>.\<close>

record Cmd =
  cmd_path :: string
  cmd_args :: "string list"
  cmd_dir :: path
  cmd_env :: "string list"
  cmd_process :: bool
  cmd_state :: "wait_status option"

datatype chan_state = NoChan | OpenChan | ClosedChan

record AgentRunningContext =
  arc_agentType :: AgentType
  arc_done :: bool
  arc_cmd :: "Cmd option"
  arc_stopping :: bool
  arc_stopped :: chan_state

text \<open>The operating system's view of a process: alive with the signals sent to it, or gone.\<close>

datatype proc = Alive "signal list" | Gone wait_status

text \<open>
  Contexts are shared by pointer between a runner and its goroutines: they live in a store,
  indexed by number; a process has the number of the context it was started for. \<open>waiters\<close>
  are the contexts with a pending \<^verbatim>\<open>WaitOnAgentCommand\<close>, \<open>restarts\<close> the agents whose
  restart timer is running, \<open>panicked\<close> whether a goroutine has closed a channel that was not
  open.
\<close>

record handler_state =
  ctxs :: "nat \<Rightarrow> AgentRunningContext option"
  nextCtx :: nat
  procs :: "nat \<Rightarrow> proc option"
  waiters :: "nat list"
  restarts :: "AgentType list"
  panicked :: bool

definition initial_handler :: handler_state where
  "initial_handler =
     \<lparr>ctxs = Map.empty, nextCtx = 0, procs = Map.empty, waiters = [], restarts = [], panicked = False\<rparr>"

text \<open>
  What the environment does during one call, for each context: whether the pipes and the
  executable are in order, the order of events at the pipes, and whether the process ends within
  the termination timeout, with which status.
\<close>

record start_env =
  pipesOk :: bool
  execOk :: bool
  outputEvents :: "output_event list"

record stop_env =
  endsInTime :: bool
  endStatus :: wait_status

record handler_env =
  start_of :: "nat \<Rightarrow> start_env"
  stop_of :: "nat \<Rightarrow> stop_env"

section \<open>Operations\<close>

definition upd_ctx :: "nat \<Rightarrow> (AgentRunningContext \<Rightarrow> AgentRunningContext) \<Rightarrow> handler_state \<Rightarrow> handler_state" where
  "upd_ctx c f h = h\<lparr>ctxs := (ctxs h)(c := map_option f (ctxs h c))\<rparr>"

definition ctx_IsRunning :: "AgentRunningContext \<Rightarrow> bool" where
  "ctx_IsRunning a =
     (case arc_cmd a of
        None \<Rightarrow> False
      | Some cmd \<Rightarrow> (case cmd_state cmd of Some (StatusExited _) \<Rightarrow> False | _ \<Rightarrow> True))"

text \<open>\<^verbatim>\<open>IsRunning\<close> is called on a pointer that may be nil.\<close>

definition IsRunning :: "handler_state \<Rightarrow> nat option \<Rightarrow> bool" where
  "IsRunning h r =
     (case r of None \<Rightarrow> False
      | Some c \<Rightarrow> (case ctxs h c of None \<Rightarrow> False | Some a \<Rightarrow> ctx_IsRunning a))"

definition CreateContext ::
  "AgentType \<Rightarrow> string \<Rightarrow> path \<Rightarrow> string list \<Rightarrow> handler_state \<Rightarrow> nat \<times> handler_state" where
  "CreateContext agentType cmdName workingDir args h =
     (let c = nextCtx h;
          cmd = \<lparr>cmd_path = cmdName, cmd_args = args, cmd_dir = workingDir, cmd_env = [],
                 cmd_process = False, cmd_state = None\<rparr>;
          a = \<lparr>arc_agentType = agentType, arc_done = False, arc_cmd = Some cmd,
               arc_stopping = False, arc_stopped = NoChan\<rparr>
      in (c, h\<lparr>ctxs := (ctxs h)(c \<mapsto> a), nextCtx := Suc c\<rparr>))"

definition AppendEnv :: "string list \<Rightarrow> nat \<Rightarrow> handler_state \<Rightarrow> handler_state" where
  "AppendEnv envStrings c h =
     upd_ctx c (\<lambda>a. a\<lparr>arc_cmd := map_option (\<lambda>cmd. cmd\<lparr>cmd_env := envStrings\<rparr>) (arc_cmd a)\<rparr>) h"

text \<open>The select ends at the latest when the timer fires.\<close>

definition start_outcome :: "string \<Rightarrow> output_event list \<Rightarrow> start_wait" where
  "start_outcome waitFor es =
     (case output_run waitFor (setupCommandLogging waitFor) es of
        Some s \<Rightarrow> (case starter s of SawContent \<Rightarrow> SawContent | ExitedEarly \<Rightarrow> ExitedEarly | _ \<Rightarrow> TimedOut)
      | None \<Rightarrow> TimedOut)"

definition StartAgentCommand ::
  "handler_env \<Rightarrow> nat \<Rightarrow> string \<Rightarrow> handler_state \<Rightarrow> go_error option \<times> handler_state" where
  "StartAgentCommand env c waitFor h =
     (let e = start_of env c in
      if \<not> pipesOk e then (Some (Wrapped ''failed to setup command logging'' io_error), h)
      else
        (let h = upd_ctx c (\<lambda>a. a\<lparr>arc_stopping := False, arc_stopped := OpenChan\<rparr>) h in
         if \<not> execOk e then (Some (Wrapped ''failed to start command'' io_error), h)
         else
           (let h = upd_ctx c (\<lambda>a. a\<lparr>arc_cmd := map_option (\<lambda>cmd. cmd\<lparr>cmd_process := True\<rparr>) (arc_cmd a)\<rparr>) h;
                h = h\<lparr>procs := (procs h)(c \<mapsto> Alive [])\<rparr>
            in case start_outcome waitFor (outputEvents e) of
                 SawContent \<Rightarrow> (None, h)
               | ExitedEarly \<Rightarrow> (Some (ErrorString ''command exited before seeing expected content''), h)
               | _ \<Rightarrow> (Some (ErrorString ''failed to see expected content''), h))))"

text \<open>\<^verbatim>\<open>go WaitOnAgentCommand(...)\<close>: the goroutine is there, blocked in \<^verbatim>\<open>Wait\<close>.\<close>

definition go_WaitOnAgentCommand :: "nat \<Rightarrow> handler_state \<Rightarrow> handler_state" where
  "go_WaitOnAgentCommand c h = h\<lparr>waiters := waiters h @ [c]\<rparr>"

text \<open>The rest of \<^verbatim>\<open>WaitOnAgentCommand\<close>, once \<^verbatim>\<open>Wait\<close> has returned.\<close>

definition WaitOnAgentCommand :: "nat \<Rightarrow> handler_state \<Rightarrow> handler_state" where
  "WaitOnAgentCommand c h =
     (case ctxs h c of
        None \<Rightarrow> h
      | Some a \<Rightarrow>
          (let h = h\<lparr>panicked := (panicked h \<or> arc_stopped a \<noteq> OpenChan)\<rparr>;
               h = upd_ctx c (\<lambda>a. a\<lparr>arc_cmd := None, arc_stopped := ClosedChan, arc_done := True\<rparr>) h;
               h = h\<lparr>waiters := removeAll c (waiters h)\<rparr>
           in if \<not> arc_stopping a then h\<lparr>restarts := restarts h @ [arc_agentType a]\<rparr> else h))"

definition deliver :: "signal \<Rightarrow> nat \<Rightarrow> handler_state \<Rightarrow> handler_state" where
  "deliver sg c h =
     (case procs h c of
        Some (Alive sgs) \<Rightarrow> h\<lparr>procs := (procs h)(c \<mapsto> Alive (sgs @ [sg]))\<rparr>
      | _ \<Rightarrow> h)"

text \<open>\<^verbatim>\<open>Signal\<close>: nothing, and no error, when the agent is not running.\<close>

definition Signal :: "nat option \<Rightarrow> signal \<Rightarrow> handler_state \<Rightarrow> handler_state" where
  "Signal r sg h = (if IsRunning h r then deliver sg (the r) h else h)"

text \<open>
  \<^verbatim>\<open>Stop\<close>. The wait for \<^verbatim>\<open>stopped\<close> ends in time only if the process ends and its waiting
  goroutine, which closes the channel, is there; the end of that goroutine is then part of the
  call.
\<close>

definition Stop :: "handler_env \<Rightarrow> nat option \<Rightarrow> handler_state \<Rightarrow> handler_state" where
  "Stop env r h =
     (case r of
        None \<Rightarrow> h
      | Some c \<Rightarrow>
          (case ctxs h c of
             None \<Rightarrow> h
           | Some a \<Rightarrow>
               if \<not> arc_stopping a \<and> ctx_IsRunning a then
                 (let h = upd_ctx c (\<lambda>a. a\<lparr>arc_stopping := True\<rparr>) h;
                      h = deliver SIGTERM c h;
                      h = (if endsInTime (stop_of env c) \<and> c \<in> set (waiters h) then
                             WaitOnAgentCommand c
                               (h\<lparr>procs := (procs h)(c \<mapsto> (case procs h c of Some (Gone st) \<Rightarrow> Gone st
                                                          | _ \<Rightarrow> Gone (endStatus (stop_of env c))))\<rparr>)
                           else deliver SIGKILL c h)
                  in upd_ctx c (\<lambda>a. a\<lparr>arc_done := True\<rparr>) h)
               else h))"

text \<open>Between calls: a process ends, and \<^verbatim>\<open>Wait\<close> returns for a process that has ended.\<close>

definition process_ends :: "nat \<Rightarrow> wait_status \<Rightarrow> handler_state \<Rightarrow> handler_state option" where
  "process_ends c st h =
     (case procs h c of
        Some (Alive _) \<Rightarrow> Some (h\<lparr>procs := (procs h)(c \<mapsto> Gone st)\<rparr>)
      | _ \<Rightarrow> None)"

definition wait_returns :: "nat \<Rightarrow> handler_state \<Rightarrow> handler_state option" where
  "wait_returns c h =
     (if c \<in> set (waiters h) then
        (case procs h c of Some (Gone _) \<Rightarrow> Some (WaitOnAgentCommand c h) | _ \<Rightarrow> None)
      else None)"

section \<open>The invariant\<close>

definition agent_of :: "handler_state \<Rightarrow> nat \<Rightarrow> AgentType option" where
  "agent_of h c = map_option arc_agentType (ctxs h c)"

text \<open>A context the handler keeps alive: somebody waits for its process and will have the agent
  restarted when it ends.\<close>

definition active :: "handler_state \<Rightarrow> nat \<Rightarrow> bool" where
  "active h c \<longleftrightarrow> c \<in> set (waiters h) \<and> (\<exists>a. ctxs h c = Some a \<and> \<not> arc_stopping a)"

definition waiter_ok :: "handler_state \<Rightarrow> nat \<Rightarrow> bool" where
  "waiter_ok h c \<longleftrightarrow>
     (\<exists>a cmd. ctxs h c = Some a \<and> arc_cmd a = Some cmd \<and> cmd_state cmd = None \<and>
        arc_stopped a = OpenChan \<and> procs h c \<noteq> None)"

definition handler_inv :: "handler_state \<Rightarrow> bool" where
  "handler_inv h \<longleftrightarrow>
     (\<forall>c. nextCtx h \<le> c \<longrightarrow> ctxs h c = None) \<and>
     (\<forall>c. ctxs h c = None \<longrightarrow> procs h c = None) \<and>
     distinct (waiters h) \<and> (\<forall>c \<in> set (waiters h). waiter_ok h c) \<and> \<not> panicked h"

text \<open>A context that has been created but whose command has not been started.\<close>

definition fresh_ctx :: "handler_state \<Rightarrow> nat \<Rightarrow> bool" where
  "fresh_ctx h c \<longleftrightarrow>
     c \<notin> set (waiters h) \<and>
     (\<exists>a cmd. ctxs h c = Some a \<and> arc_cmd a = Some cmd \<and> cmd_state cmd = None \<and> \<not> arc_stopping a)"

lemma upd_ctx_simps [simp]:
  "ctxs (upd_ctx c f h) d = (if d = c then map_option f (ctxs h c) else ctxs h d)"
  "nextCtx (upd_ctx c f h) = nextCtx h" "procs (upd_ctx c f h) = procs h"
  "waiters (upd_ctx c f h) = waiters h" "restarts (upd_ctx c f h) = restarts h"
  "panicked (upd_ctx c f h) = panicked h"
  by (simp_all add: upd_ctx_def)

lemma deliver_simps [simp]:
  "ctxs (deliver sg c h) = ctxs h" "nextCtx (deliver sg c h) = nextCtx h"
  "waiters (deliver sg c h) = waiters h" "restarts (deliver sg c h) = restarts h"
  "panicked (deliver sg c h) = panicked h"
  "procs (deliver sg c h) d = None \<longleftrightarrow> procs h d = None"
  by (auto simp: deliver_def split: option.splits proc.splits)

lemma handler_inv_initial: "handler_inv initial_handler"
  by (simp add: handler_inv_def initial_handler_def)

lemma active_IsRunning: "handler_inv h \<Longrightarrow> active h c \<Longrightarrow> IsRunning h (Some c)"
  by (auto simp: handler_inv_def active_def waiter_ok_def IsRunning_def ctx_IsRunning_def)

subsection \<open>Creating and starting\<close>

lemma CreateContext_spec:
  assumes "handler_inv h" and "CreateContext a n d as h = (c, h')"
  shows "handler_inv h'" "fresh_ctx h' c" "ctxs h c = None"
    "agent_of h' = (agent_of h)(c \<mapsto> a)" "active h' = active h"
    "waiters h' = waiters h" "restarts h' = restarts h" "procs h' = procs h"
proof -
  have c: "c = nextCtx h" and none: "ctxs h c = None" and pr: "procs h c = None"
    and h': "nextCtx h' = Suc c" "waiters h' = waiters h" "restarts h' = restarts h"
      "procs h' = procs h" "panicked h' = panicked h"
    using assms by (auto simp: CreateContext_def Let_def handler_inv_def)
  obtain x where x: "ctxs h' = (ctxs h)(c \<mapsto> x)" "arc_agentType x = a" "\<not> arc_stopping x"
      "\<exists>cmd. arc_cmd x = Some cmd \<and> cmd_state cmd = None"
    using assms(2) by (auto simp: CreateContext_def Let_def)
  have notin: "c \<notin> set (waiters h)"
    using assms(1) none by (auto simp: handler_inv_def waiter_ok_def)
  have "waiter_ok h' d" if "d \<in> set (waiters h')" for d
    using that notin assms(1) h' x by (auto simp: handler_inv_def waiter_ok_def)
  then show "handler_inv h'"
    using assms(1) h' x c by (auto simp: handler_inv_def)
  show "fresh_ctx h' c" using x notin h' by (auto simp: fresh_ctx_def)
  show "ctxs h c = None" by (rule none)
  show "agent_of h' = (agent_of h)(c \<mapsto> a)" using x by (auto simp: agent_of_def fun_eq_iff)
  show "active h' = active h" using x notin h' by (auto simp: active_def fun_eq_iff)
  show "waiters h' = waiters h" "restarts h' = restarts h" "procs h' = procs h" using h' by auto
qed

lemma AppendEnv_spec:
  assumes "handler_inv h"
  shows "handler_inv (AppendEnv es c h)" "agent_of (AppendEnv es c h) = agent_of h"
    "active (AppendEnv es c h) = active h" "waiters (AppendEnv es c h) = waiters h"
    "restarts (AppendEnv es c h) = restarts h" "procs (AppendEnv es c h) = procs h"
    "fresh_ctx h c \<Longrightarrow> fresh_ctx (AppendEnv es c h) c"
  using assms
  by (auto simp: AppendEnv_def handler_inv_def waiter_ok_def agent_of_def active_def fresh_ctx_def
      fun_eq_iff option.map_comp comp_def)

text \<open>Starting, whatever comes of it, changes nothing about the other contexts, and a start that
  succeeds leaves the context ready to be waited for.\<close>

definition started_ctx :: "handler_state \<Rightarrow> nat \<Rightarrow> bool" where
  "started_ctx h c \<longleftrightarrow> c \<notin> set (waiters h) \<and> waiter_ok h c \<and>
     (\<exists>a. ctxs h c = Some a \<and> \<not> arc_stopping a)"

lemma StartAgentCommand_spec:
  assumes "handler_inv h" and "fresh_ctx h c" and "StartAgentCommand env c w h = (r, h')"
  shows "handler_inv h'" "agent_of h' = agent_of h" "active h' = active h" "waiters h' = waiters h"
    "restarts h' = restarts h" "r = None \<Longrightarrow> started_ctx h' c"
    "\<And>d. d \<noteq> c \<Longrightarrow> procs h' d = procs h d"
  using assms
  by (auto simp: StartAgentCommand_def Let_def handler_inv_def fresh_ctx_def waiter_ok_def agent_of_def
      active_def started_ctx_def fun_eq_iff split: if_splits start_wait.splits)

lemma go_WaitOnAgentCommand_spec:
  assumes "handler_inv h" and "started_ctx h c"
  shows "handler_inv (go_WaitOnAgentCommand c h)" "agent_of (go_WaitOnAgentCommand c h) = agent_of h"
    "active (go_WaitOnAgentCommand c h) d \<longleftrightarrow> active h d \<or> d = c"
    "restarts (go_WaitOnAgentCommand c h) = restarts h"
    "procs (go_WaitOnAgentCommand c h) = procs h"
  using assms
  by (auto simp: go_WaitOnAgentCommand_def handler_inv_def started_ctx_def waiter_ok_def agent_of_def active_def)

subsection \<open>Ending\<close>

lemma WaitOnAgentCommand_spec:
  assumes "handler_inv h" and "c \<in> set (waiters h)"
  shows "handler_inv (WaitOnAgentCommand c h)" "agent_of (WaitOnAgentCommand c h) = agent_of h"
    "active (WaitOnAgentCommand c h) d \<longleftrightarrow> active h d \<and> d \<noteq> c"
    "set (waiters (WaitOnAgentCommand c h)) = set (waiters h) - {c}"
    "procs (WaitOnAgentCommand c h) = procs h"
proof -
  obtain a where a: "ctxs h c = Some a" "arc_stopped a = OpenChan"
    using assms by (auto simp: handler_inv_def waiter_ok_def)
  show "handler_inv (WaitOnAgentCommand c h)"
    using assms a by (auto simp: WaitOnAgentCommand_def Let_def handler_inv_def waiter_ok_def distinct_removeAll)
  show "agent_of (WaitOnAgentCommand c h) = agent_of h"
    using a by (auto simp: WaitOnAgentCommand_def Let_def agent_of_def fun_eq_iff)
  show "active (WaitOnAgentCommand c h) d \<longleftrightarrow> active h d \<and> d \<noteq> c"
    using a by (auto simp: WaitOnAgentCommand_def Let_def active_def)
  show "set (waiters (WaitOnAgentCommand c h)) = set (waiters h) - {c}"
    using a by (auto simp: WaitOnAgentCommand_def Let_def)
  show "procs (WaitOnAgentCommand c h) = procs h"
    using a by (auto simp: WaitOnAgentCommand_def Let_def)
qed

lemma waiter_ok_deliver [simp]: "waiter_ok (deliver sg c h) d \<longleftrightarrow> waiter_ok h d"
  unfolding waiter_ok_def by (simp only: deliver_simps)

lemma handler_inv_deliver [simp]: "handler_inv (deliver sg c h) \<longleftrightarrow> handler_inv h"
  by (simp add: handler_inv_def)

lemma views_deliver [simp]:
  "agent_of (deliver sg c h) = agent_of h" "active (deliver sg c h) = active h"
  by (simp_all add: agent_of_def active_def fun_eq_iff)

lemma Signal_spec:
  "handler_inv h \<Longrightarrow> handler_inv (Signal r sg h)" "agent_of (Signal r sg h) = agent_of h"
  "active (Signal r sg h) = active h" "restarts (Signal r sg h) = restarts h"
  "waiters (Signal r sg h) = waiters h"
  by (auto simp: Signal_def)

text \<open>Marking a context as stopping or done.\<close>

lemma mark_stopping:
  assumes "handler_inv h"
  shows "handler_inv (upd_ctx c (\<lambda>a. a\<lparr>arc_stopping := True\<rparr>) h)"
    "agent_of (upd_ctx c (\<lambda>a. a\<lparr>arc_stopping := True\<rparr>) h) = agent_of h"
    "active (upd_ctx c (\<lambda>a. a\<lparr>arc_stopping := True\<rparr>) h) d \<longleftrightarrow> active h d \<and> d \<noteq> c"
  using assms
  by (auto simp: handler_inv_def waiter_ok_def agent_of_def active_def fun_eq_iff option.map_comp comp_def)

lemma mark_done:
  assumes "handler_inv h"
  shows "handler_inv (upd_ctx c (\<lambda>a. a\<lparr>arc_done := True\<rparr>) h)"
    "agent_of (upd_ctx c (\<lambda>a. a\<lparr>arc_done := True\<rparr>) h) = agent_of h"
    "active (upd_ctx c (\<lambda>a. a\<lparr>arc_done := True\<rparr>) h) = active h"
  using assms
  by (auto simp: handler_inv_def waiter_ok_def agent_of_def active_def fun_eq_iff option.map_comp comp_def)

lemma set_procs:
  assumes "handler_inv h" and "c \<in> set (waiters h)"
  shows "handler_inv (h\<lparr>procs := (procs h)(c \<mapsto> x)\<rparr>)"
    "agent_of (h\<lparr>procs := (procs h)(c \<mapsto> x)\<rparr>) = agent_of h"
    "active (h\<lparr>procs := (procs h)(c \<mapsto> x)\<rparr>) = active h"
  using assms
  by (auto simp: handler_inv_def waiter_ok_def agent_of_def active_def fun_eq_iff)

lemma Stop_spec:
  assumes "handler_inv h"
  shows "handler_inv (Stop env r h)" "agent_of (Stop env r h) = agent_of h"
    "active (Stop env r h) d \<longleftrightarrow> active h d \<and> r \<noteq> Some d"
    "restarts (Stop env r h) = restarts h"
proof -
  have all: "handler_inv (Stop env r h) \<and> agent_of (Stop env r h) = agent_of h \<and>
      (active (Stop env r h) d \<longleftrightarrow> active h d \<and> r \<noteq> Some d) \<and> restarts (Stop env r h) = restarts h"
  proof (cases "\<exists>c a. r = Some c \<and> ctxs h c = Some a \<and> \<not> arc_stopping a \<and> ctx_IsRunning a")
    case False
    have "\<not> active h d" if "r = Some d"
    proof
      assume "active h d"
      with assms have "IsRunning h (Some d)" by (rule active_IsRunning)
      with False that \<open>active h d\<close> show False
        by (auto simp: IsRunning_def active_def split: option.splits)
    qed
    moreover have "Stop env r h = h"
      using False by (auto simp: Stop_def split: option.splits)
    ultimately show ?thesis using assms by auto
  next
    case True
    then obtain c a where r: "r = Some c" and a: "ctxs h c = Some a" "\<not> arc_stopping a" "ctx_IsRunning a"
      by blast
    define h1 where "h1 = upd_ctx c (\<lambda>a. a\<lparr>arc_stopping := True\<rparr>) h"
    define h2 where "h2 = deliver SIGTERM c h1"
    define in_time where "in_time \<longleftrightarrow> endsInTime (stop_of env c) \<and> c \<in> set (waiters h2)"
    define p where "p = (case procs h2 c of Some (Gone st) \<Rightarrow> Gone st | _ \<Rightarrow> Gone (endStatus (stop_of env c)))"
    define h3 where "h3 = h2\<lparr>procs := (procs h2)(c \<mapsto> p)\<rparr>"
    define h4 where "h4 = (if in_time then WaitOnAgentCommand c h3 else deliver SIGKILL c h2)"
    have stop: "Stop env r h = upd_ctx c (\<lambda>a. a\<lparr>arc_done := True\<rparr>) h4"
      using a by (simp add: Stop_def r h1_def h2_def h3_def h4_def in_time_def p_def Let_def)
    have h2: "handler_inv h2" "agent_of h2 = agent_of h" "active h2 d \<longleftrightarrow> active h d \<and> d \<noteq> c"
      "restarts h2 = restarts h" "\<exists>a. ctxs h2 c = Some a \<and> arc_stopping a"
      using mark_stopping [OF assms] a by (auto simp: h1_def h2_def)
    have "handler_inv h4 \<and> agent_of h4 = agent_of h \<and> (active h4 d \<longleftrightarrow> active h d \<and> d \<noteq> c) \<and>
        restarts h4 = restarts h"
    proof (cases in_time)
      case True
      then have w: "c \<in> set (waiters h2)" by (simp add: in_time_def)
      have h3: "handler_inv h3" "agent_of h3 = agent_of h2" "active h3 = active h2" "c \<in> set (waiters h3)"
        "restarts h3 = restarts h2" "ctxs h3 = ctxs h2"
        using set_procs [OF h2(1) w] w by (auto simp: h3_def)
      have "restarts (WaitOnAgentCommand c h3) = restarts h3"
        using h2(5) h3(6) by (auto simp: WaitOnAgentCommand_def Let_def)
      with True h2 h3 WaitOnAgentCommand_spec [OF h3(1,4)] show ?thesis by (simp add: h4_def)
    next
      case False
      with h2 show ?thesis by (simp add: h4_def)
    qed
    then show ?thesis unfolding stop using mark_done [of h4 c] by (auto simp: r)
  qed
  then show "handler_inv (Stop env r h)" "agent_of (Stop env r h) = agent_of h"
    "active (Stop env r h) d \<longleftrightarrow> active h d \<and> r \<noteq> Some d" "restarts (Stop env r h) = restarts h"
    by blast+
qed

subsection \<open>The environment\<close>

lemma process_ends_spec:
  assumes "handler_inv h" and "process_ends c st h = Some h'"
  shows "handler_inv h'" "agent_of h' = agent_of h" "active h' = active h" "restarts h' = restarts h"
  using assms
  by (auto simp: process_ends_def handler_inv_def waiter_ok_def agent_of_def active_def fun_eq_iff
      split: option.splits proc.splits) blast

lemma wait_returns_spec:
  assumes "handler_inv h" and "wait_returns c h = Some h'"
  shows "handler_inv h'" "agent_of h' = agent_of h" "active h' d \<longleftrightarrow> active h d \<and> d \<noteq> c"
  using assms WaitOnAgentCommand_spec [of h c]
  by (auto simp: wait_returns_def split: if_splits option.splits proc.splits)

section \<open>Stopping and restarting\<close>

text \<open>
  C10 \<^verbatim>\<open>Stop\<close> of a running agent: its process is sent a \<^verbatim>\<open>SIGTERM\<close>, and when it has not
  ended in time a \<^verbatim>\<open>SIGKILL\<close>; it is no longer kept alive, no restart is scheduled, neither by
  the call nor by the goroutine that waits for the process when that ends later; other processes
  are not signalled.
\<close>

theorem Stop_effect:
  assumes "handler_inv h" and "active h c" and "procs h c = Some (Alive sgs)"
  shows "\<not> active (Stop env (Some c) h) c \<and> restarts (Stop env (Some c) h) = restarts h \<and>
    (if endsInTime (stop_of env c)
     then procs (Stop env (Some c) h) c = Some (Gone (endStatus (stop_of env c))) \<and>
          c \<notin> set (waiters (Stop env (Some c) h))
     else procs (Stop env (Some c) h) c = Some (Alive (sgs @ [SIGTERM, SIGKILL])) \<and>
          c \<in> set (waiters (Stop env (Some c) h))) \<and>
    (\<forall>st h2 h3. process_ends c st (Stop env (Some c) h) = Some h2 \<longrightarrow> wait_returns c h2 = Some h3 \<longrightarrow>
        restarts h3 = restarts h) \<and>
    (\<forall>d. d \<noteq> c \<longrightarrow> procs (Stop env (Some c) h) d = procs h d)"
proof -
  obtain a where a: "ctxs h c = Some a" "\<not> arc_stopping a" and w: "c \<in> set (waiters h)"
    using assms(2) by (auto simp: active_def)
  have r: "ctx_IsRunning a"
    using active_IsRunning [OF assms(1,2)] a by (simp add: IsRunning_def)
  have "restarts (Stop env (Some c) h) = restarts h" "\<not> active (Stop env (Some c) h) c"
    using Stop_spec [OF assms(1), where env = env and r = "Some c"] by auto
  moreover have "if endsInTime (stop_of env c)
     then procs (Stop env (Some c) h) c = Some (Gone (endStatus (stop_of env c))) \<and>
          c \<notin> set (waiters (Stop env (Some c) h))
     else procs (Stop env (Some c) h) c = Some (Alive (sgs @ [SIGTERM, SIGKILL])) \<and>
          c \<in> set (waiters (Stop env (Some c) h))"
    using a r w assms(3)
    by (auto simp: Stop_def Let_def deliver_def WaitOnAgentCommand_def upd_ctx_def)
  moreover have "procs (Stop env (Some c) h) d = procs h d" if "d \<noteq> c" for d
    using a r that
    by (auto simp: Stop_def Let_def deliver_def WaitOnAgentCommand_def upd_ctx_def
        split: option.splits proc.splits)
  moreover have "\<exists>x. ctxs (Stop env (Some c) h) c = Some x \<and> arc_stopping x"
    using a r
    by (auto simp: Stop_def Let_def deliver_def WaitOnAgentCommand_def upd_ctx_def
        split: option.splits proc.splits)
  then have "restarts h3 = restarts (Stop env (Some c) h)"
    if "process_ends c st (Stop env (Some c) h) = Some h2" "wait_returns c h2 = Some h3" for st h2 h3
    using that
    by (auto simp: process_ends_def wait_returns_def WaitOnAgentCommand_def Let_def
        split: option.splits proc.splits if_splits)
  ultimately show ?thesis by simp
qed

text \<open>One agent, started and waited for.\<close>

definition one_running :: handler_state where
  "one_running =
     go_WaitOnAgentCommand 0
       (snd (StartAgentCommand
          \<lparr>start_of = (\<lambda>_. \<lparr>pipesOk = True, execOk = True, outputEvents = [Receive]\<rparr>),
           stop_of = (\<lambda>_. \<lparr>endsInTime = True, endStatus = StatusSignaled 15\<rparr>)\<rparr> 0 []
          (snd (CreateContext FILEBEAT ''filebeat'' [] [] initial_handler))))"

lemma one_running_simps:
  "waiters one_running = [0]" "procs one_running 0 = Some (Alive [])" "restarts one_running = []"
  "\<exists>a. ctxs one_running 0 = Some a \<and> \<not> arc_stopping a \<and> arc_agentType a = FILEBEAT \<and>
     arc_stopped a = OpenChan"
  by (auto simp: one_running_def go_WaitOnAgentCommand_def StartAgentCommand_def CreateContext_def
      initial_handler_def Let_def start_outcome_def setupCommandLogging_def)

lemma one_running_inv: "handler_inv one_running" "active one_running 0"
proof -
  obtain c h1 where c: "CreateContext FILEBEAT ''filebeat'' [] [] initial_handler = (c, h1)" by fastforce
  have c0: "c = 0" using c by (simp add: CreateContext_def initial_handler_def Let_def)
  let ?env = "\<lparr>start_of = (\<lambda>_. \<lparr>pipesOk = True, execOk = True, outputEvents = [Receive]\<rparr>),
           stop_of = (\<lambda>_. \<lparr>endsInTime = True, endStatus = StatusSignaled 15\<rparr>)\<rparr>"
  obtain r h2 where s: "StartAgentCommand ?env 0 [] h1 = (r, h2)" by fastforce
  have r: "r = None"
    using s by (auto simp: StartAgentCommand_def Let_def start_outcome_def setupCommandLogging_def)
  note cs = CreateContext_spec [OF handler_inv_initial c]
  note ss = StartAgentCommand_spec [OF cs(1) cs(2) s [folded c0]]
  have one: "one_running = go_WaitOnAgentCommand 0 h2" using c s by (simp add: one_running_def)
  show "handler_inv one_running" "active one_running 0"
    using go_WaitOnAgentCommand_spec [OF ss(1) ss(6)] r c0 one by auto
qed

lemma Stop_effect_witness:
  "procs (Stop \<lparr>start_of = (\<lambda>_. \<lparr>pipesOk = True, execOk = True, outputEvents = []\<rparr>), stop_of = (\<lambda>_. \<lparr>endsInTime = False, endStatus = StatusExited 0\<rparr>)\<rparr>
      (Some 0) one_running) 0 = Some (Alive [SIGTERM, SIGKILL])"
  using Stop_effect [OF one_running_inv one_running_simps(2),
      of "\<lparr>start_of = (\<lambda>_. \<lparr>pipesOk = True, execOk = True, outputEvents = []\<rparr>), stop_of = (\<lambda>_. \<lparr>endsInTime = False, endStatus = StatusExited 0\<rparr>)\<rparr>"]
  by simp



section \<open>The interface of the runners\<close>

text \<open>
  What an agent runner relies on: how each call of the command handler changes which contexts
  are active and whose they are. A client keeps, per agent, the context it started last;
  \<open>slots_ok\<close> says that no other context of the agent is active.
\<close>

definition slots_ok ::
  "('h \<Rightarrow> 'c \<Rightarrow> bool) \<Rightarrow> ('h \<Rightarrow> 'c \<Rightarrow> 'a option) \<Rightarrow> ('a \<Rightarrow> 'c option) \<Rightarrow> 'h \<Rightarrow> bool" where
  "slots_ok act ag running h \<longleftrightarrow> (\<forall>c a. act h c \<longrightarrow> ag h c = Some a \<longrightarrow> running a = Some c)"

locale command_handler =
  fixes inv :: "'h \<Rightarrow> bool"
    and act :: "'h \<Rightarrow> 'c \<Rightarrow> bool"
    and ag :: "'h \<Rightarrow> 'c \<Rightarrow> 'a option"
    and fresh :: "'h \<Rightarrow> 'c \<Rightarrow> bool"
    and started :: "'h \<Rightarrow> 'c \<Rightarrow> bool"
    and is_running :: "'h \<Rightarrow> 'c option \<Rightarrow> bool"
    and create :: "'a \<Rightarrow> 'p \<Rightarrow> 'h \<Rightarrow> 'c \<times> 'h"
    and start :: "'e \<Rightarrow> 'c \<Rightarrow> string \<Rightarrow> 'h \<Rightarrow> go_error option \<times> 'h"
    and watch :: "'c \<Rightarrow> 'h \<Rightarrow> 'h"
    and stop :: "'e \<Rightarrow> 'c option \<Rightarrow> 'h \<Rightarrow> 'h"
  assumes create_law:
      "inv h \<Longrightarrow> create a p h = (c, h') \<Longrightarrow>
         inv h' \<and> fresh h' c \<and> ag h c = None \<and> ag h' = (ag h)(c \<mapsto> a) \<and> act h' = act h"
    and start_law:
      "inv h \<Longrightarrow> fresh h c \<Longrightarrow> start env c w h = (r, h') \<Longrightarrow>
         inv h' \<and> ag h' = ag h \<and> act h' = act h \<and> (r = None \<longrightarrow> started h' c)"
    and watch_law:
      "inv h \<Longrightarrow> started h c \<Longrightarrow>
         inv (watch c h) \<and> ag (watch c h) = ag h \<and> (\<forall>d. act (watch c h) d \<longleftrightarrow> act h d \<or> d = c)"
    and stop_law:
      "inv h \<Longrightarrow>
         inv (stop env run h) \<and> ag (stop env run h) = ag h \<and>
         (\<forall>d. act (stop env run h) d \<longleftrightarrow> act h d \<and> run \<noteq> Some d)"
    and running_law: "inv h \<Longrightarrow> act h c \<Longrightarrow> is_running h (Some c)"
    and active_known: "inv h \<Longrightarrow> act h c \<Longrightarrow> ag h c \<noteq> None"
begin

lemma slots_create:
  assumes "inv h" and "slots_ok act ag running h" and "create a p h = (c, h')"
  shows "slots_ok act ag running h'"
  using create_law [OF assms(1,3)] assms(2) active_known [OF assms(1), of c]
  by (auto simp: slots_ok_def split: if_splits)

lemma slots_start:
  assumes "inv h" and "slots_ok act ag running h" and "fresh h c" and "start env c w h = (r, h')"
  shows "slots_ok act ag running h'"
  using start_law [OF assms(1,3,4)] assms(2) by (auto simp: slots_ok_def)

lemma not_running_inactive:
  assumes "inv h" and "slots_ok act ag running h" and "running a = None \<or> \<not> is_running h (running a)"
    and "act h d"
  shows "ag h d \<noteq> Some a"
  using assms running_law [OF assms(1,4)] by (auto simp: slots_ok_def)

lemma slots_watch:
  assumes "inv h" and "slots_ok act ag running h" and "started h c" and "ag h c = Some a"
    and "\<And>d. act h d \<Longrightarrow> ag h d \<noteq> Some a"
  shows "slots_ok act ag (running(a \<mapsto> c)) (watch c h)"
  using watch_law [OF assms(1,3)] assms(2,4,5) by (auto simp: slots_ok_def)

lemma slots_stop:
  assumes "inv h" and "slots_ok act ag running h"
  shows "slots_ok act ag (running(a := None)) (stop env (running a) h)"
  using stop_law [OF assms(1)] assms(2) by (auto simp: slots_ok_def)

lemma slots_stop_keep:
  assumes "inv h" and "slots_ok act ag running h"
  shows "slots_ok act ag running (stop env (running a) h)"
  using stop_law [OF assms(1)] assms(2) by (auto simp: slots_ok_def)

lemma stopped_agent_inactive:
  assumes "inv h" and "slots_ok act ag running h"
  shows "\<not> (\<exists>c. act (stop env (running a) h) c \<and> ag (stop env (running a) h) c = Some a)"
  using stop_law [OF assms(1)] assms(2) by (auto simp: slots_ok_def)

lemma at_most_one:
  "slots_ok act ag running h \<Longrightarrow> act h c \<Longrightarrow> act h d \<Longrightarrow> ag h c = Some a \<Longrightarrow> ag h d = Some a \<Longrightarrow> c = d"
  unfolding slots_ok_def by (metis option.inject)

end

definition create_command ::
  "AgentType \<Rightarrow> string \<times> path \<times> string list \<Rightarrow> handler_state \<Rightarrow> nat \<times> handler_state" where
  "create_command a p h = (case p of (n, d, as) \<Rightarrow> CreateContext a n d as h)"

lemma active_agent_of: "active h c \<Longrightarrow> agent_of h c \<noteq> None"
  by (auto simp: active_def agent_of_def)

interpretation cmds: command_handler handler_inv active agent_of fresh_ctx started_ctx IsRunning
  create_command StartAgentCommand go_WaitOnAgentCommand Stop
proof unfold_locales
  fix h h' :: handler_state and a p c
  assume "handler_inv h" and "create_command a p h = (c, h')"
  then show "handler_inv h' \<and> fresh_ctx h' c \<and> agent_of h c = None \<and>
      agent_of h' = (agent_of h)(c \<mapsto> a) \<and> active h' = active h"
    using CreateContext_spec [of h a "fst p" "fst (snd p)" "snd (snd p)" c h']
    by (auto simp: create_command_def agent_of_def split: prod.splits)
next
  fix h h' :: handler_state and env c w r
  assume "handler_inv h" and "fresh_ctx h c" and "StartAgentCommand env c w h = (r, h')"
  then show "handler_inv h' \<and> agent_of h' = agent_of h \<and> active h' = active h \<and>
      (r = None \<longrightarrow> started_ctx h' c)"
    using StartAgentCommand_spec [of h c env w r h'] by simp
next
  fix h :: handler_state and c
  assume "handler_inv h" and "started_ctx h c"
  then show "handler_inv (go_WaitOnAgentCommand c h) \<and> agent_of (go_WaitOnAgentCommand c h) = agent_of h \<and>
      (\<forall>d. active (go_WaitOnAgentCommand c h) d \<longleftrightarrow> active h d \<or> d = c)"
    using go_WaitOnAgentCommand_spec [of h c] by simp
next
  fix h :: handler_state and env r
  assume "handler_inv h"
  then show "handler_inv (Stop env r h) \<and> agent_of (Stop env r h) = agent_of h \<and>
      (\<forall>d. active (Stop env r h) d \<longleftrightarrow> active h d \<and> r \<noteq> Some d)"
    using Stop_spec [of h env r] by simp
qed (use active_IsRunning active_agent_of in blast)+

end
