(* ===== verification/Stop_Protocol.thy ===== *)
theory Stop_Protocol
  imports Command_Handler
begin

text \<open>
  The concurrency of \<^verbatim>\<open>Stop\<close> (\<^verbatim>\<open>agents/command_handler.go\<close>): any number of goroutines in
  \<^verbatim>\<open>Stop\<close> for the same running context, and the goroutine in \<^verbatim>\<open>WaitOnAgentCommand\<close>, which
  changes the context without taking its lock. A step is one access to the context, one system
  call or one channel operation of one goroutine; their order is not determined. The accesses are
  taken as atomic and sequentially consistent.
\<close>

section \<open>State\<close>

text \<open>Where a goroutine in \<^verbatim>\<open>Stop\<close> stands; the constructor names what it does next.\<close>

datatype stop_pc =
    SLock          \<comment> \<open>\<^verbatim>\<open>runningContext.Lock()\<close>\<close>
  | STest          \<comment> \<open>\<^verbatim>\<open>!runningContext.stopping\<close>\<close>
  | SNil           \<comment> \<open>\<^verbatim>\<open>c.cmd != nil\<close>\<close>
  | SState         \<comment> \<open>\<^verbatim>\<open>c.cmd.ProcessState == nil\<close>\<close>
  | SExited        \<comment> \<open>\<^verbatim>\<open>!c.cmd.ProcessState.Exited()\<close>\<close>
  | SSet           \<comment> \<open>\<^verbatim>\<open>runningContext.stopping = true\<close>\<close>
  | SUnlock        \<comment> \<open>\<^verbatim>\<open>runningContext.Unlock()\<close>\<close>
  | STerm          \<comment> \<open>\<^verbatim>\<open>runningContext.cmd.Process.Signal(syscall.SIGTERM)\<close>\<close>
  | SSelect        \<comment> \<open>the select\<close>
  | SKill          \<comment> \<open>\<^verbatim>\<open>runningContext.cmd.Process.Signal(syscall.SIGKILL)\<close>\<close>
  | SCancel        \<comment> \<open>\<^verbatim>\<open>runningContext.cancel()\<close>\<close>
  | SStopped       \<comment> \<open>returned, having stopped the agent\<close>
  | SSkip          \<comment> \<open>\<^verbatim>\<open>runningContext.Unlock()\<close> in the else branch\<close>
  | SSkipped       \<comment> \<open>returned, without having anything to stop\<close>

datatype wait_pc =
    WWait          \<comment> \<open>\<^verbatim>\<open>cmd.Wait()\<close>\<close>
  | WNil           \<comment> \<open>\<^verbatim>\<open>runningContext.cmd = nil\<close>\<close>
  | WClose         \<comment> \<open>\<^verbatim>\<open>close(runningContext.stopped)\<close>\<close>
  | WCancel        \<comment> \<open>\<^verbatim>\<open>runningContext.cancel()\<close>\<close>
  | WTest          \<comment> \<open>\<^verbatim>\<open>if !runningContext.stopping\<close>\<close>
  | WDone

text \<open>\<open>sent\<close>: the signals passed to the system; \<open>crashed\<close>: a goroutine has panicked.\<close>

record stop_state =
  holder :: "nat option"
  cmd_nil :: bool
  processState :: "wait_status option"
  stopping :: bool
  times_closed :: nat
  cancelled :: bool
  ended :: "wait_status option"
  sent :: "signal list"
  restarts_scheduled :: nat
  crashed :: bool
  waiter :: wait_pc
  stopper :: "nat \<Rightarrow> stop_pc"

datatype stop_event = Stopper nat | TimerFires nat | Waiter | ProcessEnds wait_status

text \<open>An agent that has been started, before anybody stops it.\<close>

definition up_state :: stop_state where
  "up_state =
     \<lparr>holder = None, cmd_nil = False, processState = None, stopping = False, times_closed = 0,
          cancelled = False, ended = None, sent = [], restarts_scheduled = 0, crashed = False,
          waiter = WWait, stopper = (\<lambda>_. SLock)\<rparr>"

definition agent_up :: "stop_state \<Rightarrow> bool" where
  "agent_up s \<longleftrightarrow> s = up_state"

section \<open>Steps\<close>

definition goto :: "nat \<Rightarrow> stop_pc \<Rightarrow> stop_state \<Rightarrow> stop_state" where
  "goto n pc s = s\<lparr>stopper := (stopper s)(n := pc)\<rparr>"

text \<open>One step of \<^verbatim>\<open>Stop\<close> in goroutine \<open>n\<close>; no value when it has to wait or has returned.\<close>

definition stop_step :: "nat \<Rightarrow> stop_state \<Rightarrow> stop_state option" where
  "stop_step n s =
     (case stopper s n of
        SLock \<Rightarrow> (if holder s = None then Some (goto n STest (s\<lparr>holder := Some n\<rparr>)) else None)
      | STest \<Rightarrow> Some (goto n (if stopping s then SSkip else SNil) s)
      | SNil \<Rightarrow> Some (goto n (if cmd_nil s then SSkip else SState) s)
      | SState \<Rightarrow>
          Some (if cmd_nil s then s\<lparr>crashed := True\<rparr>
                else goto n (if processState s = None then SSet else SExited) s)
      | SExited \<Rightarrow>
          Some (if cmd_nil s then s\<lparr>crashed := True\<rparr>
                else goto n (case processState s of Some (StatusExited _) \<Rightarrow> SSkip | _ \<Rightarrow> SSet) s)
      | SSet \<Rightarrow> Some (goto n SUnlock (s\<lparr>stopping := True\<rparr>))
      | SUnlock \<Rightarrow> Some (goto n STerm (s\<lparr>holder := None\<rparr>))
      | STerm \<Rightarrow>
          Some (if cmd_nil s then s\<lparr>crashed := True\<rparr> else goto n SSelect (s\<lparr>sent := sent s @ [SIGTERM]\<rparr>))
      | SSelect \<Rightarrow> (if 0 < times_closed s then Some (goto n SCancel s) else None)
      | SKill \<Rightarrow>
          Some (if cmd_nil s then s\<lparr>crashed := True\<rparr> else goto n SCancel (s\<lparr>sent := sent s @ [SIGKILL]\<rparr>))
      | SCancel \<Rightarrow> Some (goto n SStopped (s\<lparr>cancelled := True\<rparr>))
      | SStopped \<Rightarrow> None
      | SSkip \<Rightarrow> Some (goto n SSkipped (s\<lparr>holder := None\<rparr>))
      | SSkipped \<Rightarrow> None)"

definition wait_step :: "stop_state \<Rightarrow> stop_state option" where
  "wait_step s =
     (case waiter s of
        WWait \<Rightarrow>
          (case ended s of None \<Rightarrow> None | Some st \<Rightarrow> Some (s\<lparr>processState := Some st, waiter := WNil\<rparr>))
      | WNil \<Rightarrow> Some (s\<lparr>cmd_nil := True, waiter := WClose\<rparr>)
      | WClose \<Rightarrow> Some (s\<lparr>times_closed := Suc (times_closed s), waiter := WCancel\<rparr>)
      | WCancel \<Rightarrow> Some (s\<lparr>cancelled := True, waiter := WTest\<rparr>)
      | WTest \<Rightarrow>
          Some (if \<not> stopping s then s\<lparr>restarts_scheduled := Suc (restarts_scheduled s), waiter := WDone\<rparr>
                else s\<lparr>waiter := WDone\<rparr>)
      | WDone \<Rightarrow> None)"

fun stop_next :: "stop_state \<Rightarrow> stop_event \<Rightarrow> stop_state option" where
  "stop_next s (Stopper n) = (if crashed s then None else stop_step n s)"
| "stop_next s (TimerFires n) =
     (if \<not> crashed s \<and> stopper s n = SSelect then Some (goto n SKill s) else None)"
| "stop_next s Waiter = (if crashed s then None else wait_step s)"
| "stop_next s (ProcessEnds st) =
     (if ended s = None then Some (s\<lparr>ended := Some st\<rparr>) else None)"

fun stop_run :: "stop_state \<Rightarrow> stop_event list \<Rightarrow> stop_state option" where
  "stop_run s [] = Some s"
| "stop_run s (e # es) = (case stop_next s e of None \<Rightarrow> None | Some t \<Rightarrow> stop_run t es)"

inductive stop_reachable :: "stop_state \<Rightarrow> bool" where
  up: "agent_up s \<Longrightarrow> stop_reachable s"
| step: "stop_reachable s \<Longrightarrow> stop_next s e = Some t \<Longrightarrow> stop_reachable t"

interpretation stops: transition_system agent_up "\<lambda>s e t. stop_next s e = Some t" stop_reachable
proof
  fix s :: stop_state and P :: "stop_state \<Rightarrow> bool"
  assume "stop_reachable s" and "\<forall>s. agent_up s \<longrightarrow> P s"
    and "\<forall>s e t. stop_reachable s \<longrightarrow> P s \<longrightarrow> stop_next s e = Some t \<longrightarrow> P t"
  then show "P s" by (induction rule: stop_reachable.induct) blast+
qed

lemma stop_run_reachable: "stop_run s es = Some t \<Longrightarrow> stop_reachable s \<Longrightarrow> stop_reachable t"
  by (induction es arbitrary: s) (auto split: option.splits intro: stop_reachable.step)

section \<open>The invariant\<close>

definition in_lock :: "stop_pc \<Rightarrow> bool" where
  "in_lock pc \<longleftrightarrow> pc \<in> {STest, SNil, SState, SExited, SSet, SUnlock, SSkip}"

definition deciding :: "stop_pc \<Rightarrow> bool" where
  "deciding pc \<longleftrightarrow> pc \<in> {SNil, SState, SExited, SSet}"

text \<open>The goroutine that does the stopping; from the \<open>SIGTERM\<close> on it has signalled.\<close>

definition chosen :: "stop_pc \<Rightarrow> bool" where
  "chosen pc \<longleftrightarrow> pc \<in> {SUnlock, STerm, SSelect, SKill, SCancel, SStopped}"

definition signalled :: "stop_pc \<Rightarrow> bool" where
  "signalled pc \<longleftrightarrow> pc \<in> {SSelect, SKill, SCancel, SStopped}"

definition lock_inv :: "stop_state \<Rightarrow> bool" where
  "lock_inv s \<longleftrightarrow>
     (\<forall>n. in_lock (stopper s n) \<longleftrightarrow> holder s = Some n) \<and>
     (\<forall>n. deciding (stopper s n) \<longrightarrow> \<not> stopping s) \<and>
     (\<forall>n. chosen (stopper s n) \<longrightarrow> stopping s) \<and>
     (\<forall>n m. chosen (stopper s n) \<longrightarrow> chosen (stopper s m) \<longrightarrow> n = m)"

definition sent_ok :: "stop_pc \<Rightarrow> stop_state \<Rightarrow> bool" where
  "sent_ok pc s \<longleftrightarrow>
     (pc = SSelect \<or> pc = SKill \<longrightarrow> sent s = [SIGTERM]) \<and>
     (pc = SCancel \<or> pc = SStopped \<longrightarrow>
        sent s = [SIGTERM] \<and> 0 < times_closed s \<or> sent s = [SIGTERM, SIGKILL])"

definition sent_inv :: "stop_state \<Rightarrow> bool" where
  "sent_inv s \<longleftrightarrow>
     ((\<forall>n. \<not> signalled (stopper s n)) \<longrightarrow> sent s = []) \<and> (\<forall>n. sent_ok (stopper s n) s)"

definition waiter_inv :: "stop_state \<Rightarrow> bool" where
  "waiter_inv s \<longleftrightarrow>
     (cmd_nil s \<longleftrightarrow> waiter s \<notin> {WWait, WNil}) \<and>
     (waiter s \<noteq> WWait \<longrightarrow> ended s \<noteq> None) \<and>
     times_closed s = (if waiter s \<in> {WCancel, WTest, WDone} then 1 else 0) \<and>
     (waiter s \<noteq> WDone \<longrightarrow> restarts_scheduled s = 0) \<and> restarts_scheduled s \<le> 1 \<and>
     (waiter s = WDone \<and> restarts_scheduled s = 0 \<longrightarrow> stopping s) \<and>
     (crashed s \<longrightarrow> cmd_nil s)"

text \<open>Once signalled, no restart.\<close>

definition no_restart_inv :: "stop_state \<Rightarrow> bool" where
  "no_restart_inv s \<longleftrightarrow>
     (\<forall>n. signalled (stopper s n) \<longrightarrow> stopping s \<and> restarts_scheduled s = 0)"

lemma pc_simps [simp]:
  "\<not> in_lock SLock" "in_lock STest" "in_lock SNil" "in_lock SState" "in_lock SExited" "in_lock SSet" "in_lock SUnlock" "\<not> in_lock STerm" "\<not> in_lock SSelect" "\<not> in_lock SKill" "\<not> in_lock SCancel" "\<not> in_lock SStopped" "in_lock SSkip" "\<not> in_lock SSkipped"
  "\<not> deciding SLock" "\<not> deciding STest" "deciding SNil" "deciding SState" "deciding SExited" "deciding SSet" "\<not> deciding SUnlock" "\<not> deciding STerm" "\<not> deciding SSelect" "\<not> deciding SKill" "\<not> deciding SCancel" "\<not> deciding SStopped" "\<not> deciding SSkip" "\<not> deciding SSkipped"
  "\<not> chosen SLock" "\<not> chosen STest" "\<not> chosen SNil" "\<not> chosen SState" "\<not> chosen SExited" "\<not> chosen SSet" "chosen SUnlock" "chosen STerm" "chosen SSelect" "chosen SKill" "chosen SCancel" "chosen SStopped" "\<not> chosen SSkip" "\<not> chosen SSkipped"
  "\<not> signalled SLock" "\<not> signalled STest" "\<not> signalled SNil" "\<not> signalled SState" "\<not> signalled SExited" "\<not> signalled SSet" "\<not> signalled SUnlock" "\<not> signalled STerm" "signalled SSelect" "signalled SKill" "signalled SCancel" "signalled SStopped" "\<not> signalled SSkip" "\<not> signalled SSkipped"
  by (simp_all add: in_lock_def deciding_def chosen_def signalled_def)

lemma goto_simps [simp]:
  "stopper (goto n q s) = (stopper s)(n := q)" "holder (goto n q s) = holder s"
  "cmd_nil (goto n q s) = cmd_nil s" "processState (goto n q s) = processState s"
  "stopping (goto n q s) = stopping s" "times_closed (goto n q s) = times_closed s"
  "ended (goto n q s) = ended s" "sent (goto n q s) = sent s" "waiter (goto n q s) = waiter s"
  "restarts_scheduled (goto n q s) = restarts_scheduled s" "crashed (goto n q s) = crashed s"
  by (simp_all add: goto_def)

lemma lock_inv_goto:
  assumes "lock_inv s" and "stopper t = (stopper s)(n := q)"
    and "in_lock q \<longleftrightarrow> holder t = Some n" and "\<And>m. m \<noteq> n \<Longrightarrow> holder t = Some m \<longleftrightarrow> holder s = Some m"
    and "stopping t \<longleftrightarrow> stopping s \<or> stopper s n = SSet"
    and "deciding q \<Longrightarrow> \<not> stopping t" and "chosen q \<Longrightarrow> chosen (stopper s n) \<or> stopper s n = SSet"
  shows "lock_inv t"
proof -
  note l = assms(1) [unfolded lock_inv_def]
  have own: "stopper s n = SSet \<Longrightarrow> holder s = Some n \<and> \<not> stopping s" using l by (metis pc_simps)
  have dec: "deciding (stopper s m) \<Longrightarrow> holder s = Some m" for m
    using l by (cases "stopper s m") (metis pc_simps)+
  have "deciding (stopper t m) \<longrightarrow> \<not> stopping t" for m
    using assms(2,5,6) l own dec [of m] by (cases "m = n") auto
  moreover have "chosen (stopper t m) \<longrightarrow> stopping t" for m
    using assms(2,5,7) l by (cases "m = n") auto
  moreover have "n' = m'" if "chosen (stopper t n')" "chosen (stopper t m')" for n' m'
  proof -
    have "chosen (stopper s n) \<or> stopper s n = SSet \<and> (\<forall>k. \<not> chosen (stopper s k))" if "chosen (stopper t n)"
      using that assms(2,7) l own by (auto simp: fun_upd_def)
    then show ?thesis using that assms(2) l by (auto simp: fun_upd_def split: if_splits)
  qed
  moreover have "in_lock (stopper t m) \<longleftrightarrow> holder t = Some m" for m
    using assms(2,3,4) l by (cases "m = n") auto
  ultimately show ?thesis by (simp add: lock_inv_def)
qed

lemma lock_inv_same:
  "lock_inv s \<Longrightarrow> stopper t = stopper s \<Longrightarrow> holder t = holder s \<Longrightarrow> stopping t = stopping s \<Longrightarrow> lock_inv t"
  by (simp add: lock_inv_def)

lemma lock_inv_reachable: "stop_reachable s \<Longrightarrow> lock_inv s"
proof (erule stops.invariant_rule)
  fix s assume "agent_up s" then show "lock_inv s" by (simp add: agent_up_def up_state_def lock_inv_def)
next
  fix s e t assume l: "lock_inv s" and e: "stop_next s e = Some t"
  show "lock_inv t"
  proof (cases e)
    case (Stopper n)
    have h: "in_lock (stopper s n) \<longleftrightarrow> holder s = Some n" "deciding (stopper s n) \<longrightarrow> \<not> stopping s"
      using l unfolding lock_inv_def by blast+
    show ?thesis
      using e h Stopper
      by (cases "stopper s n")
         (auto simp: stop_step_def split: if_splits option.splits wait_status.splits
           intro: lock_inv_goto [OF l, of _ n] lock_inv_same [OF l])
  next
    case (TimerFires n)
    have h: "in_lock (stopper s n) \<longleftrightarrow> holder s = Some n" using l by (simp add: lock_inv_def)
    show ?thesis using e h TimerFires
      by (auto split: if_splits intro: lock_inv_goto [OF l, of _ n])
  qed (use e in \<open>auto simp: wait_step_def split: if_splits wait_pc.splits option.splits
         intro: lock_inv_same [OF l]\<close>)
qed

lemma signalled_chosen: "signalled pc \<Longrightarrow> chosen pc"
  by (cases pc) simp_all

lemma sent_ok_simps [simp]:
  "\<not> signalled pc \<Longrightarrow> sent_ok pc s"
  "sent_ok SSelect s \<longleftrightarrow> sent s = [SIGTERM]" "sent_ok SKill s \<longleftrightarrow> sent s = [SIGTERM]"
  "sent_ok SCancel s \<longleftrightarrow> sent s = [SIGTERM] \<and> 0 < times_closed s \<or> sent s = [SIGTERM, SIGKILL]"
  "sent_ok SStopped s \<longleftrightarrow> sent s = [SIGTERM] \<and> 0 < times_closed s \<or> sent s = [SIGTERM, SIGKILL]"
  by (auto simp: sent_ok_def)

lemma sent_inv_quiet:
  assumes "sent_inv s" and "stopper t = (stopper s)(n := q)" and "\<not> signalled (stopper s n)"
    and "\<not> signalled q" and "sent t = sent s" and "times_closed t = times_closed s"
  shows "sent_inv t"
proof -
  have "sent_ok (stopper t m) t" for m
  proof (cases "m = n")
    case False
    have "sent_ok (stopper s m) s" using assms(1) unfolding sent_inv_def by blast
    then show ?thesis using False assms(2,5,6) by (simp add: sent_ok_def)
  qed (use assms(2,4) in simp)
  moreover have "(\<forall>m. \<not> signalled (stopper t m)) \<Longrightarrow> (\<forall>m. \<not> signalled (stopper s m))"
    using assms(2,3) by (metis fun_upd_other)
  ultimately show ?thesis using assms(1,5) unfolding sent_inv_def by metis
qed

lemma sent_inv_chosen:
  assumes "stopper t = (stopper s)(n := q)" and "\<And>m. m \<noteq> n \<Longrightarrow> \<not> signalled (stopper s m)" and "signalled q"
    and "sent_ok q t"
  shows "sent_inv t"
proof -
  have "sent_ok (stopper t m) t" for m using assms by (cases "m = n") simp_all
  moreover have "signalled (stopper t n)" using assms(1,3) by simp
  ultimately show ?thesis unfolding sent_inv_def by blast
qed

lemma sent_inv_same:
  assumes "sent_inv s" and "stopper t = stopper s" "sent t = sent s" "times_closed s \<le> times_closed t"
  shows "sent_inv t"
proof -
  have "sent_ok pc s \<Longrightarrow> sent_ok pc t" for pc using assms(3,4) unfolding sent_ok_def by auto
  then show ?thesis using assms unfolding sent_inv_def by metis
qed

lemma sent_inv_reachable: "stop_reachable s \<Longrightarrow> sent_inv s"
proof (erule stops.invariant_rule_with [where J = lock_inv])
  fix s assume "stop_reachable s" then show "lock_inv s" by (rule lock_inv_reachable)
next
  fix s assume "agent_up s" then show "sent_inv s" by (simp add: agent_up_def up_state_def sent_inv_def)
next
  fix s e t assume i: "sent_inv s" and l: "lock_inv s" and e: "stop_next s e = Some t"
  have one: "\<not> signalled (stopper s m)" if "chosen (stopper s n)" "m \<noteq> n" for n m
    using l that signalled_chosen unfolding lock_inv_def by blast
  have ok: "sent_ok (stopper s n) s" for n using i unfolding sent_inv_def by blast
  have none: "sent s = []" if "stopper s n = STerm" for n
  proof -
    have "\<not> signalled (stopper s m)" for m using one [of n m] that by (cases "m = n") simp_all
    then show ?thesis using i unfolding sent_inv_def by blast
  qed
  show "sent_inv t"
  proof (cases e)
    case (Stopper n)
    have u: "stop_step n s = Some t" using e Stopper by (simp split: if_splits)
    show ?thesis
    proof (cases "stopper s n")
      case STerm
      then show ?thesis
        using u one [of n] none [of n]
        by (auto simp: stop_step_def split: if_splits intro: sent_inv_same [OF i]
            sent_inv_chosen [of _ s n SSelect])
    next
      case SSelect
      then show ?thesis
        using u one [of n] ok [of n]
        by (auto simp: stop_step_def split: if_splits intro!: sent_inv_chosen [of _ s n SCancel])
    next
      case SKill
      then show ?thesis
        using u one [of n] ok [of n]
        by (auto simp: stop_step_def split: if_splits intro: sent_inv_same [OF i]
            sent_inv_chosen [of _ s n SCancel])
    next
      case SCancel
      then show ?thesis
        using u one [of n] ok [of n]
        by (auto simp: stop_step_def intro!: sent_inv_chosen [of _ s n SStopped])
    qed (use u in \<open>auto simp: stop_step_def split: if_splits option.splits wait_status.splits
           intro: sent_inv_same [OF i] sent_inv_quiet [OF i, of _ n]\<close>)
  next
    case (TimerFires n)
    then show ?thesis
      using e one [of n] ok [of n] by (auto split: if_splits intro!: sent_inv_chosen [of _ s n SKill])
  qed (use e in \<open>auto simp: wait_step_def split: if_splits wait_pc.splits option.splits
         intro: sent_inv_same [OF i]\<close>)
qed

lemma waiter_inv_same:
  assumes "waiter_inv s" and "cmd_nil t = cmd_nil s" and "waiter t = waiter s" and "ended s \<noteq> None \<Longrightarrow> ended t \<noteq> None"
    and "times_closed t = times_closed s" and "restarts_scheduled t = restarts_scheduled s"
    and "stopping s \<Longrightarrow> stopping t" and "crashed t \<Longrightarrow> crashed s \<or> cmd_nil s"
  shows "waiter_inv t"
  using assms unfolding waiter_inv_def by auto

lemma waiter_inv_reachable: "stop_reachable s \<Longrightarrow> waiter_inv s"
proof (erule stops.invariant_rule)
  fix s assume "agent_up s" then show "waiter_inv s" by (simp add: agent_up_def up_state_def waiter_inv_def)
next
  fix s e t assume i: "waiter_inv s" and e: "stop_next s e = Some t"
  show "waiter_inv t"
  proof (cases e)
    case (Stopper n)
    then show ?thesis
      using e by (auto simp: stop_step_def split: stop_pc.splits if_splits option.splits wait_status.splits
           intro: waiter_inv_same [OF i])
  next
    case Waiter
    then show ?thesis
      using e i by (cases "waiter s") (auto simp: waiter_inv_def wait_step_def split: if_splits option.splits)
  qed (use e in \<open>auto split: if_splits intro: waiter_inv_same [OF i]\<close>)
qed

lemma no_restart_inv_reachable: "stop_reachable s \<Longrightarrow> no_restart_inv s"
proof (erule stops.invariant_rule_with [where J = "\<lambda>s. lock_inv s \<and> waiter_inv s"])
  fix s assume "stop_reachable s"
  then show "lock_inv s \<and> waiter_inv s" using lock_inv_reachable waiter_inv_reachable by blast
next
  fix s assume "agent_up s" then show "no_restart_inv s" by (simp add: agent_up_def up_state_def no_restart_inv_def)
next
  fix s e t assume i: "no_restart_inv s" and l: "lock_inv s \<and> waiter_inv s" and e: "stop_next s e = Some t"
  have same: "no_restart_inv u" if "stopper u = stopper s" "stopping s \<Longrightarrow> stopping u"
    "stopping s \<Longrightarrow> restarts_scheduled u = restarts_scheduled s" for u
    using i that unfolding no_restart_inv_def by metis
  have move: "no_restart_inv u" if "stopper u = (stopper s)(n := q)" "stopping s \<Longrightarrow> stopping u"
    "restarts_scheduled u = restarts_scheduled s" "signalled q \<Longrightarrow> stopping u \<and> restarts_scheduled u = 0" for u n q
    using i that unfolding no_restart_inv_def by (metis fun_upd_apply)
  have c: "chosen (stopper s n) \<Longrightarrow> stopping s" for n using l unfolding lock_inv_def by blast
  have w: "\<not> cmd_nil s \<Longrightarrow> restarts_scheduled s = 0" using l unfolding waiter_inv_def by auto
  have r: "signalled (stopper s n) \<Longrightarrow> stopping s \<and> restarts_scheduled s = 0" for n
    using i unfolding no_restart_inv_def by blast
  show "no_restart_inv t"
  proof (cases e)
    case (Stopper n)
    then show ?thesis
      using e c [of n] w r [of n] by (cases "stopper s n")
        (auto simp: stop_step_def split: if_splits option.splits wait_status.splits
           intro: same move [of _ n])
  next
    case (TimerFires n)
    then show ?thesis using e r [of n] by (auto split: if_splits intro: move [of _ n])
  qed (use e in \<open>auto simp: wait_step_def split: wait_pc.splits if_splits option.splits intro: same\<close>)
qed

section \<open>Guarantees\<close>

lemma up_reachable: "stop_reachable up_state"
  by (rule stop_reachable.up) (simp add: agent_up_def)

text \<open>
  C27 However many goroutines stop the same agent at once, and whenever its process ends: at most
  one of them does the stopping, the process is sent one \<^verbatim>\<open>SIGTERM\<close> and after it at most one
  \<^verbatim>\<open>SIGKILL\<close>, the channel is closed at most once, and at most one restart is scheduled.
\<close>

theorem stop_signals_once:
  assumes "stop_reachable s"
  shows "sent s \<in> {[], [SIGTERM], [SIGTERM, SIGKILL]} \<and> times_closed s \<le> 1 \<and> restarts_scheduled s \<le> 1 \<and>
     card {n. stopper s n = SStopped} \<le> 1"
proof -
  have s: "sent_inv s" and w: "waiter_inv s" and l: "lock_inv s"
    using assms sent_inv_reachable waiter_inv_reachable lock_inv_reachable by blast+
  have "sent s \<in> {[], [SIGTERM], [SIGTERM, SIGKILL]}"
  proof (cases "\<forall>n. \<not> signalled (stopper s n)")
    case True
    then show ?thesis using s by (simp add: sent_inv_def)
  next
    case False
    then obtain n where n: "signalled (stopper s n)" by blast
    have "sent_ok (stopper s n) s" using s by (simp add: sent_inv_def)
    then show ?thesis using n by (cases "stopper s n") auto
  qed
  moreover have "times_closed s \<le> 1" "restarts_scheduled s \<le> 1" using w by (auto simp: waiter_inv_def)
  moreover have "n = m" if "stopper s n = SStopped" "stopper s m = SStopped" for n m
    using l that unfolding lock_inv_def by (metis pc_simps)
  then have "card {n. stopper s n = SStopped} \<le> 1"
    by (cases "finite {n. stopper s n = SStopped}") (simp_all add: card_le_Suc0_iff_eq)
  ultimately show ?thesis by blast
qed

lemmas run_defs = up_state_def stop_step_def wait_step_def goto_def numeral_eq_Suc

definition two_stops :: "stop_event list" where
  "two_stops =
     replicate 7 (Stopper 0) @ replicate 3 (Stopper 1) @ [TimerFires 0, Stopper 0, ProcessEnds (StatusSignaled 9)] @
     replicate 5 Waiter @ [Stopper 0]"

lemma two_stops_run:
  "\<exists>s. stop_run up_state two_stops = Some s \<and> stopper s 0 = SStopped \<and> stopper s 1 = SSkipped \<and>
     waiter s = WDone \<and> sent s \<noteq> [] \<and> sent s \<noteq> [SIGTERM]"
  by (simp add: two_stops_def run_defs)

lemma stop_signals_once_witness:
  "\<exists>s. stop_run up_state two_stops = Some s \<and> sent s = [SIGTERM, SIGKILL] \<and> times_closed s \<le> 1"
  using two_stops_run stop_run_reachable [OF _ up_reachable] stop_signals_once by blast

lemma stays_stopped: "stop_next s e = Some t \<Longrightarrow> stopper s n = SStopped \<Longrightarrow> stopper t n = SStopped"
  by (cases e)
     (auto simp: stop_step_def wait_step_def
       split: if_splits stop_pc.splits wait_pc.splits option.splits wait_status.splits)

lemma stays_stopped_run: "stop_run s es = Some t \<Longrightarrow> stopper s n = SStopped \<Longrightarrow> stopper t n = SStopped"
  by (induction es arbitrary: s) (auto split: option.splits dest: stays_stopped)

text \<open>
  C28 A \<^verbatim>\<open>Stop\<close> that returns having stopped the agent: its process has ended or has been sent
  both signals, and whatever happens from then on, no restart of it is ever scheduled.
\<close>

theorem stopped_for_good:
  assumes "stop_reachable s" and "stopper s n = SStopped" and "stop_run s es = Some t"
  shows "(ended s \<noteq> None \<or> sent s = [SIGTERM, SIGKILL]) \<and> restarts_scheduled t = 0"
proof
  have "sent_ok (stopper s n) s" using sent_inv_reachable [OF assms(1)] by (simp add: sent_inv_def)
  then show "ended s \<noteq> None \<or> sent s = [SIGTERM, SIGKILL]"
    using assms(2) waiter_inv_reachable [OF assms(1)] by (auto simp: waiter_inv_def split: if_splits)
  have "no_restart_inv t" using stop_run_reachable [OF assms(3,1)] by (rule no_restart_inv_reachable)
  then show "restarts_scheduled t = 0"
    using stays_stopped_run [OF assms(3,2)] unfolding no_restart_inv_def by (metis pc_simps)
qed

lemma stopped_for_good_witness:
  "\<exists>s t. stop_run up_state (replicate 7 (Stopper 0) @ [TimerFires 0, Stopper 0, Stopper 0]) = Some s \<and>
     stop_run s (ProcessEnds (StatusSignaled 9) # replicate 5 Waiter) = Some t \<and>
     stopper s 0 = SStopped \<and> waiter t = WDone \<and> restarts_scheduled t = 0"
proof -
  have "\<exists>s t. stop_run up_state (replicate 7 (Stopper 0) @ [TimerFires 0, Stopper 0, Stopper 0]) = Some s \<and>
     stop_run s (ProcessEnds (StatusSignaled 9) # replicate 5 Waiter) = Some t \<and>
     stopper s 0 = SStopped \<and> waiter t = WDone"
    by (simp add: run_defs)
  then show ?thesis using stopped_for_good stop_run_reachable [OF _ up_reachable] by blast
qed

text \<open>How far a goroutine in \<^verbatim>\<open>Stop\<close> still has to go.\<close>

fun steps_left :: "stop_pc \<Rightarrow> nat" where
  "steps_left SLock = 11"
| "steps_left STest = 10"
| "steps_left SNil = 9"
| "steps_left SState = 8"
| "steps_left SExited = 7"
| "steps_left SSet = 6"
| "steps_left SUnlock = 5"
| "steps_left STerm = 4"
| "steps_left SSelect = 3"
| "steps_left SKill = 2"
| "steps_left SCancel = 1"
| "steps_left SStopped = 0"
| "steps_left SSkip = 1"
| "steps_left SSkipped = 0"

lemma stop_step_progress:
  assumes "stop_step n s = Some t" and "\<not> crashed t"
  shows "steps_left (stopper t n) < steps_left (stopper s n) \<and> (\<forall>m. m \<noteq> n \<longrightarrow> stopper t m = stopper s m)"
  using assms by (cases "stopper s n")
    (auto simp: stop_step_def split: if_splits option.splits wait_status.splits)



text \<open>
  The waiting goroutine clears \<^verbatim>\<open>cmd\<close> without the lock that \<^verbatim>\<open>Stop\<close> holds when it checks
  it. When the process ends on its own after \<^verbatim>\<open>Stop\<close> has seen it running, \<^verbatim>\<open>Stop\<close> can find
  \<^verbatim>\<open>cmd\<close> nil where it signals the process, at the \<^verbatim>\<open>SIGTERM\<close> as at the \<^verbatim>\<open>SIGKILL\<close>, and even
  within its check; the panic ends the Envoy.
\<close>

lemma stop_can_crash:
  "(\<exists>s. stop_run up_state (replicate 6 (Stopper 0) @ ProcessEnds (StatusExited 1) # [Waiter, Waiter, Stopper 0]) = Some s \<and>
      crashed s \<and> sent s = []) \<and>
   (\<exists>s. stop_run up_state (replicate 7 (Stopper 0) @ [TimerFires 0, ProcessEnds (StatusSignaled 15), Waiter, Waiter, Stopper 0]) = Some s \<and>
      crashed s \<and> sent s = [SIGTERM]) \<and>
   (\<exists>s. stop_run up_state (replicate 3 (Stopper 0) @ ProcessEnds (StatusExited 1) # [Waiter, Waiter, Stopper 0]) = Some s \<and>
      crashed s \<and> \<not> stopping s)"
  by (intro conjI; simp add: run_defs)

end
