(* ===== verification/Go_Json.thy ===== *)
theory Go_Json
  imports Go_Strings Go_Duration "HOL-Library.AList" "HOL-Library.Multiset"
begin

text \<open>
  What the program uses of \<^verbatim>\<open>encoding/json\<close>: decoding a text into
  \<^verbatim>\<open>map[string]interface{}\<close>, with and without \<^verbatim>\<open>UseNumber\<close>, and encoding such a map.
  A value held in an \<^verbatim>\<open>interface{}\<close> is a \<open>gval\<close>. A \<^verbatim>\<open>float64\<close> is represented by
  the decimal text it was rounded from, \<open>GFloat\<close>; a Go map by the list of its entries, which
  have distinct keys and stand in no particular order.
\<close>

datatype gval =
    GNil
  | GBool bool
  | GNumber string
  | GFloat string
  | GInt int64
  | GString string
  | GSlice "gval list"
  | GMap "(string \<times> gval) list"

type_synonym gmap = "(string \<times> gval) list"

section \<open>Strings\<close>

text \<open>
  The bytes of a rune in UTF-8, and the length of the valid UTF-8 sequence at the start of a
  text (0 when there is none), as \<^verbatim>\<open>utf8.EncodeRune\<close> and \<^verbatim>\<open>utf8.DecodeRune\<close> have it.
\<close>

definition EncodeRune :: "nat \<Rightarrow> string" where
  "EncodeRune r =
     (if r < 128 then bytes [r]
      else if r < 2048 then bytes [192 + r div 64, 128 + r mod 64]
      else if r < 65536 then bytes [224 + r div 4096, 128 + r div 64 mod 64, 128 + r mod 64]
      else bytes [240 + r div 262144, 128 + r div 4096 mod 64, 128 + r div 64 mod 64, 128 + r mod 64])"

definition rune_error :: string where
  "rune_error = bytes [239, 191, 189]"

definition cont :: "nat \<Rightarrow> nat \<Rightarrow> char list \<Rightarrow> nat \<Rightarrow> bool" where
  "cont lo hi s i = (i < length s \<and> lo \<le> (of_char (s ! i) :: nat) \<and> (of_char (s ! i) :: nat) \<le> hi)"

definition utf8_len :: "string \<Rightarrow> nat" where
  "utf8_len s =
     (case s of [] \<Rightarrow> 0 | c # _ \<Rightarrow>
       (let b = (of_char c :: nat); c1 = (\<lambda>lo hi. cont lo hi s 1); c2 = cont 128 191 s 2;
            c3 = cont 128 191 s 3 in
        if b < 128 then 1
        else if 194 \<le> b \<and> b \<le> 223 then (if c1 128 191 then 2 else 0)
        else if b = 224 then (if c1 160 191 \<and> c2 then 3 else 0)
        else if b = 237 then (if c1 128 159 \<and> c2 then 3 else 0)
        else if 225 \<le> b \<and> b \<le> 239 then (if c1 128 191 \<and> c2 then 3 else 0)
        else if b = 240 then (if c1 144 191 \<and> c2 \<and> c3 then 4 else 0)
        else if 241 \<le> b \<and> b \<le> 243 then (if c1 128 191 \<and> c2 \<and> c3 then 4 else 0)
        else if b = 244 then (if c1 128 143 \<and> c2 \<and> c3 then 4 else 0)
        else 0))"

definition hex_val :: "char \<Rightarrow> nat option" where
  "hex_val c =
     (let b = (of_char c :: nat) in
      if 48 \<le> b \<and> b \<le> 57 then Some (b - 48)
      else if 97 \<le> b \<and> b \<le> 102 then Some (b - 87)
      else if 65 \<le> b \<and> b \<le> 70 then Some (b - 55) else None)"

fun hex4 :: "string \<Rightarrow> (nat \<times> string) option" where
  "hex4 (a # b # c # d # r) =
     (case (hex_val a, hex_val b, hex_val c, hex_val d) of
        (Some w, Some x, Some y, Some z) \<Rightarrow> Some (w * 4096 + x * 256 + y * 16 + z, r)
      | _ \<Rightarrow> None)"
| "hex4 _ = None"

text \<open>A \<^verbatim>\<open>\u\<close> escape, the text after the \<^verbatim>\<open>u\<close>: a surrogate must be followed by the escape of
  its other half, or it reads as the replacement character.\<close>

definition getu4 :: "string \<Rightarrow> (nat \<times> string) option" where
  "getu4 s = (if HasPrefix s (bytes [92, 117]) then hex4 (drop 2 s) else None)"

definition unescape_u :: "string \<Rightarrow> (string \<times> string) option" where
  "unescape_u s =
     (case hex4 s of
        None \<Rightarrow> None
      | Some (r, rest) \<Rightarrow>
          if 55296 \<le> r \<and> r \<le> 57343 then
            (case getu4 rest of
               Some (r2, rest2) \<Rightarrow>
                 if r \<le> 56319 \<and> 56320 \<le> r2 \<and> r2 \<le> 57343
                 then Some (EncodeRune (65536 + (r - 55296) * 1024 + (r2 - 56320)), rest2)
                 else Some (rune_error, rest)
             | None \<Rightarrow> Some (rune_error, rest))
          else Some (EncodeRune r, rest))"

definition escape_char :: "char \<Rightarrow> char option" where
  "escape_char e =
     (if e = CHR 0x22 \<or> e = CHR 0x5C \<or> e = CHR ''/'' then Some e
      else if e = CHR ''b'' then Some (CHR 0x08)
      else if e = CHR ''f'' then Some (CHR 0x0C)
      else if e = CHR ''n'' then Some (CHR 0x0A)
      else if e = CHR ''r'' then Some (CHR 0x0D)
      else if e = CHR ''t'' then Some (CHR 0x09)
      else None)"

definition emit :: "string \<Rightarrow> (string \<times> string) option \<Rightarrow> (string \<times> string) option" where
  "emit out r = map_option (\<lambda>(s, rest). (out @ s, rest)) r"

lemma hex4_shorter: "hex4 s = Some (n, r) \<Longrightarrow> length r < length s"
  by (induction s rule: hex4.induct) (auto split: option.splits)

lemma getu4_shorter: "getu4 s = Some (n, r) \<Longrightarrow> length r < length s"
  by (auto simp: getu4_def split: if_splits dest: hex4_shorter)

lemma unescape_u_shorter: "unescape_u s = Some (o', r) \<Longrightarrow> length r < length s"
  by (auto simp: unescape_u_def split: option.splits if_splits
      dest!: hex4_shorter getu4_shorter)

text \<open>The text after an opening quote: the string's bytes and what follows the closing one.\<close>

function parse_str :: "string \<Rightarrow> (string \<times> string) option" where
  "parse_str [] = None"
| "parse_str (c # cs) =
     (if c = CHR 0x22 then Some ([], cs)
      else if c = CHR 0x5C then
        (case cs of
           [] \<Rightarrow> None
         | e # cs' \<Rightarrow>
             if e = CHR ''u'' then
               (case unescape_u cs' of
                  None \<Rightarrow> None
                | Some (out, rest) \<Rightarrow> emit out (parse_str rest))
             else (case escape_char e of
                     None \<Rightarrow> None
                   | Some d \<Rightarrow> emit [d] (parse_str cs')))
      else if (of_char c :: nat) < 32 then None
      else (let n = utf8_len (c # cs) in
            if n = 0 then emit rune_error (parse_str cs)
            else emit (take n (c # cs)) (parse_str (drop (n - 1) cs))))"
  by pat_completeness auto
termination
  by (relation "measure length") (auto dest: unescape_u_shorter)

declare parse_str.simps(2) [simp del]

section \<open>Numbers\<close>

definition take_digits :: "string \<Rightarrow> string \<times> string" where
  "take_digits s = (takeWhile is_digit s, dropWhile is_digit s)"

text \<open>The grammar's number: an optional minus, an integer part with no leading zero, an
  optional fraction, an optional exponent; the text of the number and the rest.\<close>

definition parse_exponent :: "string \<Rightarrow> (string \<times> string) option" where
  "parse_exponent s =
     (case s of
        e # s1 \<Rightarrow>
          if e = CHR ''e'' \<or> e = CHR ''E'' then
            (let sign = (case s1 of c # _ \<Rightarrow> if c = CHR ''+'' \<or> c = CHR ''-'' then [c] else [] | [] \<Rightarrow> []);
                 (ds, r) = take_digits (drop (length sign) s1)
             in if ds = [] then None else Some (e # sign @ ds, r))
          else Some ([], s)
      | [] \<Rightarrow> Some ([], []))"

definition parse_fraction :: "string \<Rightarrow> (string \<times> string) option" where
  "parse_fraction s =
     (case s of
        c # s1 \<Rightarrow>
          if c = CHR ''.'' then
            (let (ds, r) = take_digits s1 in if ds = [] then None else Some (c # ds, r))
          else Some ([], s)
      | [] \<Rightarrow> Some ([], []))"

definition parse_number :: "string \<Rightarrow> (string \<times> string) option" where
  "parse_number s =
     (let neg = (if HasPrefix s ''-'' then ''-'' else []);
          (ds, r) = take_digits (drop (length neg) s);
          (int_part, r1) = (if HasPrefix ds ''0'' then (''0'', drop 1 ds @ r) else (ds, r))
      in if ds = [] then None
         else case parse_fraction r1 of
             None \<Rightarrow> None
           | Some (frac, r2) \<Rightarrow>
               (case parse_exponent r2 of
                  None \<Rightarrow> None
                | Some (ex, r3) \<Rightarrow> Some (neg @ int_part @ frac @ ex, r3)))"

text \<open>
  \<^verbatim>\<open>strconv.ParseFloat(s, 64)\<close> of such a text fails only when the value rounds beyond the
  largest finite \<^verbatim>\<open>float64\<close>: at \<open>2^1024 - 2^970\<close> or more in magnitude.
\<close>

definition number_parts :: "string \<Rightarrow> nat \<times> int" where
  "number_parts s =
     (let body = (if HasPrefix s ''-'' then tl s else s);
          (ds, r) = take_digits body;
          (fs, r1) = (if HasPrefix r ''.'' then take_digits (tl r) else ([], r));
          ex = (if r1 = [] then 0
                else let e = tl r1 in
                  if HasPrefix e ''-'' then - int (read_nat (tl e))
                  else if HasPrefix e ''+'' then int (read_nat (tl e)) else int (read_nat e))
      in (read_nat (ds @ fs), ex - int (length fs)))"

definition float64_limit :: nat where
  "float64_limit = 2 ^ 1024 - 2 ^ 970"

definition float64_in_range :: "string \<Rightarrow> bool" where
  "float64_in_range s =
     (case number_parts s of (m, e) \<Rightarrow>
        if e \<ge> 0 then m * 10 ^ nat e < float64_limit else m < float64_limit * 10 ^ nat (- e))"

section \<open>Values\<close>

definition is_ws :: "char \<Rightarrow> bool" where
  "is_ws c = (c = CHR '' '' \<or> c = CHR 0x09 \<or> c = CHR 0x0A \<or> c = CHR 0x0D)"

definition skip_ws :: "string \<Rightarrow> string" where
  "skip_ws s = dropWhile is_ws s"

text \<open>
  The recursive descent. The first argument bounds the depth of calls; every call consumes
  input, so twice the length of the text is enough (\<open>parse_value_enough\<close>). Later members of an
  object override earlier ones of the same name, as stores into the map do.
\<close>

fun parse_value :: "nat \<Rightarrow> bool \<Rightarrow> string \<Rightarrow> (gval \<times> string) option"
  and parse_elems :: "nat \<Rightarrow> bool \<Rightarrow> string \<Rightarrow> (gval list \<times> string) option"
  and parse_members :: "nat \<Rightarrow> bool \<Rightarrow> gmap \<Rightarrow> string \<Rightarrow> (gmap \<times> string) option"
where
  "parse_value 0 num s = None"
| "parse_value (Suc n) num s =
     (case skip_ws s of
        [] \<Rightarrow> None
      | c # cs \<Rightarrow>
          if c = CHR ''{'' then
            (if HasPrefix (skip_ws cs) ''}'' then Some (GMap [], tl (skip_ws cs))
             else map_option (\<lambda>(m, r). (GMap m, r)) (parse_members n num [] cs))
          else if c = CHR ''['' then
            (if HasPrefix (skip_ws cs) '']'' then Some (GSlice [], tl (skip_ws cs))
             else map_option (\<lambda>(vs, r). (GSlice vs, r)) (parse_elems n num cs))
          else if c = CHR 0x22 then map_option (\<lambda>(t, r). (GString t, r)) (parse_str cs)
          else if HasPrefix (c # cs) ''true'' then Some (GBool True, drop 4 (c # cs))
          else if HasPrefix (c # cs) ''false'' then Some (GBool False, drop 5 (c # cs))
          else if HasPrefix (c # cs) ''null'' then Some (GNil, drop 4 (c # cs))
          else map_option (\<lambda>(t, r). (if num then GNumber t else GFloat t, r)) (parse_number (c # cs)))"
| "parse_elems 0 num s = None"
| "parse_elems (Suc n) num s =
     (case parse_value n num s of
        None \<Rightarrow> None
      | Some (v, r) \<Rightarrow>
          (case skip_ws r of
             c # cs \<Rightarrow>
               if c = CHR '']'' then Some ([v], cs)
               else if c = CHR '','' then map_option (\<lambda>(vs, r'). (v # vs, r')) (parse_elems n num cs)
               else None
           | [] \<Rightarrow> None))"
| "parse_members 0 num m s = None"
| "parse_members (Suc n) num m s =
     (case skip_ws s of
        q # s1 \<Rightarrow>
          if q \<noteq> CHR 0x22 then None
          else (case parse_str s1 of
                  None \<Rightarrow> None
                | Some (k, r1) \<Rightarrow>
                    (case skip_ws r1 of
                       col # s2 \<Rightarrow>
                         if col \<noteq> CHR '':'' then None
                         else (case parse_value n num s2 of
                                 None \<Rightarrow> None
                               | Some (v, r2) \<Rightarrow>
                                   (case skip_ws r2 of
                                      c # cs \<Rightarrow>
                                        if c = CHR ''}'' then Some (AList.update k v m, cs)
                                        else if c = CHR '','' then
                                          parse_members n num (AList.update k v m) cs
                                        else None
                                    | [] \<Rightarrow> None))
                     | [] \<Rightarrow> None))
      | [] \<Rightarrow> None)"

definition json_parse :: "bool \<Rightarrow> string \<Rightarrow> (gval \<times> string) option" where
  "json_parse num s = parse_value (2 * length s + 2) num s"

section \<open>The fuel is enough\<close>

lemma skip_ws_length: "length (skip_ws s) \<le> length s"
  by (simp add: skip_ws_def length_dropWhile_le)

lemma skip_ws_Cons_length: "skip_ws s = c # cs \<Longrightarrow> length cs < length s"
  using skip_ws_length [of s] by simp

lemma emit_Some: "emit out r = Some (t, rest) \<longleftrightarrow> (\<exists>t'. r = Some (t', rest) \<and> t = out @ t')"
  by (cases r) (auto simp: emit_def)

lemma parse_str_shorter: "parse_str s = Some (t, r) \<Longrightarrow> length r < length s"
proof (induction s arbitrary: t r rule: parse_str.induct)
  case 1
  then show ?case by simp
next
  case (2 c cs)
  note eq = "2.prems" [unfolded parse_str.simps(2)]
  consider (close) "c = CHR 0x22" | (esc) "c = CHR 0x5C" | (low) "c \<noteq> CHR 0x22" "c \<noteq> CHR 0x5C"
    "(of_char c :: nat) < 32" | (byte) "c \<noteq> CHR 0x22" "c \<noteq> CHR 0x5C" "\<not> (of_char c :: nat) < 32"
    by blast
  then show ?case
  proof cases
    case close
    with eq show ?thesis by simp
  next
    case esc
    then have "c \<noteq> CHR 0x22" by simp
    with esc eq "2.IH"(1,2) show ?thesis
      by (fastforce simp: emit_Some split: list.splits if_splits option.splits
          dest: unescape_u_shorter)
  next
    case low
    with eq show ?thesis by simp
  next
    case byte
    with eq "2.IH"(3,4) show ?thesis
      by (fastforce simp: emit_Some Let_def split: if_splits)
  qed
qed

lemma take_digits_eq: "take_digits s = (ds, r) \<Longrightarrow> length s = length ds + length r"
  by (auto simp: take_digits_def) (metis length_append takeWhile_dropWhile_id)

lemma parse_fraction_le: "parse_fraction s = Some (f, r) \<Longrightarrow> length r \<le> length s"
  by (auto simp: parse_fraction_def Let_def split: list.splits if_splits prod.splits
      dest: take_digits_eq)

lemma parse_exponent_le: "parse_exponent s = Some (f, r) \<Longrightarrow> length r \<le> length s"
  by (fastforce simp: parse_exponent_def Let_def split: list.splits if_splits prod.splits
      dest: take_digits_eq)

lemma parse_number_shorter:
  assumes "parse_number s = Some (t, r)"
  shows "length r < length s"
proof -
  define neg where "neg = (if HasPrefix s ''-'' then ''-'' else [])"
  obtain ds r0 where td: "take_digits (drop (length neg) s) = (ds, r0)" by fastforce
  obtain ip r1 where ip: "(if HasPrefix ds ''0'' then (''0'', drop 1 ds @ r0) else (ds, r0)) = (ip, r1)"
    by fastforce
  from assms td ip have ds: "ds \<noteq> []"
    and rest: "\<exists>f r2 ex. parse_fraction r1 = Some (f, r2) \<and> parse_exponent r2 = Some (ex, r)"
    by (auto simp: parse_number_def neg_def Let_def split: if_splits option.splits)
  have "length r \<le> length r1"
    using rest by (auto dest!: parse_fraction_le parse_exponent_le)
  moreover have "length r1 < length ds + length r0"
    using ip ds by (auto split: if_splits)
  moreover have "length ds + length r0 \<le> length s"
    using take_digits_eq [OF td] by simp
  ultimately show ?thesis by linarith
qed

lemma parse_shorter:
  "parse_value n num s = Some (v, r) \<Longrightarrow> length r < length s"
  "parse_elems n num s = Some (vs, r) \<Longrightarrow> length r < length s"
  "parse_members n num m s = Some (m', r) \<Longrightarrow> length r < length s"
proof (induction n num s and n num s and n num m s arbitrary: v r and vs r and m' r
    rule: parse_value_parse_elems_parse_members.induct)
  case (2 n num s)
  show ?case
  proof (cases "skip_ws s")
    case Nil
    with "2.prems" show ?thesis by simp
  next
    case (Cons c cs)
    then have len: "length cs < length s" by (rule skip_ws_Cons_length)
    have tl: "length (tl (skip_ws cs)) \<le> length cs" using skip_ws_length [of cs] by simp
    show ?thesis
      using "2.prems" Cons len tl "2.IH"
      by (auto split: if_splits dest!: parse_str_shorter parse_number_shorter)
         (meson less_trans)+
  qed
next
  case (4 n num s)
  then show ?case
    by (fastforce split: option.splits prod.splits list.splits if_splits dest: skip_ws_Cons_length)
next
  case (6 n num m s)
  then show ?case
    by (fastforce split: option.splits prod.splits list.splits if_splits
        dest: skip_ws_Cons_length parse_str_shorter)
qed auto

text \<open>Any two amounts of fuel above the bound give the same result.\<close>

lemma parse_stable:
  "(2 * length s + 1 \<le> n \<longrightarrow> 2 * length s + 1 \<le> k \<longrightarrow> parse_value n num s = parse_value k num s) \<and>
   (2 * length s + 2 \<le> n \<longrightarrow> 2 * length s + 2 \<le> k \<longrightarrow> parse_elems n num s = parse_elems k num s) \<and>
   (2 * length s + 1 \<le> n \<longrightarrow> 2 * length s + 1 \<le> k \<longrightarrow> parse_members n num m s = parse_members k num m s)"
proof (induction n arbitrary: k s m)
  case 0
  then show ?case by simp
next
  case (Suc n)
  show ?case
  proof (cases k)
    case 0
    then show ?thesis by simp
  next
    case k: (Suc k')
    have IHv: "parse_value n num x = parse_value k' num x"
      if "2 * length x + 1 \<le> n" "2 * length x + 1 \<le> k'" for x
      using Suc.IH [of x k'] that by blast
    have IHe: "parse_elems n num x = parse_elems k' num x"
      if "2 * length x + 2 \<le> n" "2 * length x + 2 \<le> k'" for x
      using Suc.IH [of x k'] that by blast
    have IHm: "parse_members n num m' x = parse_members k' num m' x"
      if "2 * length x + 1 \<le> n" "2 * length x + 1 \<le> k'" for x m'
      using Suc.IH [of x k' m'] that by blast
    have v: "parse_value (Suc n) num s = parse_value (Suc k') num s"
      if "2 * length s + 1 \<le> Suc n" "2 * length s + 1 \<le> Suc k'"
    proof (cases "skip_ws s")
      case Nil
      then show ?thesis by simp
    next
      case (Cons c cs)
      then have "length cs < length s" by (rule skip_ws_Cons_length)
      then have "parse_members n num [] cs = parse_members k' num [] cs"
        "parse_elems n num cs = parse_elems k' num cs"
        using that by (auto intro: IHm IHe)
      with Cons show ?thesis by simp
    qed
    have e: "parse_elems (Suc n) num s = parse_elems (Suc k') num s"
      if "2 * length s + 2 \<le> Suc n" "2 * length s + 2 \<le> Suc k'"
    proof -
      have "parse_value n num s = parse_value k' num s" using that by (intro IHv) auto
      moreover have "parse_elems n num cs = parse_elems k' num cs"
        if "parse_value n num s = Some (x, r)" "skip_ws r = c # cs" for x r c cs
        using parse_shorter(1) [OF that(1)] skip_ws_Cons_length [OF that(2)]
          \<open>2 * length s + 2 \<le> Suc n\<close> \<open>2 * length s + 2 \<le> Suc k'\<close> by (intro IHe) auto
      ultimately show ?thesis by (auto split: option.split prod.split list.split)
    qed
    have mm: "parse_members (Suc n) num m s = parse_members (Suc k') num m s"
      if b: "2 * length s + 1 \<le> Suc n" "2 * length s + 1 \<le> Suc k'"
    proof (cases "skip_ws s")
      case Nil
      then show ?thesis by simp
    next
      case (Cons q s1)
      then have l1: "length s1 < length s" by (rule skip_ws_Cons_length)
      have "parse_value n num s2 = parse_value k' num s2"
        if "parse_str s1 = Some (kk, r1)" "skip_ws r1 = cc # s2" for kk r1 cc s2
        using parse_str_shorter [OF that(1)] skip_ws_Cons_length [OF that(2)] l1 b
        by (intro IHv) auto
      moreover have "parse_members n num m' cs = parse_members k' num m' cs"
        if "parse_str s1 = Some (kk, r1)" "skip_ws r1 = cc # s2"
          "parse_value n num s2 = Some (x, r2)" "skip_ws r2 = c # cs" for kk r1 cc s2 x r2 c cs m'
        using parse_str_shorter [OF that(1)] skip_ws_Cons_length [OF that(2)]
          parse_shorter(1) [OF that(3)] skip_ws_Cons_length [OF that(4)] l1 b
        by (intro IHm) auto
      ultimately show ?thesis using Cons
        by (auto split: option.split prod.split list.split)
    qed
    show ?thesis using v e mm k by blast
  qed
qed

lemma parse_value_enough:
  "2 * length s + 2 \<le> n \<Longrightarrow> parse_value n num s = json_parse num s"
  using parse_stable [of s n "2 * length s + 2" num "[]"] by (simp add: json_parse_def)

section \<open>Decoding into a map\<close>

text \<open>
  The target is a \<^verbatim>\<open>map[string]interface{}\<close> that starts out nil: JSON \<^verbatim>\<open>null\<close> leaves it
  nil (\<open>None\<close>) without an error, an object fills it, anything else is an error.
\<close>

definition decode_error :: go_error where
  "decode_error = ErrorString ''invalid character in JSON input''"

definition type_error :: go_error where
  "type_error = ErrorString ''json: cannot unmarshal value into Go value of type map[string]interface {}''"

definition as_map :: "gval \<Rightarrow> gmap option result" where
  "as_map v = (case v of GNil \<Rightarrow> Inr None | GMap m \<Rightarrow> Inr (Some m) | _ \<Rightarrow> Inl type_error)"

text \<open>\<^verbatim>\<open>Decoder.Decode\<close> with \<^verbatim>\<open>UseNumber\<close>: what follows the first value is not read.\<close>

definition Decode_UseNumber :: "string \<Rightarrow> gmap option result" where
  "Decode_UseNumber s =
     (case json_parse True s of None \<Rightarrow> Inl decode_error | Some (v, _) \<Rightarrow> as_map v)"

fun floats_ok :: "gval \<Rightarrow> bool" where
  "floats_ok (GFloat s) = float64_in_range s"
| "floats_ok (GSlice vs) = list_all floats_ok vs"
| "floats_ok (GMap m) = list_all (\<lambda>kv. floats_ok (snd kv)) m"
| "floats_ok _ = True"

text \<open>\<^verbatim>\<open>json.Unmarshal\<close>: the whole text must be one value, and every number a \<^verbatim>\<open>float64\<close>.\<close>

definition Unmarshal_map :: "string \<Rightarrow> gmap option result" where
  "Unmarshal_map s =
     (case json_parse False s of
        None \<Rightarrow> Inl decode_error
      | Some (v, rest) \<Rightarrow>
          if skip_ws rest \<noteq> [] then Inl decode_error
          else if \<not> floats_ok v then Inl type_error
          else as_map v)"

section \<open>Encoding\<close>

definition hex_digit :: "nat \<Rightarrow> char" where
  "hex_digit n = (if n < 10 then char_of (48 + n) else char_of (87 + n))"

definition backslash :: char where
  "backslash = CHR 0x5C"

definition enc_byte :: "char \<Rightarrow> string" where
  "enc_byte c =
     (let b = (of_char c :: nat) in
      if c = CHR 0x22 \<or> c = backslash then [backslash, c]
      else if b = 10 then [backslash, CHR ''n'']
      else if b = 13 then [backslash, CHR ''r'']
      else if b = 9 then [backslash, CHR ''t'']
      else if b < 32 \<or> c = CHR ''<'' \<or> c = CHR ''>'' \<or> c = CHR ''&'' then
        backslash # ''u00'' @ [hex_digit (b div 16), hex_digit (b mod 16)]
      else [c])"

function enc_str :: "string \<Rightarrow> string" where
  "enc_str [] = []"
| "enc_str (c # cs) =
     (if (of_char c :: nat) < 128 then enc_byte c @ enc_str cs
      else (let n = utf8_len (c # cs) in
            if n = 0 then backslash # ''ufffd'' @ enc_str cs
            else (let r = take n (c # cs) in
                  (if r = bytes [226, 128, 168] then backslash # ''u2028''
                   else if r = bytes [226, 128, 169] then backslash # ''u2029'' else r)
                  @ enc_str (drop (n - 1) cs))))"
  by pat_completeness auto
termination
  by (relation "measure length") auto

declare enc_str.simps(2) [simp del]

definition quote_json :: "string \<Rightarrow> string" where
  "quote_json s = [CHR 0x22] @ enc_str s @ [CHR 0x22]"

fun join_with :: "string \<Rightarrow> string list \<Rightarrow> string" where
  "join_with sep [] = []"
| "join_with sep [w] = w"
| "join_with sep (w # ws) = w @ sep @ join_with sep ws"

text \<open>
  \<^verbatim>\<open>Encoder.Encode\<close> of a map: keys in order, no white space, a final newline. The shortest
  decimal text of a \<^verbatim>\<open>float64\<close>, which needs the binary rounding, is the argument
  \<open>fmt_float\<close>.
\<close>

fun json_enc :: "(string \<Rightarrow> string) \<Rightarrow> gval \<Rightarrow> string" where
  "json_enc fmt_float GNil = ''null''"
| "json_enc fmt_float (GBool b) = (if b then ''true'' else ''false'')"
| "json_enc fmt_float (GNumber s) = s"
| "json_enc fmt_float (GFloat s) = fmt_float s"
| "json_enc fmt_float (GInt i) = show_int (sint i)"
| "json_enc fmt_float (GString s) = quote_json s"
| "json_enc fmt_float (GSlice vs) = ''['' @ join_with '','' (map (json_enc fmt_float) vs) @ '']''"
| "json_enc fmt_float (GMap m) =
     ''{'' @ join_with '',''
       (map (\<lambda>(k, t). quote_json k @ '':'' @ t)
         (sort_key fst (map (\<lambda>kv. (fst kv, json_enc fmt_float (snd kv))) m))) @ ''}''"

definition Encode_map :: "(string \<Rightarrow> string) \<Rightarrow> gmap \<Rightarrow> string" where
  "Encode_map fmt_float m = json_enc fmt_float (GMap m) @ [CHR 0x0A]"

text \<open>The text does not depend on the order of the entries.\<close>

lemma sort_key_fst_perm:
  fixes xs ys :: "(string \<times> 'a) list"
  assumes "mset xs = mset ys" and "distinct (map fst xs)"
  shows "sort_key fst xs = sort_key fst ys"
proof -
  have "inj_on fst (set xs)" using assms(2) by (simp add: distinct_map)
  with assms(1) show ?thesis by (intro sort_key_inj_key_eq) simp_all
qed

lemma Encode_map_order:
  assumes "mset m = mset m'" and "distinct (map fst m)"
  shows "Encode_map fmt_float m = Encode_map fmt_float m'"
proof -
  let ?f = "\<lambda>kv. (fst kv, json_enc fmt_float (snd kv))"
  have "mset (map ?f m) = mset (map ?f m')" using assms(1) by simp
  moreover have "distinct (map fst (map ?f m))" using assms(2) by (simp add: comp_def)
  ultimately have "sort_key fst (map ?f m) = sort_key fst (map ?f m')"
    by (rule sort_key_fst_perm)
  then show ?thesis by (simp add: Encode_map_def)
qed

end
