(* ===== verification/Converters.thy ===== *)
theory Converters
  imports Telemetry Go_Json
begin

text \<open>
  Conversion of monitor configurations (\<^verbatim>\<open>agents/converters.go\<close>): JSON as the Ambassador
  sends it to the TOML that telegraf reads, and the key normalisation of the other agents.
  Third-party code is an argument: the case conversions of \<^verbatim>\<open>strcase\<close>, the TOML encoder,
  and, since Go ranges over a map in any order, the order in which a loop sees the entries.
\<close>

record libs =
  ToSnake :: "string \<Rightarrow> string"
  ToKebab :: "string \<Rightarrow> string"
  toml_Encode :: "gval \<Rightarrow> string result"
  range_order :: "gmap \<Rightarrow> gmap"
  format_float :: "string \<Rightarrow> string"

definition range_ok :: "libs \<Rightarrow> bool" where
  "range_ok lb \<longleftrightarrow> (\<forall>m. mset (range_order lb m) = mset m)"

datatype Conversion = ConversionNone | ConversionJsonToTelegrafToml

definition normalizeValue :: "gval \<Rightarrow> gval" where
  "normalizeValue v =
     (case v of
        GNumber s \<Rightarrow>
          (case ParseInt s of
             Some i \<Rightarrow> GInt (word_of_int i)
           | None \<Rightarrow> if float64_in_range s then GFloat s else GString s)
      | _ \<Rightarrow> v)"

text \<open>A store into a Go map, then the whole loop: later entries overwrite earlier ones.\<close>

definition store_all :: "(string \<Rightarrow> string) \<Rightarrow> (gval \<Rightarrow> gval) \<Rightarrow> gmap \<Rightarrow> gmap" where
  "store_all key val m = fold (\<lambda>(k, v) n. AList.update (key k) (val v) n) m []"

definition normalizeKeysAndValues :: "libs \<Rightarrow> gmap \<Rightarrow> gmap" where
  "normalizeKeysAndValues lb config = store_all (ToSnake lb) normalizeValue (range_order lb config)"

definition normalizeKeysToKebabCase :: "libs \<Rightarrow> gmap \<Rightarrow> gmap" where
  "normalizeKeysToKebabCase lb content = store_all (ToKebab lb) id (range_order lb content)"

definition labels_value :: "(string \<times> string) list \<Rightarrow> gval" where
  "labels_value ls = GMap (map (\<lambda>(k, v). (k, GString v)) ls)"

definition finalPluginConfig :: "libs \<Rightarrow> gmap \<Rightarrow> (string \<times> string) list \<Rightarrow> int64 \<Rightarrow> gmap" where
  "finalPluginConfig lb flatMap extraLabels interval =
     (let base = normalizeKeysAndValues lb flatMap;
          tagged = (if extraLabels \<noteq> [] then AList.update ''tags'' (labels_value extraLabels) base
                    else base)
      in if interval \<noteq> 0
         then AList.update ''interval'' (GString (Duration_String (duration_seconds interval))) tagged
         else tagged)"

definition ConvertJsonToTelegrafToml ::
  "libs \<Rightarrow> string \<Rightarrow> (string \<times> string) list \<Rightarrow> int64 \<Rightarrow> string result" where
  "ConvertJsonToTelegrafToml lb configJson extraLabels interval =
     (case Decode_UseNumber configJson of
        Inl e \<Rightarrow> Inl (Wrapped ''unable to decode raw config json'' e)
      | Inr decoded \<Rightarrow>
          (let flatMap = (case decoded of None \<Rightarrow> [] | Some m \<Rightarrow> m) in
           case map_of flatMap ''type'' of
             None \<Rightarrow> Inl (ErrorString ''missing required 'type' discriminator'')
           | Some typeVal \<Rightarrow>
               (let flatMap = AList.delete ''type'' flatMap in
                case typeVal of
                  GString pluginName \<Rightarrow>
                    if pluginName = [] then Inl (ErrorString '''type' needs to be non-empty'')
                    else wrap_result ''unable to encode config as toml''
                      (toml_Encode lb
                        (GMap [(''inputs'',
                          GMap [(pluginName,
                            GSlice [GMap (finalPluginConfig lb flatMap extraLabels interval)])])]))
                | _ \<Rightarrow> Inl (ErrorString '''type' needs to be a string''))))"

section \<open>Stores into a map\<close>

lemma distinct_map_of_mset_eq:
  assumes "mset xs = mset ys" and "distinct (map fst xs)"
  shows "map_of xs = map_of ys"
proof -
  have "distinct (map fst ys)"
    using assms by (metis mset_map mset_eq_imp_distinct_iff)
  moreover have "set xs = set ys" using assms(1) by (rule mset_eq_setD)
  ultimately show ?thesis using assms(2) by (simp add: map_of_inject_set)
qed

definition target_entries :: "(string \<Rightarrow> string) \<Rightarrow> (gval \<Rightarrow> gval) \<Rightarrow> gmap \<Rightarrow> gmap" where
  "target_entries key val m = map (\<lambda>kv. (key (fst kv), val (snd kv))) m"

lemma map_of_store_fold:
  "map_of (fold (\<lambda>(k, v) n. AList.update (key k) (val v) n) m n) =
   map_of n ++ map_of (rev (target_entries key val m))"
  by (induction m arbitrary: n)
     (auto simp: target_entries_def update_conv' map_add_def fun_eq_iff split: option.split)

lemma map_of_store: "map_of (store_all key val m) = map_of (rev (target_entries key val m))"
  by (simp add: store_all_def map_of_store_fold)

lemma distinct_store_fold:
  "distinct (map fst n) \<Longrightarrow> distinct (map fst (fold (\<lambda>(k, v) n. AList.update (key k) (val v) n) m n))"
  by (induction m arbitrary: n) (auto simp: distinct_update)

lemma distinct_store_all: "distinct (map fst (store_all key val m))"
  by (simp add: store_all_def distinct_store_fold)

text \<open>With distinct target keys the order of the entries does not matter.\<close>

lemma distinct_target: "distinct (map (key \<circ> fst) m) \<Longrightarrow> distinct (map fst (target_entries key val m))"
  by (simp add: target_entries_def comp_def)

lemma map_of_store_all:
  assumes "distinct (map (key \<circ> fst) m)" and "(k, v) \<in> set m"
  shows "map_of (store_all key val m) (key k) = Some (val v)"
proof -
  have "(key k, val v) \<in> set (rev (target_entries key val m))"
    using assms(2) by (force simp: target_entries_def)
  then show ?thesis
    using distinct_target [OF assms(1)] by (simp add: map_of_store map_of_is_SomeI rev_map [symmetric])
qed

lemma dom_store_all: "dom (map_of (store_all key val m)) = (key \<circ> fst) ` set m"
  by (force simp: map_of_store dom_map_of_conv_image_fst target_entries_def)

lemma store_all_order:
  assumes "mset m = mset m'" and "distinct (map (key \<circ> fst) m)"
  shows "map_of (store_all key val m) = map_of (store_all key val m')"
proof -
  have "mset (rev (target_entries key val m)) = mset (rev (target_entries key val m'))"
    using assms(1) by (simp add: target_entries_def)
  moreover have "distinct (map fst (rev (target_entries key val m)))"
    using distinct_target [OF assms(2)] by (simp add: rev_map [symmetric])
  ultimately show ?thesis
    unfolding map_of_store by (metis distinct_map_of_mset_eq)
qed

lemma range_orderD:
  "range_ok lb \<Longrightarrow> mset (range_order lb m) = mset m"
  "range_ok lb \<Longrightarrow> set (range_order lb m) = set m"
  by (auto simp: range_ok_def dest: mset_eq_setD)

lemma distinct_range_order:
  "range_ok lb \<Longrightarrow> distinct (map f m) \<Longrightarrow> distinct (map f (range_order lb m))"
  by (metis mset_map mset_eq_imp_distinct_iff range_orderD(1))

lemma map_of_normalized:
  assumes "range_ok lb" and "distinct (map (ToSnake lb \<circ> fst) m)" and "(k, v) \<in> set m"
  shows "map_of (normalizeKeysAndValues lb m) (ToSnake lb k) = Some (normalizeValue v)"
  unfolding normalizeKeysAndValues_def
  using assms by (intro map_of_store_all) (simp_all add: distinct_range_order range_orderD)

lemma dom_normalized:
  "range_ok lb \<Longrightarrow> dom (map_of (normalizeKeysAndValues lb m)) = (ToSnake lb \<circ> fst) ` set m"
  by (simp add: normalizeKeysAndValues_def dom_store_all range_orderD)

lemma map_of_finalPluginConfig:
  "map_of (finalPluginConfig lb m ls iv) k =
     (if k = ''interval'' \<and> iv \<noteq> 0 then Some (GString (Duration_String (duration_seconds iv)))
      else if k = ''tags'' \<and> ls \<noteq> [] then Some (labels_value ls)
      else map_of (normalizeKeysAndValues lb m) k)"
  by (simp add: finalPluginConfig_def Let_def update_conv')

section \<open>What the conversion produces\<close>

definition telegraf_tree :: "string \<Rightarrow> gmap \<Rightarrow> gval" where
  "telegraf_tree plugin cfg = GMap [(''inputs'', GMap [(plugin, GSlice [GMap cfg])])]"


text \<open>A library that changes no key and prints only the plugin's name, to evaluate the model.\<close>

definition plain_libs :: libs where
  "plain_libs =
     \<lparr>ToSnake = id, ToKebab = id,
      toml_Encode = (\<lambda>v. case v of GMap [(_, GMap [(p, _)])] \<Rightarrow> Inr (''[inputs]'' @ p) | _ \<Rightarrow> Inr []),
      range_order = id, format_float = id\<rparr>"

lemma plain_libs_range_ok: "range_ok plain_libs"
  by (simp add: range_ok_def plain_libs_def)

definition mem_json :: string where
  "mem_json = ''{'' @ quote_json ''type'' @ '':'' @ quote_json ''mem'' @ '','' @ quote_json ''n'' @ '':5}''"

lemma mem_json_decoded: "Decode_UseNumber mem_json = Inr (Some [(''type'', GString ''mem''), (''n'', GNumber ''5'')])"
  unfolding mem_json_def by code_simp


text \<open>
  The conversion fails exactly when the text is not a JSON object (nothing that can be a map,
  or \<^verbatim>\<open>null\<close>) with a non-empty string under \<^verbatim>\<open>type\<close>, or the encoder fails; on every other input
  it returns the encoder's text.
\<close>

lemma ConvertJsonToTelegrafToml_total:
  "(\<exists>out. ConvertJsonToTelegrafToml lb json ls iv = Inr out) \<longleftrightarrow>
   (\<exists>m plugin out. Decode_UseNumber json = Inr (Some m) \<and> map_of m ''type'' = Some (GString plugin) \<and>
      plugin \<noteq> [] \<and>
      toml_Encode lb (telegraf_tree plugin (finalPluginConfig lb (AList.delete ''type'' m) ls iv)) = Inr out)"
proof (cases "Decode_UseNumber json")
  case (Inl e)
  then show ?thesis by (simp add: ConvertJsonToTelegrafToml_def)
next
  case (Inr d)
  show ?thesis
  proof (cases d)
    case None
    with Inr show ?thesis by (simp add: ConvertJsonToTelegrafToml_def)
  next
    case (Some m)
    show ?thesis
    proof (cases "map_of m ''type''")
      case None
      with Inr Some show ?thesis by (simp add: ConvertJsonToTelegrafToml_def)
    next
      case (Some v)
      with Inr \<open>d = Some m\<close> show ?thesis
        by (cases v) (auto simp: ConvertJsonToTelegrafToml_def telegraf_tree_def Let_def)
    qed
  qed
qed



text \<open>Without that condition it does: which of two colliding keys survives is the order's choice.\<close>

lemma colliding_keys_depend_on_order:
  defines "lb \<equiv> plain_libs\<lparr>ToSnake := (\<lambda>_. ''a_b'')\<rparr>" and "m \<equiv> [(''aB'', GBool True), (''a_b'', GBool False)]"
  shows "map_of (finalPluginConfig lb m [] 0) ''a_b'' = Some (GBool False)"
    and "map_of (finalPluginConfig (lb\<lparr>range_order := rev\<rparr>) m [] 0) ''a_b'' = Some (GBool True)"
  by (simp_all add: lb_def m_def finalPluginConfig_def normalizeKeysAndValues_def store_all_def
      plain_libs_def normalizeValue_def)

text \<open>
  A JSON number that is an integer of 64 bits becomes exactly that integer, another number in
  the range of a \<^verbatim>\<open>float64\<close> a float, and the rest stay text: no conversion wraps around.
\<close>

lemma normalizeValue_number:
  "(ParseInt s = Some i \<longleftrightarrow> (\<exists>w. normalizeValue (GNumber s) = GInt w \<and> sint w = i)) \<and>
   (ParseInt s = None \<longleftrightarrow> normalizeValue (GNumber s) \<in> {GFloat s, GString s}) \<and>
   (normalizeValue (GNumber s) = GFloat s \<longleftrightarrow> ParseInt s = None \<and> float64_in_range s)"
proof -
  have "sint (word_of_int j :: int64) = j" if "ParseInt s = Some j" for j
    using ParseInt_range [OF that] by (simp add: sint_sbintrunc' signed_take_bit_int_eq_self)
  then show ?thesis by (auto simp: normalizeValue_def split: option.split)
qed

end
