(* ===== verification/Agent_Files.thy ===== *)
theory Agent_Files
  imports Go_Files Converters
begin

text \<open>
  The helpers shared by the agent runners (\<^verbatim>\<open>agents/agents.go\<close>): installing an agent from an
  archive, applying one configuration operation to a file, purging the configurations and
  deciding whether an agent can run; with them, the contract of a configuration store.
\<close>

section \<open>Names\<close>

definition agentsSubpath :: string where "agentsSubpath = ''agents''"
definition configsDirSubpath :: string where "configsDirSubpath = ''config.d''"
definition currentVerLink :: string where "currentVerLink = ''CURRENT''"
definition binSubpath :: string where "binSubpath = ''bin''"

text \<open>\<^verbatim>\<open>filepath.Join\<close> of three plain names.\<close>

definition buildRelativeExePath :: "string \<Rightarrow> string" where
  "buildRelativeExePath exeName = currentVerLink @ ''/'' @ binSubpath @ ''/'' @ exeName"

text \<open>A Go panic, which nothing in the program recovers, ends the process.\<close>

datatype 'a flow = Ret 'a | Panics

definition IsNoAppliedConfigs :: "go_error option \<Rightarrow> bool" where
  "IsNoAppliedConfigs err = (err = Some NoAppliedConfigsError)"

section \<open>Files\<close>

definition fileExists :: "faults \<Rightarrow> fs \<Rightarrow> path \<Rightarrow> bool" where
  "fileExists flt fs file =
     (case os_Stat flt fs file of
        Inl err \<Rightarrow> if os_IsNotExist err then False else False
      | Inr _ \<Rightarrow> True)"

text \<open>
  An archive as the reader of \<^verbatim>\<open>archive/tar\<close> yields it: its entries, whether the content of
  each could be read to its end, and whether the stream ends properly or with an error.
\<close>

record tar_entry =
  te_Name :: string
  te_content :: string
  te_readable :: bool

datatype download = GetFails go_error | NotGzip go_error | TarGz "tar_entry list" bool

text \<open>
  The loop over the entries. An error other than the end of the archive leaves \<^verbatim>\<open>header\<close> nil,
  and the next access to it panics. The flag is \<^verbatim>\<open>processedExe\<close>.
\<close>

fun extract_entries ::
  "faults \<Rightarrow> path \<Rightarrow> string \<Rightarrow> tar_entry list \<Rightarrow> bool \<Rightarrow> bool \<Rightarrow> fs \<Rightarrow> bool flow \<times> fs" where
  "extract_entries flt exeOut exePath [] eof processedExe fs =
     (if eof then Ret processedExe else Panics, fs)"
| "extract_entries flt exeOut exePath (e # es) eof processedExe fs =
     (if te_Name e = exePath then
        (case os_OpenFile flt fs exeOut of
           (Inl _, fs) \<Rightarrow> extract_entries flt exeOut exePath es eof processedExe fs
         | (Inr file, fs) \<Rightarrow>
             (case file_Write flt fs file (te_content e) of
                (err, fs) \<Rightarrow>
                  extract_entries flt exeOut exePath es eof
                    (processedExe \<or> (err = None \<and> te_readable e)) fs))
      else extract_entries flt exeOut exePath es eof processedExe fs)"

definition downloadExtractTarGz ::
  "faults \<Rightarrow> (string \<Rightarrow> download) \<Rightarrow> path \<Rightarrow> string \<Rightarrow> string \<Rightarrow> fs \<Rightarrow> go_error option flow \<times> fs" where
  "downloadExtractTarGz flt http_Get outputPath url exePath fs =
     (case http_Get url of
        GetFails err \<Rightarrow> (Ret (Some (Wrapped ''failed to download agent'' err)), fs)
      | NotGzip err \<Rightarrow> (Ret (Some (Wrapped ''unable to ungzip agent download'' err)), fs)
      | TarGz entries eof \<Rightarrow>
          (let exeFilename = path_File exePath;
               binOutPath = Join outputPath binSubpath
           in case os_Mkdir flt fs binOutPath of
                (Some err, fs) \<Rightarrow> (Ret (Some (Wrapped ''unable to create bin directory'' err)), fs)
              | (None, fs) \<Rightarrow>
                  (case extract_entries flt (Join binOutPath exeFilename) exePath entries eof False fs of
                     (Panics, fs) \<Rightarrow> (Panics, fs)
                   | (Ret processedExe, fs) \<Rightarrow>
                       (Ret (if processedExe then None
                             else Some (ErrorString ''failed to find/process agent executable'')), fs))))"

text \<open>What a conversion makes of an operation's content; no value when it fails.\<close>

definition convert_content :: "libs \<Rightarrow> Conversion \<Rightarrow> ConfigurationOp \<Rightarrow> string option" where
  "convert_content lb conversion op =
     (case conversion of
        ConversionNone \<Rightarrow> Some (op_content op)
      | ConversionJsonToTelegrafToml \<Rightarrow>
          (case ConvertJsonToTelegrafToml lb (op_content op) (op_extraLabels op) (op_interval op) of
             Inl _ \<Rightarrow> None | Inr toml \<Rightarrow> Some toml))"

definition handleContentConfigurationOp ::
  "faults \<Rightarrow> libs \<Rightarrow> ConfigurationOp \<Rightarrow> path \<Rightarrow> Conversion \<Rightarrow> fs \<Rightarrow> bool \<times> fs" where
  "handleContentConfigurationOp flt lb op configInstancePath conversion fs =
     (let write =
        (case convert_content lb conversion op of
           None \<Rightarrow> (False, fs)
         | Some finalConfig \<Rightarrow>
             (case ioutil_WriteFile flt fs configInstancePath finalConfig of
                (Some _, fs) \<Rightarrow> (False, fs)
              | (None, fs) \<Rightarrow> (True, fs)))
      in case op_type op of
           CREATE \<Rightarrow> write
         | MODIFY \<Rightarrow> write
         | REMOVE \<Rightarrow>
             (case os_Remove flt fs configInstancePath of
                (Some err, fs) \<Rightarrow> (os_IsNotExist err, fs)
              | (None, fs) \<Rightarrow> (True, fs))
         | OtherOp _ \<Rightarrow> (False, fs))"

definition purgeConfigsDirectory :: "faults \<Rightarrow> path \<Rightarrow> fs \<Rightarrow> go_error option \<times> fs" where
  "purgeConfigsDirectory flt basepath fs =
     (case os_RemoveAll flt fs (Join basepath configsDirSubpath) of
        (Some err, fs) \<Rightarrow> (Some (Wrapped ''failed to purge configs directory'' err), fs)
      | (None, fs) \<Rightarrow> (None, fs))"

definition hasConfigsAndExeReady :: "faults \<Rightarrow> fs \<Rightarrow> path \<Rightarrow> string \<Rightarrow> string \<Rightarrow> bool" where
  "hasConfigsAndExeReady flt fs basepath exeName configFileExtension =
     (let configsPath = Join basepath configsDirSubpath in
      if \<not> fileExists flt fs (Join basepath currentVerLink) then False
      else if \<not> fileExists flt fs configsPath then False
      else case os_OpenDir flt fs configsPath of
          Inl _ \<Rightarrow> False
        | Inr configsDir \<Rightarrow>
            (case Readdirnames flt fs configsDir of
               Inl _ \<Rightarrow> False
             | Inr names \<Rightarrow>
                 list_ex (\<lambda>name. path_Ext name = configFileExtension) names \<and>
                 fileExists flt fs (Join basepath (buildRelativeExePath exeName))))"

definition ensureConfigsDir :: "faults \<Rightarrow> path \<Rightarrow> fs \<Rightarrow> path result \<times> fs" where
  "ensureConfigsDir flt basepath fs =
     (let configsPath = Join basepath configsDirSubpath in
      case os_MkdirAll flt fs configsPath of
        (Some err, fs) \<Rightarrow>
          (Inl (Wrapped (''failed to create configs path '' @ concat (map ((#) (CHR ''/'')) configsPath)) err), fs)
      | (None, fs) \<Rightarrow> (Inr configsPath, fs))"

definition getBoolFromConfigMap :: "gmap option \<Rightarrow> string \<Rightarrow> bool \<Rightarrow> bool" where
  "getBoolFromConfigMap configMap field defaultVal =
     (case map_of (case configMap of None \<Rightarrow> [] | Some m \<Rightarrow> m) field of
        Some (GBool boolVal) \<Rightarrow> boolVal
      | Some _ \<Rightarrow> defaultVal
      | None \<Rightarrow> defaultVal)"

definition newline :: string where "newline = [CHR 0x0A]"

definition filterLines :: "string \<Rightarrow> (string \<Rightarrow> bool) \<Rightarrow> string" where
  "filterLines content keep =
     concat (map (\<lambda>line. line @ newline) (filter keep (fst (ScanLines content))))"

definition text_lines :: "string list \<Rightarrow> string" where
  "text_lines ls = concat (map (\<lambda>l. l @ newline) ls)"

text \<open>Lines the scanner delivers as they are.\<close>

definition plain_line :: "string \<Rightarrow> bool" where
  "plain_line l \<longleftrightarrow> CHR 0x0A \<notin> set l \<and> dropCR l = l \<and> length l < maxTokenSize"

lemma ScanLines_text: "list_all plain_line ls \<Longrightarrow> ScanLines (text_lines ls) = (ls, False)"
proof (induction ls)
  case (Cons l ls)
  then show ?case
    using ScanLines_line [of l "text_lines ls"] by (simp add: text_lines_def newline_def plain_line_def)
qed (simp add: text_lines_def)

lemma filterLines_text: "list_all plain_line ls \<Longrightarrow> filterLines (text_lines ls) keep = text_lines (filter keep ls)"
  unfolding filterLines_def by (simp add: ScanLines_text) (simp add: text_lines_def)

section \<open>Extracting the executable\<close>

lemma extract_no_match:
  "\<forall>e \<in> set es. te_Name e \<noteq> exePath \<Longrightarrow>
   extract_entries flt out exePath es eof done fs = (if eof then Ret done else Panics, fs)"
  by (induction es) auto

lemma extract_before:
  "\<forall>e \<in> set es. te_Name e \<noteq> exePath \<Longrightarrow>
   extract_entries flt out exePath (es @ fs') eof done fs = extract_entries flt out exePath fs' eof done fs"
  by (induction es) auto

lemma extract_one:
  assumes "wf_fs fs" and "lookup fs d = Some Dir" and "lookup fs (d @ [x]) = None" and "plain_name x"
    and "\<forall>e' \<in> set before \<union> set after. te_Name e' \<noteq> te_Name e"
  shows "extract_entries no_faults (d @ [x]) (te_Name e) (before @ e # after) eof False fs =
     (if eof then Ret (te_readable e) else Panics,
      put (d @ [x]) (File (te_content e)) (put (d @ [x]) (File []) fs))"
proof -
  have "file_slot fs d x" using assms by (simp add: file_slot_def)
  then have "os_OpenFile no_faults fs (d @ [x]) = (Inr (d @ [x]), put (d @ [x]) (File []) fs)"
    using assms(3) by (simp add: os_OpenFile_def open_create_slot file_content_def)
  moreover have "file_Write no_faults (put (d @ [x]) (File []) fs) (d @ [x]) (te_content e) =
      (None, put (d @ [x]) (File (te_content e)) (put (d @ [x]) (File []) fs))"
    by (simp add: file_Write_def overwrite_def)
  ultimately show ?thesis
    using assms(5) by (simp add: extract_before extract_no_match del: no_faults)
qed

text \<open>The outcome of a download into a new directory.\<close>

lemma download_ok:
  assumes "wf_fs fs" and "lookup fs out = Some Dir" and "\<And>c. lookup fs (out @ [c]) = None"
    and "plain_name (path_File (te_Name e))" and "te_readable e"
    and "get url = TarGz (before @ e # after) True"
    and "\<forall>e' \<in> set before \<union> set after. te_Name e' \<noteq> te_Name e"
  obtains fs' where "downloadExtractTarGz no_faults get out url (te_Name e) fs = (Ret None, fs')" and "wf_fs fs'"
    and "\<And>q. lookup fs' q =
      (if q = out @ [binSubpath] then Some Dir
       else if q = out @ [binSubpath, path_File (te_Name e)] then Some (File (te_content e)) else lookup fs q)"
proof -
  have pb: "plain_name binSubpath" by (simp add: plain_name_def binSubpath_def)
  let ?d = "out @ [binSubpath]" and ?x = "path_File (te_Name e)"
  define fs1 where "fs1 = put ?d Dir fs"
  have m: "os_Mkdir no_faults fs ?d = (None, fs1)"
    using assms(1-3) pb by (simp add: os_Mkdir_def create_entry_def fs1_def)
  have wf1: "wf_fs fs1" using wf_fs_put [OF assms(1,2) pb] by (simp add: fs1_def)
  have "lookup fs (?d @ [?x]) = None"
  proof (rule ccontr)
    assume "lookup fs (?d @ [?x]) \<noteq> None"
    then have "lookup fs ?d = Some Dir" using wf_fsD(1) [OF assms(1)] by blast
    with assms(3) show False by simp
  qed
  then have n: "lookup fs1 (?d @ [?x]) = None" by (simp add: fs1_def)
  have d1: "lookup fs1 ?d = Some Dir" by (simp add: fs1_def)
  define fs2 where "fs2 = put (?d @ [?x]) (File (te_content e)) (put (?d @ [?x]) (File []) fs1)"
  have x: "extract_entries no_faults (?d @ [?x]) (te_Name e) (before @ e # after) True False fs1 = (Ret True, fs2)"
    using extract_one [OF wf1 d1 n assms(4,7)] assms(5) by (simp add: fs2_def del: no_faults append_assoc)
  have "wf_fs (put (?d @ [?x]) (File []) fs1)" using wf_fs_put [OF wf1 d1 assms(4)] n by simp
  moreover have "lookup (put (?d @ [?x]) (File []) fs1) ?d = Some Dir" using d1 by simp
  ultimately have wf2: "wf_fs fs2"
    using wf_fs_put [of "put (?d @ [?x]) (File []) fs1" ?d ?x] assms(4) by (simp add: fs2_def)
  show ?thesis
  proof (rule that [OF _ wf2])
    show "downloadExtractTarGz no_faults get out url (te_Name e) fs = (Ret None, fs2)"
      using m x pb assms(4,6) by (simp add: downloadExtractTarGz_def del: no_faults)
    show "\<And>q. lookup fs2 q =
      (if q = out @ [binSubpath] then Some Dir
       else if q = out @ [binSubpath, ?x] then Some (File (te_content e)) else lookup fs q)"
      by (auto simp: fs2_def fs1_def)
  qed
qed

text \<open>Without the executable in the archive the download is an error.\<close>

definition no_executable :: "download \<Rightarrow> string \<Rightarrow> bool" where
  "no_executable dl exePath \<longleftrightarrow>
     (case dl of GetFails _ \<Rightarrow> True | NotGzip _ \<Rightarrow> True
      | TarGz es eof \<Rightarrow> eof \<and> (\<forall>e \<in> set es. te_Name e \<noteq> exePath))"

lemma download_fails:
  assumes "wf_fs fs" and "lookup fs out = Some Dir" and "\<And>c. lookup fs (out @ [c]) = None"
    and "no_executable (get url) exePath"
  obtains err fs' where "downloadExtractTarGz no_faults get out url exePath fs = (Ret (Some err), fs')"
    and "wf_fs fs'" and "\<And>q. \<not> prefix out q \<or> q = out \<Longrightarrow> lookup fs' q = lookup fs q"
proof -
  have pb: "plain_name binSubpath" by (simp add: plain_name_def binSubpath_def)
  have wf1: "wf_fs (put (out @ [binSubpath]) Dir fs)" using wf_fs_put [OF assms(1,2) pb] by simp
  have m: "os_Mkdir no_faults fs (out @ [binSubpath]) = (None, put (out @ [binSubpath]) Dir fs)"
    using assms(1-3) pb by (simp add: os_Mkdir_def create_entry_def)
  show ?thesis
  proof (cases "get url")
    case (TarGz es eof)
    then have "extract_entries no_faults (Join (out @ [binSubpath]) (path_File exePath)) exePath es eof False
        (put (out @ [binSubpath]) Dir fs) = (Ret False, put (out @ [binSubpath]) Dir fs)"
      using assms(4) by (simp add: no_executable_def extract_no_match)
    then have "downloadExtractTarGz no_faults get out url exePath fs =
        (Ret (Some (ErrorString ''failed to find/process agent executable'')), put (out @ [binSubpath]) Dir fs)"
      using m pb TarGz by (simp add: downloadExtractTarGz_def del: no_faults)
    then show ?thesis by (rule that) (use wf1 in auto)
  qed (use that assms(1) in \<open>simp_all add: downloadExtractTarGz_def\<close>)
qed

text \<open>Whatever the archive holds and however the extraction ends, only the new directory changes.\<close>

lemma path_File_no_slash: "CHR ''/'' \<notin> set (path_File s)"
  using split_slash_no_slash [of s] by (simp add: path_File_def list_all_iff)

lemma Join_name:
  assumes "CHR ''/'' \<notin> set x"
  shows "plain_name x \<and> Join p x = p @ [x] \<or> Join p x = p \<or> Join p x = butlast p"
proof (cases "plain_name x")
  case False
  then have "x = [] \<or> x = ''.'' \<or> x = ''..''" using assms by (auto simp: plain_name_def)
  then show ?thesis by (auto simp: Join_def clean_step_def)
qed simp

lemma open_directory: "wf_fs fs \<Longrightarrow> lookup fs p = Some Dir \<Longrightarrow> \<exists>e. os_OpenFile no_faults fs p = (Inl e, fs)"
  by (simp add: os_OpenFile_def open_create_def)

lemma extract_onto_directory:
  assumes "wf_fs fs" and "lookup fs p = Some Dir"
  shows "snd (extract_entries no_faults p exe es eof b fs) = fs"
proof (induction es arbitrary: b)
  case (Cons e es)
  then show ?case using open_directory [OF assms] by (auto simp del: no_faults)
qed simp

lemma extract_into_slot:
  assumes "file_slot fs d x"
  shows "wf_fs (snd (extract_entries no_faults (d @ [x]) exe es eof b fs)) \<and>
     (q \<noteq> d @ [x] \<longrightarrow> lookup (snd (extract_entries no_faults (d @ [x]) exe es eof b fs)) q = lookup fs q)"
  using assms
proof (induction es arbitrary: b fs)
  case Nil
  then show ?case by (simp add: file_slot_def)
next
  case (Cons e es)
  have slot: "file_slot (put (d @ [x]) (File t) fs) d x" for t
    using Cons.prems wf_fs_put [of fs d x "File t"]
    by (auto simp: file_slot_def split: option.splits node.splits)
  obtain t where o: "os_OpenFile no_faults fs (d @ [x]) = (Inr (d @ [x]), put (d @ [x]) (File t) fs)"
    using open_create_slot [OF Cons.prems] by (simp add: os_OpenFile_def)
  let ?fs = "put (d @ [x]) (File t) fs"
  have w: "file_Write no_faults ?fs (d @ [x]) (te_content e) =
      (None, put (d @ [x]) (File (overwrite (te_content e) t)) ?fs)"
    by (simp add: file_Write_def)
  have slot2: "file_slot (put (d @ [x]) (File (overwrite (te_content e) t)) ?fs) d x"
    using slot [of t] wf_fs_put [of ?fs d x "File (overwrite (te_content e) t)"]
    by (auto simp: file_slot_def)
  show ?case
    using Cons.IH [OF slot2] Cons.IH [OF Cons.prems] by (simp add: o w del: no_faults)
qed

lemma download_below:
  assumes "wf_fs fs" and "lookup fs out = Some Dir" and "\<And>c. lookup fs (out @ [c]) = None"
    and "downloadExtractTarGz no_faults get out url exe fs = (res, fs')"
  shows "wf_fs fs'" and "\<not> prefix out q \<or> q = out \<Longrightarrow> lookup fs' q = lookup fs q"
proof -
  have pb: "plain_name binSubpath" by (simp add: plain_name_def binSubpath_def)
  let ?d = "out @ [binSubpath]" and ?x = "path_File exe"
  define fs1 where "fs1 = put ?d Dir fs"
  have m: "os_Mkdir no_faults fs ?d = (None, fs1)"
    using assms(1-3) pb by (simp add: os_Mkdir_def create_entry_def fs1_def)
  have wf1: "wf_fs fs1" using wf_fs_put [OF assms(1,2) pb] by (simp add: fs1_def)
  have d1: "lookup fs1 ?d = Some Dir" "lookup fs1 out = Some Dir" by (simp_all add: fs1_def assms(2))
  have "lookup fs (?d @ [c]) = None" for c
    using wf_fsD(1) [OF assms(1), of ?d c] assms(3) by (cases "lookup fs (?d @ [c])") auto
  then have n: "lookup fs1 (?d @ [c]) = None" for c by (simp add: fs1_def)
  have x: "wf_fs (snd (extract_entries no_faults (Join ?d ?x) exe es eof b fs1)) \<and>
      (\<not> prefix out q \<or> q = out \<longrightarrow> lookup (snd (extract_entries no_faults (Join ?d ?x) exe es eof b fs1)) q = lookup fs1 q)"
    for es eof b q
    using Join_name [OF path_File_no_slash, of exe ?d]
  proof (elim disjE)
    assume "plain_name ?x \<and> Join ?d ?x = ?d @ [?x]"
    moreover then have "file_slot fs1 ?d ?x" using wf1 d1 n by (simp add: file_slot_def)
    ultimately show ?thesis using extract_into_slot [of fs1 ?d ?x exe es eof b q] by auto
  next
    assume "Join ?d ?x = ?d"
    then show ?thesis using extract_onto_directory [OF wf1 d1(1)] wf1 by simp
  next
    assume "Join ?d ?x = butlast ?d"
    then show ?thesis using extract_onto_directory [OF wf1 d1(2)] wf1 by simp
  qed
  have f: "\<not> prefix out q \<or> q = out \<Longrightarrow> lookup fs1 q = lookup fs q" for q
    by (auto simp: fs1_def)
  have "wf_fs fs' \<and> (\<not> prefix out q \<or> q = out \<longrightarrow> lookup fs' q = lookup fs q)" for q
  proof (cases "get url")
    case (TarGz es eof)
    obtain r fs2 where r: "extract_entries no_faults (Join ?d ?x) exe es eof False fs1 = (r, fs2)" by fastforce
    have "fs' = fs2"
      using assms(4) TarGz m pb r by (auto simp: downloadExtractTarGz_def simp del: no_faults split: flow.splits)
    then show ?thesis using x [of es eof False q] r f by simp
  qed (use assms(1,4) in \<open>auto simp: downloadExtractTarGz_def\<close>)
  then show "wf_fs fs'" "\<not> prefix out q \<or> q = out \<Longrightarrow> lookup fs' q = lookup fs q" by blast+
qed

end
