(* ===== verification/Config_Store.thy ===== *)
theory Config_Store
  imports Agent_Files
begin

text \<open>
  Every runner keeps the configurations it is sent under their ids: telegraf in a map, the others
  in files of a directory. What an instruction's operations do to such a store is stated once, on
  a plain map, and each runner's store is an interpretation of the interface.
\<close>

section \<open>The specification\<close>

text \<open>One operation on the map from ids to contents. \<open>render\<close> is what is to be stored for the
  operation, \<open>combine\<close> how it meets the content already there.\<close>

definition config_step ::
  "(ConfigurationOp \<Rightarrow> string option) \<Rightarrow> (string \<Rightarrow> string option \<Rightarrow> string) \<Rightarrow> ConfigurationOp \<Rightarrow>
   (string \<Rightarrow> string option) \<Rightarrow> (string \<Rightarrow> string option)" where
  "config_step render combine op m =
     (let store = (case render op of None \<Rightarrow> m | Some d \<Rightarrow> m(op_id op \<mapsto> combine d (m (op_id op)))) in
      case op_type op of
        CREATE \<Rightarrow> store | MODIFY \<Rightarrow> store | REMOVE \<Rightarrow> m(op_id op := None) | OtherOp _ \<Rightarrow> m)"

definition replace_content :: "string \<Rightarrow> string option \<Rightarrow> string" where
  "replace_content d old = d"

definition overwrite_content :: "string \<Rightarrow> string option \<Rightarrow> string" where
  "overwrite_content d old = overwrite d (case old of None \<Rightarrow> [] | Some s \<Rightarrow> s)"

definition is_write :: "ConfigurationOp \<Rightarrow> bool" where
  "is_write op = (op_type op = CREATE \<or> op_type op = MODIFY)"

lemma config_step_other: "i \<noteq> op_id op \<Longrightarrow> config_step r k op m i = m i"
  by (auto simp: config_step_def Let_def split: OpType.splits option.splits)

lemma config_step_write:
  "is_write op \<Longrightarrow> config_step r k op m =
     (case r op of None \<Rightarrow> m | Some d \<Rightarrow> m(op_id op \<mapsto> k d (m (op_id op))))"
  by (auto simp: is_write_def config_step_def split: OpType.splits)

lemma config_step_remove: "op_type op = REMOVE \<Longrightarrow> config_step r k op m = m(op_id op := None)"
  by (simp add: config_step_def)

lemma config_step_no_op: "op_type op = OtherOp n \<Longrightarrow> config_step r k op m = m"
  by (simp add: config_step_def Let_def)

text \<open>Ids no operation mentions keep their content.\<close>

lemma config_steps_other:
  "i \<notin> op_id ` set ops \<Longrightarrow> fold (config_step r k) ops m i = m i"
  by (induction ops arbitrary: m) (auto simp: config_step_other)

text \<open>The last operation on an id decides, when a write replaces the content.\<close>

lemma config_steps_last:
  assumes "ops = before @ op # after" and "op_id op \<notin> op_id ` set after"
  shows "fold (config_step r replace_content) ops m (op_id op) =
     (if is_write op then
        (case r op of None \<Rightarrow> fold (config_step r replace_content) before m (op_id op) | Some d \<Rightarrow> Some d)
      else if op_type op = REMOVE then None
      else fold (config_step r replace_content) before m (op_id op))"
  using assms
  by (auto simp: config_steps_other config_step_write config_step_remove replace_content_def is_write_def
      config_step_def Let_def split: option.splits OpType.splits)

section \<open>The loops\<close>

text \<open>The loop of \<^verbatim>\<open>ProcessConfig\<close> that counts the operations applied; the handler of one
  operation says whether it applied it.\<close>

fun apply_ops :: "(ConfigurationOp \<Rightarrow> 's \<Rightarrow> bool \<times> 's) \<Rightarrow> ConfigurationOp list \<Rightarrow> nat \<Rightarrow> 's \<Rightarrow> nat \<times> 's" where
  "apply_ops handle [] applied s = (applied, s)"
| "apply_ops handle (op # ops) applied s =
     (case handle op s of (b, s) \<Rightarrow> apply_ops handle ops (if b then Suc applied else applied) s)"

lemma apply_ops_from:
  "apply_ops handle ops n s = (n + fst (apply_ops handle ops 0 s), snd (apply_ops handle ops 0 s))"
proof (induction ops arbitrary: n s)
  case (Cons op ops)
  obtain b t where bt: "handle op s = (b, t)" by fastforce
  show ?case
    using Cons.IH [of "if b then Suc n else n" t] Cons.IH [of "if b then 1 else 0" t]
    by (cases b) (simp_all add: bt)
qed simp

text \<open>The loop that stops at the first error. One operation gives an error or says whether it was
  applied.\<close>

fun apply_ops_strict ::
  "(ConfigurationOp \<Rightarrow> 's \<Rightarrow> bool result flow \<times> 's) \<Rightarrow> ConfigurationOp list \<Rightarrow> nat \<Rightarrow> 's \<Rightarrow>
   nat result flow \<times> 's" where
  "apply_ops_strict handle [] applied s = (Ret (Inr applied), s)"
| "apply_ops_strict handle (op # ops) applied s =
     (case handle op s of
        (Panics, s) \<Rightarrow> (Panics, s)
      | (Ret (Inl err), s) \<Rightarrow> (Ret (Inl err), s)
      | (Ret (Inr b), s) \<Rightarrow> apply_ops_strict handle ops (if b then Suc applied else applied) s)"

section \<open>The interface\<close>

locale config_store =
  fixes inv :: "'s \<Rightarrow> bool"
    and ok_op :: "ConfigurationOp \<Rightarrow> bool"
    and content :: "'s \<Rightarrow> string \<Rightarrow> string option"
    and render :: "ConfigurationOp \<Rightarrow> string option"
    and combine :: "string \<Rightarrow> string option \<Rightarrow> string"
    and handle :: "ConfigurationOp \<Rightarrow> 's \<Rightarrow> bool \<times> 's"
  assumes handle_law:
      "inv s \<Longrightarrow> ok_op op \<Longrightarrow> handle op s = (b, t) \<Longrightarrow>
         inv t \<and> content t = config_step render combine op (content s)"
    and write_applied_law:
      "inv s \<Longrightarrow> ok_op op \<Longrightarrow> is_write op \<Longrightarrow> fst (handle op s) \<longleftrightarrow> render op \<noteq> None"
begin

lemma apply_ops_content:
  assumes "inv s" and "list_all ok_op ops"
  shows "inv (snd (apply_ops handle ops n s)) \<and>
     content (snd (apply_ops handle ops n s)) = fold (config_step render combine) ops (content s)"
  using assms
proof (induction ops arbitrary: n s)
  case (Cons op ops)
  obtain b t where h: "handle op s = (b, t)" by fastforce
  then have "inv t" "content t = config_step render combine op (content s)"
    using handle_law [of s op b t] Cons.prems by auto
  with Cons.IH [of t "if b then Suc n else n"] Cons.prems(2) show ?case by (simp add: h)
qed simp

text \<open>What every operation keeps, the loop keeps.\<close>

lemma apply_ops_keeps:
  assumes "inv s" and "list_all ok_op ops" and "P s"
    and "\<And>s op b t. inv s \<Longrightarrow> ok_op op \<Longrightarrow> handle op s = (b, t) \<Longrightarrow> P s \<Longrightarrow> P t"
  shows "P (snd (apply_ops handle ops n s))"
  using assms(1-3)
proof (induction ops arbitrary: n s)
  case (Cons op ops)
  obtain b t where h: "handle op s = (b, t)" by fastforce
  then show ?case
    using Cons.IH [of t] Cons.prems handle_law [of s op b t] assms(4) [of s op b t] by simp
qed simp

lemma apply_ops_some:
  assumes "inv s" and "list_all ok_op ops" and "op \<in> set ops" and "is_write op" and "render op \<noteq> None"
  shows "0 < fst (apply_ops handle ops n s)"
  using assms
proof (induction ops arbitrary: n s)
  case (Cons x ops)
  obtain b t where h: "handle x s = (b, t)" by fastforce
  then have t: "inv t" using handle_law [of s x b t] Cons.prems by auto
  show ?case
  proof (cases "x = op")
    case True
    then have b using write_applied_law [of s op] Cons.prems h by auto
    then show ?thesis using apply_ops_from [of handle ops "Suc n" t] by (simp add: h)
  next
    case False
    with Cons.prems Cons.IH [OF t] show ?thesis by (simp add: h)
  qed
qed simp

end

text \<open>A store whose writes replace: after the operations, the last one on an id decides.\<close>

locale replacing_store = config_store inv ok_op content render replace_content handle
  for inv :: "'s \<Rightarrow> bool" and ok_op content render handle
begin

lemma last_op_decides:
  assumes "inv s" and "list_all ok_op (before @ op # after)" and "op_id op \<notin> op_id ` set after"
  shows "is_write op \<Longrightarrow> render op = Some d \<Longrightarrow>
      content (snd (apply_ops handle (before @ op # after) 0 s)) (op_id op) = Some d"
    and "op_type op = REMOVE \<Longrightarrow>
      content (snd (apply_ops handle (before @ op # after) 0 s)) (op_id op) = None"
  using apply_ops_content [OF assms(1,2), of 0] config_steps_last [OF refl assms(3)]
  by (auto simp: is_write_def simp del: fold_append)

lemma untouched_kept:
  assumes "inv s" and "list_all ok_op ops" and "i \<notin> op_id ` set ops"
  shows "content (snd (apply_ops handle ops 0 s)) i = content s i"
  using apply_ops_content [OF assms(1,2), of 0] config_steps_other [OF assms(3)] by simp

end

section \<open>Directories of configuration files\<close>

definition config_dir :: "path \<Rightarrow> fs \<Rightarrow> bool" where
  "config_dir d fs \<longleftrightarrow>
     wf_fs fs \<and> lookup fs d = Some Dir \<and>
     (\<forall>c. case lookup fs (d @ [c]) of None \<Rightarrow> True | Some (File _) \<Rightarrow> True | _ \<Rightarrow> False)"

definition file_config :: "path \<Rightarrow> string \<Rightarrow> fs \<Rightarrow> string \<Rightarrow> string option" where
  "file_config d ext fs i = file_content fs (d @ [i @ ext])"

definition plain_id :: "ConfigurationOp \<Rightarrow> bool" where
  "plain_id op \<longleftrightarrow> CHR ''/'' \<notin> set (op_id op)"

text \<open>An extension that makes every id without a slash a proper file name.\<close>

definition good_ext :: "string \<Rightarrow> bool" where
  "good_ext ext \<longleftrightarrow> 2 < length ext \<and> CHR ''/'' \<notin> set ext"

lemma plain_name_ext: "plain_id op \<Longrightarrow> good_ext ext \<Longrightarrow> plain_name (op_id op @ ext)"
  by (auto simp: plain_id_def good_ext_def plain_name_def dest: arg_cong [of _ _ length])

lemma config_dir_slot: "config_dir d fs \<Longrightarrow> plain_name c \<Longrightarrow> file_slot fs d c"
  by (auto simp: config_dir_def file_slot_def)

lemma config_dir_put:
  assumes "config_dir d fs" and "plain_name c"
  shows "config_dir d (put (d @ [c]) (File s) fs)"
  using assms wf_fs_put [of fs d c "File s"]
  by (auto simp: config_dir_def split: option.splits node.splits)

lemma config_dir_remove:
  assumes "config_dir d fs"
  shows "config_dir d (remove_tree (d @ [c]) fs)"
  using assms
  by (auto simp: config_dir_def wf_fs_remove_tree split: option.splits node.splits)

lemma file_config_put:
  "file_config d ext (put (d @ [i @ ext]) (File s) fs) = (file_config d ext fs)(i \<mapsto> s)"
  by (auto simp: file_config_def file_content_def fun_eq_iff)

lemma file_config_remove:
  "file_config d ext (remove_tree (d @ [i @ ext]) fs) = (file_config d ext fs)(i := None)"
  by (auto simp: file_config_def file_content_def fun_eq_iff)

lemma file_config_absent:
  "lookup fs (d @ [i @ ext]) = None \<Longrightarrow> (file_config d ext fs)(i := None) = file_config d ext fs"
  by (auto simp: file_config_def file_content_def fun_eq_iff)

text \<open>Every entry of the directory has the extension of a configuration.\<close>

definition only_ext :: "path \<Rightarrow> string \<Rightarrow> fs \<Rightarrow> bool" where
  "only_ext d ext fs \<longleftrightarrow> (\<forall>c. lookup fs (d @ [c]) \<noteq> None \<longrightarrow> (\<exists>i. c = i @ ext))"

lemma only_ext_put [intro]: "only_ext d ext fs \<Longrightarrow> only_ext d ext (put (d @ [i @ ext]) n fs)"
  by (auto simp: only_ext_def)

lemma only_ext_remove [intro]: "only_ext d ext fs \<Longrightarrow> only_ext d ext (remove_tree (p @ [c]) fs)"
  by (auto simp: only_ext_def split: if_splits)

text \<open>What is neither the directory nor in it stays.\<close>

lemma below_put: "\<not> prefix d q \<Longrightarrow> lookup (put (d @ [c]) n fs) q = lookup fs q"
  by auto

lemma below_remove: "\<not> prefix d q \<Longrightarrow> lookup (remove_tree (d @ [c]) fs) q = lookup fs q"
  using append_prefixD [of d "[c]" q] by auto

text \<open>The store of plain content files.\<close>

definition content_op ::
  "libs \<Rightarrow> Conversion \<Rightarrow> path \<Rightarrow> string \<Rightarrow> ConfigurationOp \<Rightarrow> fs \<Rightarrow> bool \<times> fs" where
  "content_op lb conversion d ext op fs =
     handleContentConfigurationOp no_faults lb op (d @ [op_id op @ ext]) conversion fs"

lemma content_op_write:
  assumes "config_dir d fs" and "plain_id op" and "good_ext ext" and "is_write op"
  shows "content_op lb cv d ext op fs =
     (case convert_content lb cv op of None \<Rightarrow> (False, fs)
      | Some s \<Rightarrow> (True, put (d @ [op_id op @ ext]) (File s) fs))"
  using assms WriteFile_slot [OF config_dir_slot [OF assms(1) plain_name_ext [OF assms(2,3)]]]
  by (auto simp: content_op_def handleContentConfigurationOp_def is_write_def split: option.splits)

lemma content_op_remove:
  assumes "config_dir d fs" and "plain_id op" and "good_ext ext" and "op_type op = REMOVE"
  shows "content_op lb cv d ext op fs =
     (True, if lookup fs (d @ [op_id op @ ext]) = None then fs else remove_tree (d @ [op_id op @ ext]) fs)"
  using assms Remove_slot [OF config_dir_slot [OF assms(1) plain_name_ext [OF assms(2,3)]]]
  by (auto simp: content_op_def handleContentConfigurationOp_def)

lemma content_op_law:
  assumes "config_dir d fs" and "plain_id op" and "good_ext ext" and "content_op lb cv d ext op fs = (b, fs')"
  shows "config_dir d fs' \<and>
     file_config d ext fs' = config_step (convert_content lb cv) replace_content op (file_config d ext fs)"
proof (cases "is_write op")
  case True
  with assms show ?thesis
    by (auto simp: content_op_write config_step_write replace_content_def file_config_put
        config_dir_put plain_name_ext split: option.splits)
next
  case False
  show ?thesis
  proof (cases "op_type op = REMOVE")
    case True
    with assms show ?thesis
      by (auto simp: content_op_remove config_step_remove file_config_remove config_dir_remove
          file_config_absent split: if_splits)
  next
    case False
    with \<open>\<not> is_write op\<close> obtain n where "op_type op = OtherOp n"
      by (cases "op_type op") (auto simp: is_write_def)
    with assms show ?thesis
      by (simp add: content_op_def handleContentConfigurationOp_def config_step_no_op)
  qed
qed

lemma content_op_frame:
  assumes "config_dir d fs" and "plain_id op" and "good_ext ext" and "content_op lb cv d ext op fs = (b, fs')"
  shows "\<not> prefix d q \<Longrightarrow> lookup fs' q = lookup fs q"
    and "only_ext d ext fs \<Longrightarrow> only_ext d ext fs'"
proof -
  have "(\<not> prefix d q \<longrightarrow> lookup fs' q = lookup fs q) \<and> (only_ext d ext fs \<longrightarrow> only_ext d ext fs')"
  proof (cases "op_type op")
    case (OtherOp n)
    then show ?thesis using assms(4) by (simp add: content_op_def handleContentConfigurationOp_def)
  next
    case REMOVE
    then show ?thesis
      using assms(4) content_op_remove [OF assms(1-3) REMOVE, of lb cv]
      by (auto dest: append_prefixD split: if_splits)
  qed (use assms(4) content_op_write [OF assms(1-3), of lb cv] in
      \<open>auto simp: is_write_def below_put split: option.splits\<close>)
  then show "\<not> prefix d q \<Longrightarrow> lookup fs' q = lookup fs q" "only_ext d ext fs \<Longrightarrow> only_ext d ext fs'" by blast+
qed

section \<open>Making the directory\<close>

text \<open>Where the configurations of an agent are or will be: the way to the directory holds nothing
  but directories, and in it, if it exists, are only files.\<close>

definition config_ready :: "path \<Rightarrow> fs \<Rightarrow> bool" where
  "config_ready d fs \<longleftrightarrow>
     wf_fs fs \<and> dir_path fs d \<and>
     (\<forall>c. case lookup fs (d @ [c]) of None \<Rightarrow> True | Some (File _) \<Rightarrow> True | _ \<Rightarrow> False)"

lemma config_dir_ready: "config_dir d fs \<Longrightarrow> config_ready d fs"
  by (simp add: config_dir_def config_ready_def dir_path_Dir)

lemma ensureConfigsDir_ready:
  assumes "config_ready (base @ [configsDirSubpath]) fs"
  obtains fs' where "ensureConfigsDir no_faults base fs = (Inr (base @ [configsDirSubpath]), fs')"
    and "config_dir (base @ [configsDirSubpath]) fs'"
    and "file_config (base @ [configsDirSubpath]) ext fs' = file_config (base @ [configsDirSubpath]) ext fs"
    and "\<And>q. \<not> prefix q (base @ [configsDirSubpath]) \<Longrightarrow> lookup fs' q = lookup fs q"
    and "lookup fs' base = Some Dir"
proof -
  let ?d = "base @ [configsDirSubpath]"
  have j: "Join base configsDirSubpath = ?d"
    by (rule Join_plain) (simp add: plain_name_def configsDirSubpath_def)
  obtain fs' where m: "os_MkdirAll no_faults fs ?d = (None, fs')" and wf: "wf_fs fs'"
    and l: "\<And>q. lookup fs' q = (if prefix q ?d then Some Dir else lookup fs q)"
    using os_MkdirAll_dir_path [of fs ?d] assms by (auto simp: config_ready_def)
  have np: "\<not> prefix (?d @ [c]) ?d" for c by (auto dest: prefix_length_le)
  show ?thesis
  proof
    show "ensureConfigsDir no_faults base fs = (Inr ?d, fs')"
      using m j by (simp add: ensureConfigsDir_def Let_def del: no_faults)
    show "config_dir ?d fs'"
      using assms wf l np by (simp add: config_dir_def config_ready_def del: append_assoc)
    show "file_config ?d ext fs' = file_config ?d ext fs"
      using l np by (simp add: file_config_def file_content_def fun_eq_iff del: append_assoc)
    show "lookup fs' q = lookup fs q" if "\<not> prefix q ?d" for q using l that by simp
    show "lookup fs' base = Some Dir" using l by simp
  qed
qed

section \<open>Readiness\<close>

lemma path_Ext_rev_suffix: "path_Ext_rev s acc = [] \<or> (\<exists>p. rev s @ acc = p @ path_Ext_rev s acc)"
proof (induction s acc rule: path_Ext_rev.induct)
  case (2 c cs acc)
  then show ?case by auto
qed simp

lemma path_Ext_suffix: "path_Ext s = e \<Longrightarrow> e \<noteq> [] \<Longrightarrow> \<exists>p. s = p @ e"
  using path_Ext_rev_suffix [of "rev s" "[]"] by (auto simp: path_Ext_def)

text \<open>An agent is ready only when its directory holds a configuration.\<close>

lemma ready_has_config:
  assumes "config_dir (base @ [configsDirSubpath]) fs" and "ext \<noteq> []"
    and "hasConfigsAndExeReady flt fs base exe ext"
  shows "\<exists>i. file_config (base @ [configsDirSubpath]) ext fs i \<noteq> None"
proof -
  let ?d = "base @ [configsDirSubpath]"
  have j: "Join base configsDirSubpath = ?d"
    by (rule Join_plain) (simp add: plain_name_def configsDirSubpath_def)
  have wf: "wf_fs fs" "lookup fs ?d = Some Dir" using assms(1) by (auto simp: config_dir_def)
  have "list_ex (\<lambda>name. path_Ext name = ext) (children fs ?d)"
    using assms(3) wf resolve_dir [OF wf]
    by (auto simp: hasConfigsAndExeReady_def Let_def j os_OpenDir_def Readdirnames_def
        split: if_splits sum.splits option.splits)
  then obtain c where c: "c \<in> set (children fs ?d)" "path_Ext c = ext" by (auto simp: list_ex_iff)
  then obtain i where i: "c = i @ ext" using path_Ext_suffix assms(2) by blast
  have "lookup fs (?d @ [c]) \<noteq> None" using c(1) by (simp add: mem_children del: append_assoc)
  then obtain t where "lookup fs (?d @ [c]) = Some (File t)"
    using assms(1) unfolding config_dir_def
    by (cases "lookup fs (?d @ [c])"; cases "the (lookup fs (?d @ [c]))") (fastforce dest: spec [of _ c])+
  then have "file_config ?d ext fs i = Some t"
    using i by (simp add: file_config_def file_content_def)
  then show ?thesis by blast
qed

end
