(* ===== verification/Envoy_Config.thy ===== *)
theory Envoy_Config
  imports Go_Strings
begin

text \<open>
  The package \<^verbatim>\<open>config\<close>: the addresses the ingestors have registered, and the labels an Envoy
  reports about its host. What the host answers (commands, files, its name) is a record the
  functions take as an argument.
\<close>

section \<open>Host and port\<close>

fun index_of :: "char \<Rightarrow> string \<Rightarrow> nat option" where
  "index_of c [] = None"
| "index_of c (d # ds) = (if c = d then Some 0 else map_option Suc (index_of c ds))"

definition last_index_of :: "char \<Rightarrow> string \<Rightarrow> nat option" where
  "last_index_of c s = map_option (\<lambda>i. length s - 1 - i) (index_of c (rev s))"

definition addr_error :: "string \<Rightarrow> string \<Rightarrow> go_error" where
  "addr_error addr why = ErrorString (''address '' @ addr @ '': '' @ why)"

text \<open>\<^verbatim>\<open>net.SplitHostPort\<close> and \<^verbatim>\<open>net.JoinHostPort\<close> of the standard library.\<close>

definition host_bounds :: "string \<Rightarrow> nat \<Rightarrow> (string \<times> nat \<times> nat) result" where
  "host_bounds hostport i =
     (if hd hostport = CHR ''['' then
        (case index_of (CHR '']'') hostport of
           None \<Rightarrow> Inl (addr_error hostport ''missing ']' in address'')
         | Some end \<Rightarrow>
             if Suc end = length hostport then Inl (addr_error hostport ''missing port in address'')
             else if Suc end = i then Inr (take (end - 1) (drop 1 hostport), 1, Suc end)
             else if hostport ! Suc end = CHR '':'' then Inl (addr_error hostport ''too many colons in address'')
             else Inl (addr_error hostport ''missing port in address''))
      else if CHR '':'' \<in> set (take i hostport) then Inl (addr_error hostport ''too many colons in address'')
      else Inr (take i hostport, 0, 0))"

definition SplitHostPort :: "string \<Rightarrow> (string \<times> string) result" where
  "SplitHostPort hostport =
     (case last_index_of (CHR '':'') hostport of
        None \<Rightarrow> Inl (addr_error hostport ''missing port in address'')
      | Some i \<Rightarrow>
          (case host_bounds hostport i of
             Inl e \<Rightarrow> Inl e
           | Inr (host, j, k) \<Rightarrow>
               if CHR ''['' \<in> set (drop j hostport)
               then Inl (addr_error hostport ''unexpected '[' in address'')
               else if CHR '']'' \<in> set (drop k hostport)
               then Inl (addr_error hostport ''unexpected ']' in address'')
               else Inr (host, drop (Suc i) hostport)))"

definition JoinHostPort :: "string \<Rightarrow> string \<Rightarrow> string" where
  "JoinHostPort host port =
     (if CHR '':'' \<in> set host then ''['' @ host @ '']:'' @ port else host @ '':'' @ port)"

lemma index_of_append_notin: "c \<notin> set xs \<Longrightarrow> index_of c (xs @ c # ys) = Some (length xs)"
  by (induction xs) auto

lemma last_index_of_append:
  "c \<notin> set ys \<Longrightarrow> last_index_of c (xs @ c # ys) = Some (length xs)"
  using index_of_append_notin [of c "rev ys" "rev xs"] by (simp add: last_index_of_def)

lemma SplitHostPort_Join:
  assumes "set host \<inter> {CHR ''['', CHR '']''} = {}" and "set port \<inter> {CHR '':'', CHR ''['', CHR '']''} = {}"
  shows "SplitHostPort (JoinHostPort host port) = Inr (host, port)"
proof (cases "CHR '':'' \<in> set host")
  case True
  let ?s = "''['' @ host @ '']:'' @ port"
  have l: "last_index_of (CHR '':'') ?s = Some (length host + 2)"
    using last_index_of_append [of "CHR '':''" port "''['' @ host @ '']''"] assms(2) by simp
  have e: "index_of (CHR '']'') ?s = Some (Suc (length host))"
    using index_of_append_notin [of "CHR '']''" "''['' @ host" "'':'' @ port"] assms(1) by auto
  have "host_bounds ?s (length host + 2) = Inr (host, 1, length host + 2)"
    using e by (simp add: host_bounds_def)
  then show ?thesis
    using True l assms by (auto simp: JoinHostPort_def SplitHostPort_def numeral_2_eq_2)
next
  case False
  let ?s = "host @ '':'' @ port"
  have l: "last_index_of (CHR '':'') ?s = Some (length host)"
    using last_index_of_append [of "CHR '':''" port host] assms(2) by simp
  have h: "hd ?s \<noteq> CHR ''[''"
    using assms(1) by (cases host) auto
  have "host_bounds ?s (length host) = Inr (host, 0, 0)"
    using h False by (simp add: host_bounds_def)
  then show ?thesis
    using False l assms by (auto simp: JoinHostPort_def SplitHostPort_def)
qed

section \<open>Listener addresses\<close>

type_synonym listener_addresses = "string \<rightharpoonup> string"

text \<open>An address that does not parse panics: no value.\<close>

definition RegisterListenerAddress :: "string \<Rightarrow> string \<Rightarrow> listener_addresses \<Rightarrow> listener_addresses option" where
  "RegisterListenerAddress name address m =
     (case SplitHostPort address of
        Inl _ \<Rightarrow> None
      | Inr (host, port) \<Rightarrow>
          (let host = (if host = ''0.0.0.0'' then ''127.0.0.1'' else host)
           in Some (m(name \<mapsto> JoinHostPort host port))))"

definition GetListenerAddress :: "listener_addresses \<Rightarrow> string \<Rightarrow> string" where
  "GetListenerAddress m name = (case m name of Some address \<Rightarrow> address | None \<Rightarrow> [])"

definition TelegrafJsonListener :: string where "TelegrafJsonListener = ''telegraf-json''"
definition LumberjackListener :: string where "LumberjackListener = ''lumberjack''"
definition LineProtocolListener :: string where "LineProtocolListener = ''line-protocol''"

text \<open>
  C18 An agent is given the address it can dial: after registering a bound host and port, the
  address on record for that name splits into the same port and the same host, with the loopback
  address in place of the wildcard, and the other names keep theirs.
\<close>

theorem registered_address_dialable:
  assumes "set host \<inter> {CHR ''['', CHR '']''} = {}" and "set port \<inter> {CHR '':'', CHR ''['', CHR '']''} = {}"
  shows "\<exists>m'. RegisterListenerAddress name (JoinHostPort host port) m = Some m' \<and>
     SplitHostPort (GetListenerAddress m' name) =
       Inr (if host = ''0.0.0.0'' then ''127.0.0.1'' else host, port) \<and>
     (\<forall>n. n \<noteq> name \<longrightarrow> GetListenerAddress m' n = GetListenerAddress m n)"
  using SplitHostPort_Join [OF assms] SplitHostPort_Join [of "''127.0.0.1''" port] assms
  by (auto simp: RegisterListenerAddress_def GetListenerAddress_def)

lemma registered_address_dialable_witness:
  "\<exists>m'. RegisterListenerAddress ''lumberjack'' ''0.0.0.0:5044'' Map.empty = Some m' \<and>
     GetListenerAddress m' ''lumberjack'' = ''127.0.0.1:5044'' \<and>
     SplitHostPort (GetListenerAddress m' ''lumberjack'') = Inr (''127.0.0.1'', ''5044'')"
proof -
  have "JoinHostPort ''0.0.0.0'' ''5044'' = ''0.0.0.0:5044''" by (simp add: JoinHostPort_def)
  moreover have "SplitHostPort ''0.0.0.0:5044'' = Inr (''0.0.0.0'', ''5044'')"
    by code_simp
  then have "RegisterListenerAddress ''lumberjack'' ''0.0.0.0:5044'' Map.empty =
      Some [''lumberjack'' \<mapsto> ''127.0.0.1:5044'']"
    by (simp add: RegisterListenerAddress_def JoinHostPort_def)
  ultimately show ?thesis
    using registered_address_dialable [of "''0.0.0.0''" "''5044''" "''lumberjack''" Map.empty]
    by (auto simp: GetListenerAddress_def)
qed

section \<open>Labels\<close>

record host =
  GOOS :: string
  GOARCH :: string
  os_Hostname :: "string result"
  exec_Output :: "string \<Rightarrow> string list \<Rightarrow> string result"
  ioutil_ReadFile :: "string \<Rightarrow> string result"
  stat_error :: "string \<Rightarrow> go_error option"

definition trim_lower :: "string \<Rightarrow> string" where
  "trim_lower s = ToLower (TrimSpace s)"

definition DiscoveredLabel :: "string \<Rightarrow> string" where
  "DiscoveredLabel label = ''discovered'' @ ''_'' @ label"

definition ArchLabel :: string where "ArchLabel = DiscoveredLabel ''arch''"
definition BiosVendorLabel :: string where "BiosVendorLabel = DiscoveredLabel ''bios_vendor''"
definition BiosVersionLabel :: string where "BiosVersionLabel = DiscoveredLabel ''bios_version''"
definition HostnameLabel :: string where "HostnameLabel = DiscoveredLabel ''hostname''"
definition OsLabel :: string where "OsLabel = DiscoveredLabel ''os''"
definition SerialNoLabel :: string where "SerialNoLabel = DiscoveredLabel ''serial''"
definition XenIdLabel :: string where "XenIdLabel = DiscoveredLabel ''xen_id''"

definition SystemPrefixes :: "string list" where "SystemPrefixes = [''discovered'']"

definition ValidateUserLabelName :: "string \<Rightarrow> bool" where
  "ValidateUserLabelName label = list_all (\<lambda>p. \<not> HasPrefix label (p @ ''_'')) SystemPrefixes"

definition GetSystemSerialNumber :: "host \<Rightarrow> string result" where
  "GetSystemSerialNumber h =
     (let finish = (\<lambda>out. case out of Inl e \<Rightarrow> Inl e | Inr serial \<Rightarrow> Inr (trim_lower serial)) in
      if GOOS h = ''linux'' then finish (exec_Output h ''dmidecode'' [''-s'', ''system-serial-number''])
      else if GOOS h = ''windows'' then finish (exec_Output h ''powershell'' [''(Get-WmiObject win32_bios).SerialNumber''])
      else Inl (ErrorString (''no serial number found on os with type '' @ GOOS h)))"

definition GetXenIdFromCloudInit :: "host \<Rightarrow> string result" where
  "GetXenIdFromCloudInit h =
     (if GOOS h = ''windows'' then Inl (ErrorString ''cloud init is not supported on windows'')
      else case ioutil_ReadFile h ''/var/lib/cloud/data/instance-id'' of
          Inl e \<Rightarrow> Inl (Wrapped ''failed to read from instance id path'' e)
        | Inr data \<Rightarrow>
            (let xenId = trim_lower data in
             if xenId = ''iid-datasource-none'' \<or> xenId = ''nocloud''
             then Inl (ErrorString ''invalid instance id found'') else Inr xenId))"

definition xenstore_client :: string where
  "xenstore_client =
     ''c:'' @ [CHR 0x5C] @ ''Program Files'' @ [CHR 0x5C] @ ''Citrix'' @ [CHR 0x5C] @ ''XenTools'' @ [CHR 0x5C] @
     ''xenstore_client.exe''"

definition xenstore_script :: string where
  "xenstore_script =
     ''& {$sid = ((Get-WmiObject -Class CitrixXenStoreBase -Namespace root'' @ [CHR 0x5C] @ ''wmi)'' @
     ''.AddSession('' @ [CHR 0x22] @ ''Temp'' @ [CHR 0x22] @
     '').SessionId) ; $s = (Get-WmiObject -Namespace root'' @ [CHR 0x5C] @ ''wmi -Query '' @ [CHR 0x22] @
     ''select * from CitrixXenStoreSession where SessionId=$sid'' @ [CHR 0x22] @
     '') ; $v = $s.GetValue('' @ [CHR 0x22] @ ''name'' @ [CHR 0x22] @ '').value ;$s.EndSession() ; $v}''"

definition GetXenIdFromXenClient :: "host \<Rightarrow> string result" where
  "GetXenIdFromXenClient h =
     (let finish = (\<lambda>out. case out of Inl e \<Rightarrow> Inl e | Inr xenId \<Rightarrow> Inr (trim_lower xenId)) in
      if GOOS h = ''linux'' then finish (exec_Output h ''xenstore-read'' [''name''])
      else if GOOS h = ''windows'' then
        (if stat_error h xenstore_client \<noteq> None
         then finish (exec_Output h ''powershell'' [xenstore_script, ''read'', ''name''])
         else finish (exec_Output h xenstore_client [''name'']))
      else Inl (ErrorString (''no xen id found on os with type '' @ GOOS h)))"

definition GetXenId :: "host \<Rightarrow> string result" where
  "GetXenId h =
     (case GetXenIdFromCloudInit h of
        Inr xenId \<Rightarrow> Inr xenId
      | Inl _ \<Rightarrow> GetXenIdFromXenClient h)"

definition bios_labels :: "string result \<Rightarrow> string result \<Rightarrow> (string \<times> string) list result" where
  "bios_labels vendor version =
     (case vendor of Inl e \<Rightarrow> Inl e
      | Inr vendor \<Rightarrow>
          (case version of Inl e \<Rightarrow> Inl e
           | Inr version \<Rightarrow>
               Inr [(BiosVendorLabel, trim_lower vendor), (BiosVersionLabel, trim_lower version)]))"

definition GetLinuxBiosData :: "host \<Rightarrow> (string \<times> string) list result" where
  "GetLinuxBiosData h =
     bios_labels (exec_Output h ''dmidecode'' [''-s'', ''bios-vendor''])
       (exec_Output h ''dmidecode'' [''-s'', ''bios-version''])"

definition GetWindowsBiosData :: "host \<Rightarrow> (string \<times> string) list result" where
  "GetWindowsBiosData h =
     bios_labels (exec_Output h ''powershell'' [''(Get-WmiObject win32_bios).Manufacturer''])
       (exec_Output h ''powershell'' [''(Get-WmiObject win32_bios).SMBIOSBIOSVersion''])"

definition GetBiosData :: "host \<Rightarrow> (string \<times> string) list result" where
  "GetBiosData h =
     (if GOOS h = ''linux'' then GetLinuxBiosData h
      else if GOOS h = ''windows'' then GetWindowsBiosData h
      else Inl (ErrorString (''no bios data found on os with type '' @ GOOS h)))"

text \<open>The configured labels, in the order of the loop over them.\<close>

fun add_configured :: "(string \<times> string) list \<Rightarrow> (string \<rightharpoonup> string) \<Rightarrow> (string \<rightharpoonup> string) result" where
  "add_configured [] labels = Inr labels"
| "add_configured ((k, v) # kvs) labels =
     (if ValidateUserLabelName k then add_configured kvs (labels(k \<mapsto> v))
      else Inl (ErrorString (''configured label '' @ [CHR 0x27] @ k @ [CHR 0x27] @ '' conflicts with a system prefix'')))"

definition discovered_labels :: "host \<Rightarrow> string \<Rightarrow> (string \<rightharpoonup> string)" where
  "discovered_labels h hostname =
     (let labels = [OsLabel \<mapsto> GOOS h, ArchLabel \<mapsto> GOARCH h, HostnameLabel \<mapsto> hostname];
          labels = (case GetXenId h of Inl _ \<Rightarrow> labels | Inr xenId \<Rightarrow> labels(XenIdLabel \<mapsto> xenId));
          labels = (case GetSystemSerialNumber h of Inl _ \<Rightarrow> labels | Inr serial \<Rightarrow> labels(SerialNoLabel \<mapsto> serial))
      in case GetBiosData h of
           Inl _ \<Rightarrow> labels
         | Inr biosData \<Rightarrow> fold (\<lambda>(k, v) m. m(k \<mapsto> v)) biosData labels)"

definition ComputeLabels :: "host \<Rightarrow> (string \<times> string) list \<Rightarrow> (string \<rightharpoonup> string) result" where
  "ComputeLabels h configuredLabels =
     (case os_Hostname h of
        Inl e \<Rightarrow> Inl (Wrapped ''unable to determine hostname label'' e)
      | Inr hostname \<Rightarrow> add_configured configuredLabels (discovered_labels h hostname))"

lemma ValidateUserLabelName_iff:
  "ValidateUserLabelName l \<longleftrightarrow> (\<forall>s. l \<noteq> DiscoveredLabel s)"
  by (auto simp: ValidateUserLabelName_def SystemPrefixes_def HasPrefix_iff DiscoveredLabel_def prefix_def)

lemma add_configured_ok:
  "list_all (ValidateUserLabelName \<circ> fst) kvs \<Longrightarrow>
   add_configured kvs m = Inr (fold (\<lambda>(k, v) m. m(k \<mapsto> v)) kvs m)"
  by (induction kvs m rule: add_configured.induct) auto

lemma add_configured_conflict:
  "\<not> list_all (ValidateUserLabelName \<circ> fst) kvs \<Longrightarrow> \<exists>e. add_configured kvs m = Inl e"
  by (induction kvs m rule: add_configured.induct) auto

lemma bios_labels_discovered:
  "bios_labels v w = Inr ls \<Longrightarrow> k \<in> fst ` set ls \<Longrightarrow> \<exists>s. k = DiscoveredLabel s"
  by (auto simp: bios_labels_def BiosVendorLabel_def BiosVersionLabel_def split: sum.splits)

lemma GetBiosData_discovered:
  "GetBiosData h = Inr ls \<Longrightarrow> k \<in> fst ` set ls \<Longrightarrow> \<exists>s. k = DiscoveredLabel s"
  using bios_labels_discovered
  by (auto simp: GetBiosData_def GetLinuxBiosData_def GetWindowsBiosData_def split: if_splits)

lemma discovered_labels_dom:
  assumes "discovered_labels h n k \<noteq> None"
  shows "\<exists>s. k = DiscoveredLabel s"
proof (rule ccontr)
  assume no: "\<nexists>s. k = DiscoveredLabel s"
  then have "k \<notin> {OsLabel, ArchLabel, HostnameLabel, XenIdLabel, SerialNoLabel}"
    by (auto simp: OsLabel_def ArchLabel_def HostnameLabel_def XenIdLabel_def SerialNoLabel_def)
  moreover have "k \<notin> fst ` set ls" if "GetBiosData h = Inr ls" for ls
    using GetBiosData_discovered [OF that] no by blast
  ultimately have "discovered_labels h n k = None"
    by (auto simp: discovered_labels_def Let_def map_of_fold_upd_notin split: sum.splits)
  with assms show False by simp
qed



definition mac_host :: host where
  "mac_host =
     \<lparr>GOOS = ''darwin'', GOARCH = ''amd64'', os_Hostname = Inr ''Mac'',
      exec_Output = (\<lambda>_ _. Inl (ErrorString ''not found'')),
      ioutil_ReadFile = (\<lambda>_. Inl (ErrorString ''not found'')), stat_error = (\<lambda>_. None)\<rparr>"


text \<open>A discovered label cannot be overridden from the configuration, whatever its comment says:
  a configured value for one is an error.\<close>

lemma discovered_not_overridable:
  "\<not> isl (os_Hostname h) \<Longrightarrow> isl (ComputeLabels h [(HostnameLabel, v)])"
  using add_configured_conflict [of "[(HostnameLabel, v)]"]
  by (cases "os_Hostname h")
     (auto simp: ComputeLabels_def ValidateUserLabelName_iff HostnameLabel_def)

end
