(* ===== verification/Agent_Runner.thy ===== *)
theory Agent_Runner
  imports Command_Handler Config_Store Envoy_Config
begin

text \<open>
  What the agent runners have in common: their state, the invariant that ties their pointers to
  the contexts of the command handler, and the contract of \<^verbatim>\<open>EnsureRunningState\<close> and
  \<^verbatim>\<open>Stop\<close> as an interface that each runner provides.
\<close>

section \<open>State\<close>

text \<open>\<open>running\<close> points to a context of the command handler, or is nil.\<close>

record AgentRunner =
  basePath :: path
  running :: "nat option"

text \<open>What one call finds around it: failing system calls, what processes do, third-party code,
  the registered listener addresses.\<close>

record request_env =
  env_faults :: faults
  env_handler :: handler_env
  env_libs :: libs
  env_listeners :: listener_addresses

text \<open>The \<^verbatim>\<open>running\<close> pointers of all runners.\<close>

type_synonym run_map = "AgentType \<Rightarrow> nat option"

definition runners_inv :: "run_map \<Rightarrow> handler_state \<Rightarrow> bool" where
  "runners_inv R h \<longleftrightarrow>
     handler_inv h \<and> slots_ok active agent_of R h \<and> (\<forall>a c. R a = Some c \<longrightarrow> agent_of h c = Some a)"

lemma slots_ok_same:
  "active h' = active h \<Longrightarrow> agent_of h' = agent_of h \<Longrightarrow>
   slots_ok active agent_of R h' = slots_ok active agent_of R h"
  by (simp add: slots_ok_def)

definition no_active :: "AgentType \<Rightarrow> handler_state \<Rightarrow> bool" where
  "no_active a h \<longleftrightarrow> (\<forall>c. active h c \<longrightarrow> agent_of h c \<noteq> Some a)"

text \<open>The contexts and processes of other agents are as they were.\<close>

definition others_kept :: "AgentType \<Rightarrow> handler_state \<Rightarrow> handler_state \<Rightarrow> bool" where
  "others_kept a h h' \<longleftrightarrow>
     (\<forall>c b. agent_of h c = Some b \<longrightarrow> b \<noteq> a \<longrightarrow>
        ctxs h' c = ctxs h c \<and> procs h' c = procs h c \<and> (c \<in> set (waiters h') \<longleftrightarrow> c \<in> set (waiters h)))"

lemma others_kept_refl [simp, intro]: "others_kept a h h"
  by (simp add: others_kept_def)

lemma others_kept_trans: "others_kept a h h1 \<Longrightarrow> others_kept a h1 h2 \<Longrightarrow> others_kept a h h2"
  by (simp add: others_kept_def agent_of_def)

text \<open>Only the context \<open>c\<close> may differ.\<close>

definition only_ctx :: "nat \<Rightarrow> handler_state \<Rightarrow> handler_state \<Rightarrow> bool" where
  "only_ctx c h h' \<longleftrightarrow>
     (\<forall>d. d \<noteq> c \<longrightarrow>
        ctxs h' d = ctxs h d \<and> procs h' d = procs h d \<and> (d \<in> set (waiters h') \<longleftrightarrow> d \<in> set (waiters h)))"

lemma only_ctx_others:
  "only_ctx c h h' \<Longrightarrow> agent_of h c = None \<or> agent_of h c = Some a \<Longrightarrow> others_kept a h h'"
  unfolding only_ctx_def others_kept_def by (metis option.distinct(1) option.inject)

lemma only_ctx_refl [simp]: "only_ctx c h h"
  by (simp add: only_ctx_def)

lemma only_ctx_trans: "only_ctx c h h1 \<Longrightarrow> only_ctx c h1 h2 \<Longrightarrow> only_ctx c h h2"
  by (simp add: only_ctx_def)

lemma only_ctx_ops:
  "only_ctx c h (upd_ctx c f h)" "only_ctx c h (deliver sg c h)"
  "only_ctx c h (AppendEnv es c h)" "only_ctx c h (go_WaitOnAgentCommand c h)"
  "only_ctx c h (WaitOnAgentCommand c h)" "only_ctx c h (h\<lparr>procs := (procs h)(c \<mapsto> p)\<rparr>)"
  by (auto simp: only_ctx_def deliver_def AppendEnv_def go_WaitOnAgentCommand_def WaitOnAgentCommand_def
      Let_def split: option.splits proc.splits)

lemma only_ctx_create: "CreateContext a n d as h = (c, h') \<Longrightarrow> only_ctx c h h'"
  by (auto simp: only_ctx_def CreateContext_def Let_def)

lemma only_ctx_start: "StartAgentCommand env c w h = (r, h') \<Longrightarrow> only_ctx c h h'"
  by (auto simp: only_ctx_def StartAgentCommand_def Let_def split: if_splits start_wait.splits)

lemma only_ctx_steps:
  assumes "only_ctx c h g"
  shows "only_ctx c h (upd_ctx c f g)" "only_ctx c h (deliver sg c g)"
    "only_ctx c h (WaitOnAgentCommand c g)" "only_ctx c h (g\<lparr>procs := (procs g)(c \<mapsto> p)\<rparr>)"
  using only_ctx_ops only_ctx_trans [OF assms] by blast+

lemma only_ctx_Stop: "only_ctx c h (Stop env (Some c) h)"
  by (simp add: Stop_def Let_def only_ctx_steps split: option.split)

lemma only_ctx_Signal: "only_ctx c h (Signal (Some c) sg h)"
  by (simp add: Signal_def only_ctx_ops)

section \<open>Launching\<close>

text \<open>Between the creation of a context and the end of the start of its command.\<close>

definition launching :: "AgentType \<Rightarrow> run_map \<Rightarrow> handler_state \<Rightarrow> handler_state \<Rightarrow> nat \<Rightarrow> bool" where
  "launching a R h0 h c \<longleftrightarrow>
     runners_inv R h \<and> fresh_ctx h c \<and> agent_of h c = Some a \<and> no_active a h \<and> others_kept a h0 h"

lemma not_running_no_active:
  "runners_inv R h \<Longrightarrow> \<not> IsRunning h (R a) \<Longrightarrow> no_active a h"
  unfolding runners_inv_def no_active_def using cmds.not_running_inactive by blast

lemma launching_create:
  assumes "runners_inv R h" and "no_active a h" and "CreateContext a n d as h = (c, h')"
  shows "launching a R h h' c"
proof -
  have inv: "handler_inv h" using assms(1) by (simp add: runners_inv_def)
  note spec = CreateContext_spec [OF inv assms(3)]
  have "slots_ok active agent_of R h'"
    using cmds.slots_create [OF inv, of R a "(n, d, as)" c h'] assms
    by (simp add: create_command_def runners_inv_def)
  moreover have "agent_of h' e = Some b" if "R b = Some e" for b e
  proof -
    have "agent_of h e = Some b" using that assms(1) by (simp add: runners_inv_def)
    then show ?thesis using spec(3,4) by (auto simp: agent_of_def)
  qed
  moreover have "others_kept a h h'"
    using only_ctx_others [OF only_ctx_create [OF assms(3)]] spec(3) by (simp add: agent_of_def)
  moreover have "no_active a h'"
    unfolding no_active_def
  proof (intro allI impI)
    fix d
    assume "active h' d"
    then have d: "active h d" using spec(5) by simp
    then have "d \<noteq> c" using active_agent_of [OF d] spec(3) by (auto simp: agent_of_def)
    then show "agent_of h' d \<noteq> Some a" using d assms(2) spec(4) by (simp add: no_active_def)
  qed
  ultimately show ?thesis
    using spec by (simp add: launching_def runners_inv_def)
qed

lemma launching_env:
  assumes "launching a R h0 h c"
  shows "launching a R h0 (AppendEnv es c h) c"
proof -
  have inv: "handler_inv h" using assms by (simp add: launching_def runners_inv_def)
  note spec = AppendEnv_spec [OF inv, where es = es and c = c]
  have "others_kept a h (AppendEnv es c h)"
    using assms by (intro only_ctx_others [OF only_ctx_ops(3)]) (simp add: launching_def)
  then show ?thesis
    using assms spec others_kept_trans [of a h0 h "AppendEnv es c h"]
      slots_ok_same [OF spec(3,2), of R]
    by (simp add: launching_def runners_inv_def no_active_def)
qed

lemma launching_start_failed:
  assumes "launching a R h0 h c" and "StartAgentCommand env c w h = (Some e, h')"
  shows "runners_inv R h' \<and> others_kept a h0 h' \<and> no_active a h'"
proof -
  have inv: "handler_inv h" and f: "fresh_ctx h c" using assms by (auto simp: launching_def runners_inv_def)
  note spec = StartAgentCommand_spec [OF inv f assms(2)]
  have "others_kept a h h'"
    using assms by (intro only_ctx_others [OF only_ctx_start [OF assms(2)]]) (simp add: launching_def)
  then show ?thesis
    using assms(1) spec cmds.slots_start [OF inv _ f assms(2), of R] others_kept_trans [of a h0 h h']
    by (simp add: launching_def runners_inv_def no_active_def)
qed

lemma launching_started:
  assumes "launching a R h0 h c" and "StartAgentCommand env c w h = (None, h')"
  shows "runners_inv (R(a \<mapsto> c)) (go_WaitOnAgentCommand c h') \<and>
     others_kept a h0 (go_WaitOnAgentCommand c h') \<and> active (go_WaitOnAgentCommand c h') c"
proof -
  have inv: "handler_inv h" and f: "fresh_ctx h c" using assms by (auto simp: launching_def runners_inv_def)
  note spec = StartAgentCommand_spec [OF inv f assms(2)]
  have st: "started_ctx h' c" using spec(6) by simp
  note wspec = go_WaitOnAgentCommand_spec [OF spec(1) st]
  have slots: "slots_ok active agent_of R h'"
    using cmds.slots_start [OF inv _ f assms(2)] assms(1) by (simp add: launching_def runners_inv_def)
  have ag: "agent_of h' c = Some a" using spec assms(1) by (simp add: launching_def)
  have "slots_ok active agent_of (R(a \<mapsto> c)) (go_WaitOnAgentCommand c h')"
    using assms(1) spec by (intro cmds.slots_watch [OF spec(1) slots st ag]) (auto simp: launching_def no_active_def)
  moreover have "others_kept a h h'"
    using assms by (intro only_ctx_others [OF only_ctx_start [OF assms(2)]]) (simp add: launching_def)
  moreover have "others_kept a h' (go_WaitOnAgentCommand c h')"
    using ag by (intro only_ctx_others [OF only_ctx_ops(4)]) simp
  ultimately show ?thesis
    using assms(1) spec(2) wspec ag others_kept_trans [of a h0 h "go_WaitOnAgentCommand c h'"]
      others_kept_trans [of a h h' "go_WaitOnAgentCommand c h'"]
    by (auto simp: launching_def runners_inv_def)
qed

text \<open>An environment in which the start of a context's command succeeds, and what it leaves.\<close>

definition starts_ok :: "handler_env \<Rightarrow> nat \<Rightarrow> string \<Rightarrow> bool" where
  "starts_ok env c waitFor \<longleftrightarrow>
     pipesOk (start_of env c) \<and> execOk (start_of env c) \<and>
     start_outcome waitFor (outputEvents (start_of env c)) = SawContent"

definition runs_command :: "handler_state \<Rightarrow> nat \<Rightarrow> Cmd \<Rightarrow> bool" where
  "runs_command h c cmd \<longleftrightarrow>
     procs h c = Some (Alive []) \<and> (\<exists>a. ctxs h c = Some a \<and> arc_cmd a = Some cmd)"

lemma StartAgentCommand_ok:
  assumes "starts_ok env c w" and "ctxs h c = Some a" and "arc_cmd a = Some cmd"
  shows "\<exists>h'. StartAgentCommand env c w h = (None, h') \<and>
     runs_command (go_WaitOnAgentCommand c h') c (cmd\<lparr>cmd_process := True\<rparr>)"
  using assms
  by (auto simp: StartAgentCommand_def Let_def starts_ok_def runs_command_def go_WaitOnAgentCommand_def)

lemma CreateContext_cmd:
  assumes "CreateContext a n d as h = (c, h')"
  shows "c = nextCtx h" "\<exists>x. ctxs h' c = Some x \<and>
     arc_cmd x = Some \<lparr>cmd_path = n, cmd_args = as, cmd_dir = d, cmd_env = [],
                         cmd_process = False, cmd_state = None\<rparr>"
  using assms by (auto simp: CreateContext_def Let_def)

text \<open>Stopping a runner's context, with the pointer kept or cleared.\<close>

lemma stop_running:
  assumes "runners_inv R h"
  shows "runners_inv R (Stop env (R a) h)" "runners_inv (R(a := None)) (Stop env (R a) h)"
    "others_kept a h (Stop env (R a) h)" "no_active a (Stop env (R a) h)"
    "restarts (Stop env (R a) h) = restarts h"
proof -
  have inv: "handler_inv h" and slots: "slots_ok active agent_of R h" using assms by (auto simp: runners_inv_def)
  show "runners_inv R (Stop env (R a) h)" "runners_inv (R(a := None)) (Stop env (R a) h)"
    using assms Stop_spec [OF inv] cmds.slots_stop [OF inv slots] cmds.slots_stop_keep [OF inv slots]
    by (auto simp: runners_inv_def)
  show "others_kept a h (Stop env (R a) h)"
  proof (cases "R a")
    case None
    then show ?thesis by (simp add: Stop_def)
  next
    case (Some c)
    then show ?thesis
      using assms only_ctx_others [OF only_ctx_Stop] by (auto simp: runners_inv_def)
  qed
  show "no_active a (Stop env (R a) h)"
    using cmds.stopped_agent_inactive [OF inv slots] by (auto simp: no_active_def)
  show "restarts (Stop env (R a) h) = restarts h" by (rule Stop_spec [OF inv])
qed

lemma signal_running:
  assumes "runners_inv R h"
  shows "runners_inv R (Signal (R a) sg h)" "others_kept a h (Signal (R a) sg h)"
proof -
  show "runners_inv R (Signal (R a) sg h)"
    using assms Signal_spec [where h = h and r = "R a" and sg = sg]
      slots_ok_same [OF Signal_spec(3,2) [where h = h and r = "R a" and sg = sg], of R]
    by (simp add: runners_inv_def)
  show "others_kept a h (Signal (R a) sg h)"
  proof (cases "R a")
    case None
    then show ?thesis by (simp add: Signal_def IsRunning_def)
  next
    case (Some c)
    then show ?thesis
      using assms only_ctx_others [OF only_ctx_Signal] by (auto simp: runners_inv_def)
  qed
qed

section \<open>The interface\<close>

text \<open>
  \<open>ensure\<close> gives whether \<^verbatim>\<open>log.Fatal\<close> has ended the Envoy, the handler's state and the
  runner. Both operations keep the invariant, leave the other agents alone, and stopping leaves
  nothing active and the pointer cleared.
\<close>

locale agent_runner =
  fixes agent :: AgentType
    and run :: "'r \<Rightarrow> nat option"
    and ensure :: "request_env \<Rightarrow> fs \<Rightarrow> bool \<Rightarrow> handler_state \<Rightarrow> 'r \<Rightarrow> bool \<times> handler_state \<times> 'r"
    and stop :: "handler_env \<Rightarrow> handler_state \<Rightarrow> 'r \<Rightarrow> handler_state \<times> 'r"
  assumes ensure_law:
      "runners_inv R h \<Longrightarrow> R agent = run r \<Longrightarrow> ensure env fs b h r = (fatal, h', r') \<Longrightarrow>
         runners_inv (R(agent := run r')) h' \<and> others_kept agent h h'"
    and stop_law:
      "runners_inv R h \<Longrightarrow> R agent = run r \<Longrightarrow> stop henv h r = (h', r') \<Longrightarrow>
         runners_inv (R(agent := None)) h' \<and> others_kept agent h h' \<and> no_active agent h' \<and>
         run r' = None \<and> restarts h' = restarts h"
begin

lemma ensure_one_active:
  assumes "runners_inv R h" and "R agent = run r" and "ensure env fs b h r = (fatal, h', r')"
    and "active h' c" and "agent_of h' c = Some agent"
  shows "run r' = Some c"
  using ensure_law [OF assms(1,2,3)] assms(4,5) unfolding runners_inv_def slots_ok_def
  by (metis fun_upd_same)

text \<open>A context of another agent is active afterwards exactly when it was before.\<close>

lemma ensure_others_active:
  assumes "runners_inv R h" and "R agent = run r" and "ensure env fs b h r = (fatal, h', r')"
    and "agent_of h c = Some a" and "a \<noteq> agent"
  shows "active h' c \<longleftrightarrow> active h c"
  using ensure_law [OF assms(1,2,3)] assms(4,5) by (auto simp: others_kept_def active_def)

end

end
