(* ===== verification/Line_Protocol.thy ===== *)
theory Line_Protocol
  imports Telemetry
begin

text \<open>
  Metrics in the Influx line protocol (\<^verbatim>\<open>lineproto/influx_line_protocol.go\<close>): the syntax tree
  the grammar captures into and its conversion to the protocol's metrics. The parser generator is
  third-party code: what it makes of an input is an argument; of the grammar, which is part of
  the source, the alternatives of a field's value are given.
\<close>

section \<open>The syntax tree\<close>

record InfluxTagSet =
  tag_Key :: string
  tag_Value :: string

record InfluxFieldValue =
  fv_Int :: "uint64 option"
  fv_Float :: "float64 option"
  fv_Boolean :: "bool option"
  fv_String :: "string option"

record InfluxFieldSet =
  field_Key :: string
  field_Value :: InfluxFieldValue

record InfluxLine =
  MetricName :: string
  TagSet :: "InfluxTagSet list"
  FieldSet :: "InfluxFieldSet list"
  Timestamp :: uint64

type_synonym InfluxLines = "InfluxLine list"

section \<open>Tokens and the values captured from them\<close>

datatype token =
    TInt string | TFloat string | TComma | TSpace | TEquals | TNewline | TTestOutputPrefix
  | TQuotedString string | TString string

definition fixInfluxLineInt :: "string \<Rightarrow> string" where
  "fixInfluxLineInt v = (if HasSuffix v ''i'' then take (length v - 1) v else v)"

definition no_value :: InfluxFieldValue where
  "no_value = \<lparr>fv_Int = None, fv_Float = None, fv_Boolean = None, fv_String = None\<rparr>"

text \<open>
  The alternatives of \<^verbatim>\<open>InfluxFieldValue\<close> in their order, on the token of a value. The four
  spellings of a false boolean stand outside the capture. How the parser converts a text to the
  unsigned integer of the field is an argument. No value: the token is not a value or does not
  convert.
\<close>

definition capture_value :: "(string \<Rightarrow> uint64 option) \<Rightarrow> token \<Rightarrow> InfluxFieldValue option" where
  "capture_value to_uint t =
     (case t of
        TInt s \<Rightarrow> map_option (\<lambda>i. no_value\<lparr>fv_Int := Some i\<rparr>) (to_uint (fixInfluxLineInt s))
      | TFloat s \<Rightarrow> Some (no_value\<lparr>fv_Float := Some (FloatText s)\<rparr>)
      | TString s \<Rightarrow>
          (if s \<in> {''t'', ''T'', ''True'', ''TRUE''} then Some (no_value\<lparr>fv_Boolean := Some True\<rparr>)
           else if s \<in> {''f'', ''F'', ''False'', ''FALSE''} then Some no_value
           else Some (no_value\<lparr>fv_String := Some s\<rparr>))
      | TQuotedString s \<Rightarrow> Some (no_value\<lparr>fv_String := Some s\<rparr>)
      | _ \<Rightarrow> None)"

section \<open>Metrics\<close>

definition FormatBool :: "bool \<Rightarrow> string" where
  "FormatBool b = (if b then ''true'' else ''false'')"

text \<open>One field: into the string values, into the float values, or nowhere.\<close>

definition store_field :: "InfluxFieldSet \<Rightarrow> NameTagValueMetric \<Rightarrow> NameTagValueMetric" where
  "store_field field metric =
     (let v = field_Value field; k = field_Key field in
      case fv_String v of
        Some s \<Rightarrow> metric\<lparr>mt_svalues := (mt_svalues metric)(k \<mapsto> s)\<rparr>
      | None \<Rightarrow>
          (case fv_Boolean v of
             Some b \<Rightarrow> metric\<lparr>mt_svalues := (mt_svalues metric)(k \<mapsto> FormatBool b)\<rparr>
           | None \<Rightarrow>
               (case fv_Float v of
                  Some x \<Rightarrow> metric\<lparr>mt_fvalues := (mt_fvalues metric)(k \<mapsto> x)\<rparr>
                | None \<Rightarrow>
                    (case fv_Int v of
                       Some i \<Rightarrow> metric\<lparr>mt_fvalues := (mt_fvalues metric)(k \<mapsto> FloatInt (uint i))\<rparr>
                     | None \<Rightarrow> metric))))"

definition line_metric :: "InfluxLine \<Rightarrow> NameTagValueMetric" where
  "line_metric line =
     (let metric =
        \<lparr>mt_name = MetricName line,
         mt_timestamp = Timestamp line div 1000000,
         mt_tags = fold (\<lambda>tag m. m(tag_Key tag \<mapsto> tag_Value tag)) (TagSet line) Map.empty,
         mt_fvalues = Map.empty, mt_svalues = Map.empty\<rparr>
      in fold store_field (FieldSet line) metric)"

definition ParseInfluxLineProtocolMetrics ::
  "(string \<Rightarrow> InfluxLines result) \<Rightarrow> string \<Rightarrow> NameTagValueMetric list result" where
  "ParseInfluxLineProtocolMetrics parseBytes content =
     (case parseBytes content of
        Inl err \<Rightarrow> Inl err
      | Inr ls \<Rightarrow> Inr (map line_metric ls))"

section \<open>What a metric carries\<close>

text \<open>The value of a field as a string or a number.\<close>

definition string_value :: "InfluxFieldValue \<Rightarrow> string option" where
  "string_value v = (case fv_String v of Some s \<Rightarrow> Some s | None \<Rightarrow> map_option FormatBool (fv_Boolean v))"

definition number_value :: "InfluxFieldValue \<Rightarrow> float64 option" where
  "number_value v =
     (if string_value v \<noteq> None then None
      else case fv_Float v of Some x \<Rightarrow> Some x | None \<Rightarrow> map_option (FloatInt \<circ> uint) (fv_Int v))"

definition field_value :: "InfluxFieldSet list \<Rightarrow> string \<Rightarrow> InfluxFieldValue option" where
  "field_value fs k = map_of (map (\<lambda>f. (field_Key f, field_Value f)) fs) k"

lemma store_field_simps:
  "mt_name (store_field f m) = mt_name m" "mt_timestamp (store_field f m) = mt_timestamp m"
  "mt_tags (store_field f m) = mt_tags m"
  "mt_svalues (store_field f m) k =
     (if k = field_Key f \<and> string_value (field_Value f) \<noteq> None then string_value (field_Value f)
      else mt_svalues m k)"
  "mt_fvalues (store_field f m) k =
     (if k = field_Key f \<and> number_value (field_Value f) \<noteq> None then number_value (field_Value f)
      else mt_fvalues m k)"
  by (auto simp: store_field_def Let_def string_value_def number_value_def split: option.splits)

lemma fold_store_field_same:
  "mt_name (fold store_field fs m) = mt_name m"
  "mt_timestamp (fold store_field fs m) = mt_timestamp m"
  "mt_tags (fold store_field fs m) = mt_tags m"
  by (induction fs arbitrary: m) (auto simp: store_field_simps)

lemma field_value_Cons:
  "field_value (f # fs) k = (if k = field_Key f then Some (field_Value f) else field_value fs k)"
  by (simp add: field_value_def)

lemma field_value_None: "field_Key f \<notin> field_Key ` set fs \<Longrightarrow> field_value fs (field_Key f) = None"
  by (auto simp: field_value_def map_of_eq_None_iff image_iff)

lemma fold_svalues:
  "distinct (map field_Key fs) \<Longrightarrow>
   mt_svalues (fold store_field fs m) k =
     (case Option.bind (field_value fs k) string_value of None \<Rightarrow> mt_svalues m k | Some s \<Rightarrow> Some s)"
proof (induction fs arbitrary: m)
  case (Cons f fs)
  then show ?case
    using field_value_None [of f fs]
    by (auto simp: field_value_Cons store_field_simps split: option.splits)
qed (simp add: field_value_def)

lemma fold_fvalues:
  "distinct (map field_Key fs) \<Longrightarrow>
   mt_fvalues (fold store_field fs m) k =
     (case Option.bind (field_value fs k) number_value of None \<Rightarrow> mt_fvalues m k | Some s \<Rightarrow> Some s)"
proof (induction fs arbitrary: m)
  case (Cons f fs)
  then show ?case
    using field_value_None [of f fs]
    by (auto simp: field_value_Cons store_field_simps split: option.splits)
qed (simp add: field_value_def)

lemma timestamp_millis: "sint (t div 1000000 :: 64 word) = uint (t :: 64 word) div 1000000"
proof -
  have u: "uint (t div 1000000) = uint t div 1000000"
    by (simp add: uint_div)
  have "uint t < 2 ^ 64" using uint_lt2p [of t] by simp
  then have "uint t div 1000000 < 2 ^ 63" by simp
  moreover have "0 \<le> uint t div 1000000" by (intro pos_imp_zdiv_nonneg_iff [THEN iffD2]) auto
  ultimately show ?thesis
    unfolding sint_uint u by (intro signed_take_bit_int_eq_self) auto
qed


definition cpu_line :: InfluxLine where
  "cpu_line =
     \<lparr>MetricName = ''cpu'', TagSet = [],
      FieldSet = [\<lparr>field_Key = ''ival'', field_Value = no_value\<lparr>fv_Int := Some 5\<rparr>\<rparr>],
      Timestamp = 7000000\<rparr>"


text \<open>
  A field spelled \<^verbatim>\<open>f\<close>, \<^verbatim>\<open>F\<close>, \<^verbatim>\<open>False\<close> or \<^verbatim>\<open>FALSE\<close> is accepted by the grammar
  and reported nowhere; one spelled \<^verbatim>\<open>t\<close> is reported as true.
\<close>

lemma false_field_dropped:
  assumes "s \<in> {''f'', ''F'', ''False'', ''FALSE''}" and "capture_value to_uint (TString s) = Some v"
  shows "store_field \<lparr>field_Key = k, field_Value = v\<rparr> m = m"
  using assms by (auto simp: capture_value_def store_field_def no_value_def)

lemma true_field_kept:
  assumes "capture_value to_uint (TString ''t'') = Some v"
  shows "mt_svalues (store_field \<lparr>field_Key = k, field_Value = v\<rparr> m) k = Some ''true''"
  using assms by (auto simp: capture_value_def store_field_def no_value_def FormatBool_def)

text \<open>The suffix of an integer token is no part of its number.\<close>

lemma fixInfluxLineInt_suffix: "fixInfluxLineInt (v @ ''i'') = v"
  by (simp add: fixInfluxLineInt_def HasSuffix_iff)

end
