(* ===== verification/Telegraf_Runner.thy ===== *)
theory Telegraf_Runner
  imports Agent_Runner Line_Protocol
begin

text \<open>
  The telegraf runner (\<^verbatim>\<open>agents/telegraf.go\<close>, \<^verbatim>\<open>agents/telegraf_test_config_runner.go\<close>):
  configurations are kept in memory and served over HTTP to the agent, which is told by a signal
  to fetch them again.
\<close>

section \<open>State\<close>

record TelegrafRunner = AgentRunner +
  ingestAddress :: string
  configServerURL :: string
  configServerToken :: string
  tomlMainConfig :: string
  tomlConfigs :: "(string \<times> string) list"

record telegraf_load_env =
  load_listeners :: listener_addresses
  uuid_token :: string
  uuid_server :: string
  listen_port :: "nat result"
  DefaultMonitoringInterval :: duration
  MaxFlushInterval :: duration

definition quoted :: "string \<Rightarrow> string" where
  "quoted s = [CHR 0x22] @ s @ [CHR 0x22]"

record telegrafMainConfigData =
  mc_IngestAddress :: string
  mc_DefaultMonitoringInterval :: duration
  mc_MaxFlushInterval :: duration

definition telegrafMainConfigTmpl :: "telegrafMainConfigData \<Rightarrow> string" where
  "telegrafMainConfigTmpl data =
     text_lines
       [[],
        ''[agent]'',
        ''  interval = '' @ quoted (Duration_String (mc_DefaultMonitoringInterval data)),
        ''  flush_interval = '' @ quoted (Duration_String (mc_MaxFlushInterval data)),
        ''  flush_jitter = '' @ quoted ''2s'',
        ''  omit_hostname = true'',
        ''[[outputs.socket_writer]]'',
        ''  address = '' @ quoted (''tcp://'' @ mc_IngestAddress data),
        ''  data_format = '' @ quoted ''json'',
        ''  json_timestamp_units = '' @ quoted ''1ms'',
        ''[[inputs.internal]]'',
        ''  collect_memstats = false'']"

definition createMainConfig :: "string \<Rightarrow> duration \<Rightarrow> duration \<Rightarrow> string" where
  "createMainConfig ingest interval flush =
     telegrafMainConfigTmpl
       \<lparr>mc_IngestAddress = ingest, mc_DefaultMonitoringInterval = interval, mc_MaxFlushInterval = flush\<rparr>"

text \<open>\<^verbatim>\<open>Load\<close>: what is set before an error stays set.\<close>

definition Telegraf_Load ::
  "telegraf_load_env \<Rightarrow> path \<Rightarrow> TelegrafRunner \<Rightarrow> go_error option \<times> TelegrafRunner" where
  "Telegraf_Load env agentBasePath tr =
     (let tr = tr\<lparr>ingestAddress := GetListenerAddress (load_listeners env) TelegrafJsonListener,
                   basePath := agentBasePath,
                   configServerToken := uuid_token env\<rparr>
      in case listen_port env of
           Inl err \<Rightarrow> (Some (Wrapped ''couldn't create http listener'' err), tr)
         | Inr port \<Rightarrow>
             (None,
              tr\<lparr>configServerURL := ''http://127.0.0.1:'' @ show_nat port @ ''/'' @ uuid_server env,
                 tomlConfigs := [],
                 tomlMainConfig :=
                   createMainConfig (ingestAddress tr) (DefaultMonitoringInterval env) (MaxFlushInterval env)\<rparr>))"

definition Telegraf_PurgeConfig :: "TelegrafRunner \<Rightarrow> TelegrafRunner" where
  "Telegraf_PurgeConfig tr = tr\<lparr>tomlConfigs := []\<rparr>"

section \<open>Configurations\<close>

definition handleTelegrafConfigurationOp ::
  "libs \<Rightarrow> ConfigurationOp \<Rightarrow> (string \<times> string) list \<Rightarrow> bool \<times> (string \<times> string) list" where
  "handleTelegrafConfigurationOp lb op configs =
     (let store =
        (case ConvertJsonToTelegrafToml lb (op_content op) (op_extraLabels op) (op_interval op) of
           Inl _ \<Rightarrow> (False, configs)
         | Inr finalConfig \<Rightarrow> (True, AList.update (op_id op) finalConfig configs))
      in case op_type op of
           CREATE \<Rightarrow> store
         | MODIFY \<Rightarrow> store
         | REMOVE \<Rightarrow>
             (if map_of configs (op_id op) \<noteq> None then (True, AList.delete (op_id op) configs)
              else (False, configs))
         | OtherOp _ \<Rightarrow> (False, configs))"

definition Telegraf_ProcessConfig ::
  "libs \<Rightarrow> EnvoyInstructionConfigure \<Rightarrow> TelegrafRunner \<Rightarrow> go_error option \<times> TelegrafRunner" where
  "Telegraf_ProcessConfig lb configure tr =
     (case apply_ops (handleTelegrafConfigurationOp lb) (conf_operations configure) 0 (tomlConfigs tr) of
        (applied, configs) \<Rightarrow>
          (if applied = 0 then Some NoAppliedConfigsError else None, tr\<lparr>tomlConfigs := configs\<rparr>))"

definition inputs_header :: string where "inputs_header = ''[inputs]''"

definition strip_inputs :: "string \<Rightarrow> string" where
  "strip_inputs v = (if take 8 v = inputs_header then drop 8 v else v)"

text \<open>
  \<^verbatim>\<open>concatConfigs\<close>, the entries of the map in the order of the range loop. A configuration of
  no bytes has no backing array, and slicing it panics; any other one is long enough, or its
  buffer is.
\<close>

definition concatConfigs ::
  "((string \<times> string) list \<Rightarrow> (string \<times> string) list) \<Rightarrow> TelegrafRunner \<Rightarrow> string option" where
  "concatConfigs ord tr =
     (let vs = map snd (ord (tomlConfigs tr)) in
      if [] \<in> set vs then None
      else Some (tomlMainConfig tr @ inputs_header @ concat (map strip_inputs vs)))"

text \<open>An aborted response is one whose handler panicked; the HTTP server survives that.\<close>

datatype http_response = HttpResponse nat string | HttpAborted

definition configServerHandler ::
  "((string \<times> string) list \<Rightarrow> (string \<times> string) list) \<Rightarrow> TelegrafRunner \<Rightarrow> string \<Rightarrow> http_response" where
  "configServerHandler ord tr authorization =
     (if authorization \<noteq> ''Token '' @ configServerToken tr
      then HttpResponse 401 (''unauthorized'' @ newline)
      else case concatConfigs ord tr of None \<Rightarrow> HttpAborted | Some body \<Rightarrow> HttpResponse 200 body)"

section \<open>Running\<close>

definition Telegraf_exePath :: string where
  "Telegraf_exePath = currentVerLink @ ''/'' @ binSubpath @ ''/'' @ ''telegraf''"

definition hasRequiredPaths :: "faults \<Rightarrow> fs \<Rightarrow> TelegrafRunner \<Rightarrow> bool" where
  "hasRequiredPaths flt fs tr = fileExists flt fs (Join (basePath tr) Telegraf_exePath)"

definition Telegraf_EnsureRunningState ::
  "request_env \<Rightarrow> fs \<Rightarrow> bool \<Rightarrow> handler_state \<Rightarrow> TelegrafRunner \<Rightarrow> bool \<times> handler_state \<times> TelegrafRunner" where
  "Telegraf_EnsureRunningState env fs applyConfigs h tr =
     (if \<not> hasRequiredPaths (env_faults env) fs tr then (False, Stop (env_handler env) (running tr) h, tr)
      else if IsRunning h (running tr) then
        (False, if applyConfigs then Signal (running tr) SIGHUP h else h, tr)
      else
        (case CreateContext TELEGRAF Telegraf_exePath (basePath tr) [''--config'', configServerURL tr] h of
           (c, h) \<Rightarrow>
             (let h = AppendEnv [''INFLUX_TOKEN='' @ configServerToken tr] c h in
              case StartAgentCommand (env_handler env) c ''Loaded inputs:'' h of
                (Some err, h) \<Rightarrow> (False, h, tr)
              | (None, h) \<Rightarrow> (False, go_WaitOnAgentCommand c h, tr\<lparr>running := Some c\<rparr>))))"

definition Telegraf_Stop ::
  "handler_env \<Rightarrow> handler_state \<Rightarrow> TelegrafRunner \<Rightarrow> handler_state \<times> TelegrafRunner" where
  "Telegraf_Stop env h tr = (Stop env (running tr) h, tr\<lparr>running := None\<rparr>)"

text \<open>\<^verbatim>\<open>PostInstall\<close>: a failure to set the capability is only logged.\<close>

definition Telegraf_PostInstall :: "path \<Rightarrow> go_error option" where
  "Telegraf_PostInstall agentVersionPath = None"

section \<open>Test monitors\<close>

text \<open>
  What the test run meets: a port to listen on, the outcome of each run of the command (given the
  port, the timeout and the attempt) and the errors the config server reports.
\<close>

record test_env =
  test_listen :: "nat result"
  test_uuid_server :: string
  test_uuid_token :: string
  AgentsTestMonitorTimeout :: duration
  test_command :: "Cmd \<Rightarrow> duration \<Rightarrow> nat \<Rightarrow> string \<times> go_error option"
  configServerErrors :: "go_error list"
  test_parse :: "string \<Rightarrow> InfluxLines result"

definition RunCommand ::
  "test_env \<Rightarrow> nat \<Rightarrow> string \<Rightarrow> string \<Rightarrow> path \<Rightarrow> duration \<Rightarrow> string \<times> go_error option" where
  "RunCommand te attempt hostPort exePath base timeout =
     (let execTimeout = (if timeout = 0 then AgentsTestMonitorTimeout te else timeout);
          testConfigServerUrl = ''http://'' @ hostPort @ ''/'' @ test_uuid_server te;
          cmd = \<lparr>cmd_path = exePath, cmd_args = [''--test'', ''--config'', testConfigServerUrl],
                 cmd_dir = base, cmd_env = [''INFLUX_TOKEN='' @ test_uuid_token te],
                 cmd_process = False, cmd_state = None\<rparr>
      in test_command te cmd execTimeout attempt)"

definition telegrafMaxTestMonitorRetries :: nat where
  "telegrafMaxTestMonitorRetries = 3"

text \<open>The retry loop, \<open>left\<close> attempts being left; the last output and error.\<close>

fun retry_command ::
  "(nat \<Rightarrow> string \<times> go_error option) \<Rightarrow> nat \<Rightarrow> nat \<Rightarrow> string \<times> go_error option \<Rightarrow> string \<times> go_error option" where
  "retry_command run attempt 0 last_result = last_result"
| "retry_command run attempt (Suc left) last_result =
     (let (cmdOut, err) = run attempt in
      if err \<noteq> None \<or> cmdOut \<noteq> [] then (cmdOut, err)
      else retry_command run (Suc attempt) left (cmdOut, err))"

definition command_errors :: "go_error \<Rightarrow> string list" where
  "command_errors err =
     (case err of
        ExitError message stderr \<Rightarrow>
          [if message = ''signal: killed'' then ''Command took too long to run''
           else ''Command failed: '' @ message,
           ''Command failed with error output: '' @ stderr]
      | _ \<Rightarrow> [''Command failed: '' @ Error err])"

definition Telegraf_ProcessTestMonitor ::
  "test_env \<Rightarrow> libs \<Rightarrow> TelegrafRunner \<Rightarrow> string \<Rightarrow> string \<Rightarrow> duration \<Rightarrow> TestMonitorResults result" where
  "Telegraf_ProcessTestMonitor te lb tr correlationId content timeout =
     (case ConvertJsonToTelegrafToml lb content [] 0 of
        Inl err \<Rightarrow> Inl (Wrapped ''failed to convert config content'' err)
      | Inr configToml \<Rightarrow>
          (case test_listen te of
             Inl err \<Rightarrow> Inl (Wrapped ''couldn't create http listener'' err)
           | Inr listenerPort \<Rightarrow>
               (let hostPort = ''127.0.0.1:'' @ show_nat listenerPort;
                    (cmdOut, err) =
                      retry_command (\<lambda>attempt. RunCommand te attempt hostPort Telegraf_exePath (basePath tr) timeout)
                        0 telegrafMaxTestMonitorRetries ([], None);
                    (errors, metrics) =
                      (case err of
                         Some e \<Rightarrow> (command_errors e, [])
                       | None \<Rightarrow>
                           (case ParseInfluxLineProtocolMetrics (test_parse te) cmdOut of
                              Inl e \<Rightarrow> ([''Failed to parse telegraf output: '' @ Error e], [])
                            | Inr parsedMetrics \<Rightarrow> ([], parsedMetrics)))
                in Inr \<lparr>res_correlationId = correlationId,
                        res_errors = errors @ map (\<lambda>e. ''ConfigServer: '' @ Error e) (configServerErrors te),
                        res_metrics = metrics\<rparr>)))"

section \<open>The store of configurations\<close>

definition telegraf_toml :: "libs \<Rightarrow> ConfigurationOp \<Rightarrow> string option" where
  "telegraf_toml lb = convert_content lb ConversionJsonToTelegrafToml"

lemma telegraf_op_law:
  assumes "handleTelegrafConfigurationOp lb op configs = (b, configs')"
  shows "map_of configs' = config_step (telegraf_toml lb) replace_content op (map_of configs)"
    and "distinct (map fst configs) \<Longrightarrow> distinct (map fst configs')"
  using assms
  by (auto simp: handleTelegrafConfigurationOp_def Let_def telegraf_toml_def convert_content_def
        config_step_def replace_content_def update_conv' delete_conv' distinct_update distinct_delete fun_eq_iff
        split: OpType.splits sum.splits if_splits)

lemma telegraf_write_applied:
  assumes "is_write op"
  shows "fst (handleTelegrafConfigurationOp lb op configs) \<longleftrightarrow> telegraf_toml lb op \<noteq> None"
  using assms
  by (auto simp: is_write_def handleTelegrafConfigurationOp_def Let_def telegraf_toml_def convert_content_def
      split: sum.splits)

interpretation telegraf_store: replacing_store "\<lambda>_. True" "\<lambda>_. True" map_of "telegraf_toml lb"
  "handleTelegrafConfigurationOp lb" for lb
  by unfold_locales (use telegraf_op_law telegraf_write_applied in blast)+

lemma telegraf_ops_distinct:
  "distinct (map fst configs) \<Longrightarrow>
   distinct (map fst (snd (apply_ops (handleTelegrafConfigurationOp lb) ops n configs)))"
proof (induction ops arbitrary: n configs)
  case (Cons op ops)
  obtain b configs' where h: "handleTelegrafConfigurationOp lb op configs = (b, configs')" by fastforce
  then have "distinct (map fst configs')" using telegraf_op_law(2) Cons.prems by blast
  with Cons.IH [of configs' "if b then Suc n else n"] h show ?case by simp
qed simp

text \<open>
  What telegraf is configured with: after an instruction's operations the configuration of an
  id is what the last operation on it left, the converted content of a \<^verbatim>\<open>CREATE\<close> or
  \<^verbatim>\<open>MODIFY\<close> that converts and nothing after a \<^verbatim>\<open>REMOVE\<close>; ids the instruction does not
  mention keep theirs; and an instruction with a write that converts is reported as applied.
\<close>

lemma Telegraf_ProcessConfig_last_op:
  assumes "conf_operations configure = before @ op # after" and "op_id op \<notin> op_id ` set after"
    and "Telegraf_ProcessConfig lb configure tr = (err, tr')"
  shows "(\<forall>toml. is_write op \<longrightarrow>
            ConvertJsonToTelegrafToml lb (op_content op) (op_extraLabels op) (op_interval op) = Inr toml \<longrightarrow>
            map_of (tomlConfigs tr') (op_id op) = Some toml \<and> err = None) \<and>
         (op_type op = REMOVE \<longrightarrow> map_of (tomlConfigs tr') (op_id op) = None) \<and>
         (\<forall>i. i \<notin> op_id ` set (conf_operations configure) \<longrightarrow>
            map_of (tomlConfigs tr') i = map_of (tomlConfigs tr) i)"
proof -
  let ?h = "handleTelegrafConfigurationOp lb" and ?ops = "conf_operations configure"
  have tr': "tomlConfigs tr' = snd (apply_ops ?h ?ops 0 (tomlConfigs tr))"
    and err: "err = (if fst (apply_ops ?h ?ops 0 (tomlConfigs tr)) = 0 then Some NoAppliedConfigsError else None)"
    using assms(3) by (auto simp: Telegraf_ProcessConfig_def split: prod.splits)
  note last = telegraf_store.last_op_decides
    [where s = "tomlConfigs tr" and before = before and op = op and after = after and lb = lb, folded assms(1)]
  have "map_of (tomlConfigs tr') (op_id op) = Some toml \<and> err = None"
    if "is_write op"
      and "ConvertJsonToTelegrafToml lb (op_content op) (op_extraLabels op) (op_interval op) = Inr toml" for toml
  proof -
    have t: "telegraf_toml lb op = Some toml"
      using that(2) by (simp add: telegraf_toml_def convert_content_def)
    have "0 < fst (apply_ops ?h ?ops 0 (tomlConfigs tr))"
      using telegraf_store.apply_ops_some [where s = "tomlConfigs tr" and ops = ?ops and op = op and lb = lb and n = 0] assms(1) that(1) t
      by (simp add: list_all_iff)
    then show ?thesis
      using last(1) [OF _ _ assms(2) that(1) t] tr' err by (simp add: list_all_iff)
  qed
  moreover have "op_type op = REMOVE \<Longrightarrow> map_of (tomlConfigs tr') (op_id op) = None"
    using last(2) [OF _ _ assms(2)] tr' by (simp add: list_all_iff)
  moreover have "map_of (tomlConfigs tr') i = map_of (tomlConfigs tr) i" if "i \<notin> op_id ` set ?ops" for i
    using telegraf_store.untouched_kept [OF _ _ that, where s = "tomlConfigs tr" and lb = lb] tr' by (simp add: list_all_iff)
  ultimately show ?thesis by blast
qed

definition mem_op :: "OpType \<Rightarrow> ConfigurationOp" where
  "mem_op ty =
     \<lparr>op_id = ''m1'', op_type = ty, op_content = mem_json, op_extraLabels = [], op_interval = 0\<rparr>"

definition idle_telegraf :: TelegrafRunner where
  "idle_telegraf =
     \<lparr>basePath = [''data'', ''agents'', ''TELEGRAF''], running = None, ingestAddress = ''127.0.0.1:8094'',
      configServerURL = ''http://127.0.0.1:9000/s'', configServerToken = ''t'', tomlMainConfig = ''main'',
      tomlConfigs = []\<rparr>"

lemma Telegraf_ProcessConfig_last_op_witness:
  "map_of (tomlConfigs (snd (Telegraf_ProcessConfig plain_libs
     \<lparr>conf_agentType = TELEGRAF, conf_operations = [mem_op CREATE, mem_op REMOVE]\<rparr> idle_telegraf))) ''m1'' = None"
  using Telegraf_ProcessConfig_last_op
    [of "\<lparr>conf_agentType = TELEGRAF, conf_operations = [mem_op CREATE, mem_op REMOVE]\<rparr>"
      "[mem_op CREATE]" "mem_op REMOVE" "[]" plain_libs idle_telegraf]
  by (simp add: mem_op_def prod_eq_iff)

section \<open>What is served\<close>

lemma strip_inputs_prefix: "strip_inputs v = (if HasPrefix v ''[inputs]'' then drop 8 v else v)"
  using prefix_take [of "''[inputs]''" v] by (simp add: strip_inputs_def inputs_header_def HasPrefix_iff eval_nat_numeral)

text \<open>The holder of the token is given the configurations in the order of the range loop.\<close>

lemma config_server_serves:
  assumes "mset (ord (tomlConfigs tr)) = mset (tomlConfigs tr)" and "[] \<notin> snd ` set (tomlConfigs tr)"
  shows "mset (map snd (ord (tomlConfigs tr))) = mset (map snd (tomlConfigs tr)) \<and>
    configServerHandler ord tr (''Token '' @ configServerToken tr) =
      HttpResponse 200 (tomlMainConfig tr @ inputs_header @ concat (map strip_inputs (map snd (ord (tomlConfigs tr)))))"
proof -
  have m: "mset (map snd (ord (tomlConfigs tr))) = mset (map snd (tomlConfigs tr))" using assms(1) by simp
  have "[] \<notin> set (map snd (ord (tomlConfigs tr)))" using assms(2) mset_eq_setD [OF m] by simp
  then show ?thesis using m by (simp add: configServerHandler_def concatConfigs_def Let_def)
qed

text \<open>
  C13 The configuration server gives its content to the holder of the token only. Served content is
  the main configuration, one header, and every stored configuration exactly once, without the
  header of its own, whatever the order of the range loop.
\<close>

theorem config_server_correct:
  assumes "mset (ord (tomlConfigs tr)) = mset (tomlConfigs tr)"
  shows "(authorization \<noteq> ''Token '' @ configServerToken tr \<longrightarrow>
            configServerHandler ord tr authorization = HttpResponse 401 (''unauthorized'' @ newline)) \<and>
         (authorization = ''Token '' @ configServerToken tr \<longrightarrow> [] \<notin> snd ` set (tomlConfigs tr) \<longrightarrow>
            (\<exists>vs. mset vs = mset (map snd (tomlConfigs tr)) \<and>
               configServerHandler ord tr authorization =
                 HttpResponse 200 (tomlMainConfig tr @ ''[inputs]'' @
                   concat (map (\<lambda>v. if HasPrefix v ''[inputs]'' then drop 8 v else v) vs))))"
proof -
  have s: "strip_inputs = (\<lambda>v. if HasPrefix v ''[inputs]'' then drop 8 v else v)"
    by (rule ext) (rule strip_inputs_prefix)
  show ?thesis
    using config_server_serves [of ord tr, OF assms]
    by (auto simp: s inputs_header_def configServerHandler_def intro!: exI [of _ "map snd (ord (tomlConfigs tr))"])
qed

lemma config_server_correct_witness:
  "configServerHandler id (idle_telegraf\<lparr>tomlConfigs := [(''a'', ''[inputs]x'')]\<rparr>) ''Token t'' =
     HttpResponse 200 ''main[inputs]x''"
  using config_server_correct [of id "idle_telegraf\<lparr>tomlConfigs := [(''a'', ''[inputs]x'')]\<rparr>" "''Token t''"]
  by (simp add: idle_telegraf_def HasPrefix_def)

section \<open>The runner contract\<close>

lemma Telegraf_ensure_law:
  assumes "runners_inv R h" and "R TELEGRAF = running tr"
    and "Telegraf_EnsureRunningState env fs b h tr = (fatal, h', tr')"
  shows "runners_inv (R(TELEGRAF := running tr')) h' \<and> others_kept TELEGRAF h h'"
proof (cases "\<not> hasRequiredPaths (env_faults env) fs tr \<or> IsRunning h (running tr)")
  case True
  then show ?thesis
    using assms stop_running [OF assms(1), where env = "env_handler env" and a = TELEGRAF]
      signal_running [OF assms(1), where a = TELEGRAF and sg = SIGHUP]
    by (auto simp: Telegraf_EnsureRunningState_def split: if_splits) (simp_all add: fun_upd_idem)
next
  case False
  obtain c h1 where c: "CreateContext TELEGRAF Telegraf_exePath (basePath tr)
      [''--config'', configServerURL tr] h = (c, h1)" by fastforce
  define h2 where "h2 = AppendEnv [''INFLUX_TOKEN='' @ configServerToken tr] c h1"
  obtain r h3 where s: "StartAgentCommand (env_handler env) c ''Loaded inputs:'' h2 = (r, h3)" by fastforce
  have "launching TELEGRAF R h h1 c"
    using launching_create [OF assms(1) not_running_no_active [OF assms(1)] c] False assms(2) by simp
  then have l: "launching TELEGRAF R h h2 c" unfolding h2_def by (rule launching_env)
  show ?thesis
  proof (cases r)
    case None
    then have "h' = go_WaitOnAgentCommand c h3" "running tr' = Some c"
      using assms(3) False c s by (auto simp: Telegraf_EnsureRunningState_def h2_def Let_def)
    then show ?thesis using launching_started [OF l] s None by simp
  next
    case (Some e)
    then have "h' = h3" "tr' = tr"
      using assms(3) False c s by (auto simp: Telegraf_EnsureRunningState_def h2_def Let_def)
    then show ?thesis
      using launching_start_failed [OF l] s Some assms(2) by (auto simp: fun_upd_idem)
  qed
qed

lemma Telegraf_stop_law:
  assumes "runners_inv R h" and "R TELEGRAF = running tr" and "Telegraf_Stop henv h tr = (h', tr')"
  shows "runners_inv (R(TELEGRAF := None)) h' \<and> others_kept TELEGRAF h h' \<and> no_active TELEGRAF h' \<and>
     running tr' = None \<and> restarts h' = restarts h"
  using assms stop_running [OF assms(1), where env = henv and a = TELEGRAF] by (auto simp: Telegraf_Stop_def)

interpretation telegraf: agent_runner TELEGRAF running Telegraf_EnsureRunningState Telegraf_Stop
  by unfold_locales (use Telegraf_ensure_law Telegraf_stop_law in blast)+

lemma Telegraf_launch:
  assumes "runners_inv R h" and "R TELEGRAF = running tr"
    and "hasRequiredPaths (env_faults env) fs tr" and "\<not> IsRunning h (running tr)"
    and "starts_ok (env_handler env) (nextCtx h) ''Loaded inputs:''"
  obtains h' where "Telegraf_EnsureRunningState env fs b h tr = (False, h', tr\<lparr>running := Some (nextCtx h)\<rparr>)"
    and "active h' (nextCtx h)"
    and "runs_command h' (nextCtx h)
      \<lparr>cmd_path = Telegraf_exePath, cmd_args = [''--config'', configServerURL tr], cmd_dir = basePath tr,
       cmd_env = [''INFLUX_TOKEN='' @ configServerToken tr], cmd_process = True, cmd_state = None\<rparr>"
proof -
  obtain c h1 where c: "CreateContext TELEGRAF Telegraf_exePath (basePath tr)
      [''--config'', configServerURL tr] h = (c, h1)" by fastforce
  define h2 where "h2 = AppendEnv [''INFLUX_TOKEN='' @ configServerToken tr] c h1"
  have cn: "c = nextCtx h" using CreateContext_cmd(1) [OF c] .
  obtain x where x: "ctxs h2 c = Some x"
    "arc_cmd x = Some \<lparr>cmd_path = Telegraf_exePath, cmd_args = [''--config'', configServerURL tr],
        cmd_dir = basePath tr, cmd_env = [''INFLUX_TOKEN='' @ configServerToken tr], cmd_process = False,
        cmd_state = None\<rparr>"
    using CreateContext_cmd(2) [OF c] by (auto simp: h2_def AppendEnv_def)
  obtain h3 where s: "StartAgentCommand (env_handler env) c ''Loaded inputs:'' h2 = (None, h3)"
    and r: "runs_command (go_WaitOnAgentCommand c h3) c (the (arc_cmd x)\<lparr>cmd_process := True\<rparr>)"
    using StartAgentCommand_ok [OF _ x] assms(5) cn x(2) by auto
  have "launching TELEGRAF R h h1 c"
    using launching_create [OF assms(1) not_running_no_active [OF assms(1)] c] assms(2,4) by simp
  then have l: "launching TELEGRAF R h h2 c" unfolding h2_def by (rule launching_env)
  have "Telegraf_EnsureRunningState env fs b h tr = (False, go_WaitOnAgentCommand c h3, tr\<lparr>running := Some c\<rparr>)"
    using assms(3,4) c s by (simp add: Telegraf_EnsureRunningState_def h2_def)
  with launching_started [OF l s] r x(2) that cn show ?thesis by auto
qed


definition telegraf_installed :: fs where
  "telegraf_installed =
     [([''data''], Dir), ([''data'', ''agents''], Dir), ([''data'', ''agents'', ''TELEGRAF''], Dir),
      ([''data'', ''agents'', ''TELEGRAF'', ''1.0''], Dir),
      ([''data'', ''agents'', ''TELEGRAF'', ''1.0'', ''bin''], Dir),
      ([''data'', ''agents'', ''TELEGRAF'', ''1.0'', ''bin'', ''telegraf''], File ''exe''),
      ([''data'', ''agents'', ''TELEGRAF'', ''CURRENT''], Link ''1.0'')]"

definition good_start :: "string \<Rightarrow> start_env" where
  "good_start line =
     \<lparr>pipesOk = True, execOk = True,
      outputEvents = (if line = [] then [Receive] else [LineRead Stdout line, SendDone Stdout, Receive])\<rparr>"

definition good_env :: "string \<Rightarrow> request_env" where
  "good_env line =
     \<lparr>env_faults = no_faults,
      env_handler = \<lparr>start_of = \<lambda>_. good_start line, stop_of = \<lambda>_. \<lparr>endsInTime = True, endStatus = StatusSignaled 15\<rparr>\<rparr>,
      env_libs = plain_libs, env_listeners = Map.empty\<rparr>"

lemma runners_inv_initial: "runners_inv (\<lambda>_. None) initial_handler"
  by (simp add: runners_inv_def handler_inv_def slots_ok_def active_def initial_handler_def)


section \<open>The test monitor\<close>

lemma retry_command_stops:
  "\<exists>i \<le> left. (\<forall>j < i. run (attempt + j) = ([], None)) \<and>
     (i < left \<longrightarrow> run (attempt + i) \<noteq> ([], None)) \<and>
     retry_command run attempt (Suc left) last_result = run (attempt + i)"
proof (induction left arbitrary: attempt last_result)
  case 0
  show ?case by (auto split: prod.splits)
next
  case (Suc left)
  show ?case
  proof (cases "run attempt = ([], None)")
    case True
    obtain i where i: "i \<le> left" "\<forall>j < i. run (Suc attempt + j) = ([], None)"
      "i < left \<longrightarrow> run (Suc attempt + i) \<noteq> ([], None)"
      "retry_command run (Suc attempt) (Suc left) ([], None) = run (Suc attempt + i)"
      using Suc [of "Suc attempt" "([], None)"] by blast
    have "\<forall>j < Suc i. run (attempt + j) = ([], None)"
      using i(2) True by (auto simp: less_Suc_eq_0_disj)
    moreover have "retry_command run attempt (Suc (Suc left)) last_result = run (Suc attempt + i)"
      using True i(4) by (subst retry_command.simps) simp
    ultimately show ?thesis
      using i(1,3) by (intro exI [of _ "Suc i"]) auto
  next
    case False
    then have "retry_command run attempt (Suc (Suc left)) last_result = run attempt"
      by (subst retry_command.simps) (auto split: prod.splits)
    with False show ?thesis by (intro exI [of _ 0]) auto
  qed
qed

text \<open>
  C16 A telegraf test monitor whose content converts and that can listen on a port gives results
  under the request's id: they are made from the first of at most three runs of the command that
  fails or prints something, or from the third; an error of the command or of the parser is
  reported and leaves no metrics, otherwise the metrics are those parsed from the output and the
  only errors are those of the configuration server.
\<close>

theorem Telegraf_ProcessTestMonitor_result:
  assumes "ConvertJsonToTelegrafToml lb content [] 0 = Inr toml" and "test_listen te = Inr port"
  shows "\<exists>i < 3. \<exists>res.
    (let run = (\<lambda>j. RunCommand te j (''127.0.0.1:'' @ show_nat port) ''CURRENT/bin/telegraf'' (basePath tr) timeout);
         server_errors = map (\<lambda>e. ''ConfigServer: '' @ Error e) (configServerErrors te)
     in (\<forall>j < i. run j = ([], None)) \<and> (i < 2 \<longrightarrow> run i \<noteq> ([], None)) \<and>
        Telegraf_ProcessTestMonitor te lb tr correlationId content timeout = Inr res \<and>
        res_correlationId res = correlationId \<and>
        (case run i of
           (out, Some err) \<Rightarrow> res_metrics res = [] \<and> res_errors res = command_errors err @ server_errors
         | (out, None) \<Rightarrow>
             (case ParseInfluxLineProtocolMetrics (test_parse te) out of
                Inl e \<Rightarrow> res_metrics res = [] \<and>
                  res_errors res = (''Failed to parse telegraf output: '' @ Error e) # server_errors
              | Inr ms \<Rightarrow> res_metrics res = ms \<and> res_errors res = server_errors)))"
proof -
  let ?run = "\<lambda>j. RunCommand te j (''127.0.0.1:'' @ show_nat port) Telegraf_exePath (basePath tr) timeout"
  have exe: "Telegraf_exePath = ''CURRENT/bin/telegraf''"
    by (simp add: Telegraf_exePath_def currentVerLink_def binSubpath_def)
  obtain i where i: "i \<le> 2" "\<forall>j < i. ?run j = ([], None)" "i < 2 \<longrightarrow> ?run i \<noteq> ([], None)"
    "retry_command ?run 0 3 ([], None) = ?run i"
    using retry_command_stops [of 2 ?run 0 "([], None)"] by (auto simp: eval_nat_numeral)
  obtain out err where o: "?run i = (out, err)" by fastforce
  have res: "Telegraf_ProcessTestMonitor te lb tr correlationId content timeout =
     Inr \<lparr>res_correlationId = correlationId,
          res_errors = (case err of Some e \<Rightarrow> command_errors e
            | None \<Rightarrow> (case ParseInfluxLineProtocolMetrics (test_parse te) out of
                 Inl e \<Rightarrow> [''Failed to parse telegraf output: '' @ Error e] | Inr _ \<Rightarrow> []))
            @ map (\<lambda>e. ''ConfigServer: '' @ Error e) (configServerErrors te),
          res_metrics = (case err of Some e \<Rightarrow> []
            | None \<Rightarrow> (case ParseInfluxLineProtocolMetrics (test_parse te) out of Inl _ \<Rightarrow> [] | Inr ms \<Rightarrow> ms))\<rparr>"
    using assms i(4) o
    by (auto simp: Telegraf_ProcessTestMonitor_def telegrafMaxTestMonitorRetries_def Let_def
        split: option.split sum.split)
  show ?thesis
    unfolding Let_def exe [symmetric]
    by (rule exI [of _ i]) (use i o res in \<open>auto split: option.split sum.split\<close>)
qed

definition quiet_test :: test_env where
  "quiet_test =
     \<lparr>test_listen = Inr 9999, test_uuid_server = ''s'', test_uuid_token = ''t'',
      AgentsTestMonitorTimeout = duration_seconds 30,
      test_command = (\<lambda>_ _ attempt. if attempt = 0 then ([], None) else (''> cpu'', None)),
      configServerErrors = [], test_parse = (\<lambda>s. if s = [] then Inl (ErrorString ''empty'') else Inr [cpu_line])\<rparr>"

lemma Telegraf_ProcessTestMonitor_result_witness:
  "\<exists>res. Telegraf_ProcessTestMonitor quiet_test plain_libs idle_telegraf ''id'' mem_json 0 = Inr res \<and>
     res_errors res = [] \<and> length (res_metrics res) = 1"
proof -
  obtain toml where t: "ConvertJsonToTelegrafToml plain_libs mem_json [] 0 = Inr toml"
    by (simp add: ConvertJsonToTelegrafToml_def mem_json_decoded plain_libs_def Let_def)
  have "test_listen quiet_test = Inr 9999" by (simp add: quiet_test_def)
  note result = Telegraf_ProcessTestMonitor_result [OF t this, of idle_telegraf 0 "''id''"]
  let ?run = "\<lambda>j. RunCommand quiet_test j (''127.0.0.1:'' @ show_nat 9999) ''CURRENT/bin/telegraf'' (basePath idle_telegraf) 0"
  have run: "?run j = (if j = 0 then ([], None) else (''> cpu'', None))" for j
    by (simp add: RunCommand_def quiet_test_def)
  have parse: "ParseInfluxLineProtocolMetrics (test_parse quiet_test) ''> cpu'' = Inr [line_metric cpu_line]"
    by (simp add: ParseInfluxLineProtocolMetrics_def quiet_test_def)
  have errs: "configServerErrors quiet_test = []" by (simp add: quiet_test_def)
  obtain i res where i: "\<forall>j < i. ?run j = ([], None)" "i < 2 \<longrightarrow> ?run i \<noteq> ([], None)" "i < 3"
    and res: "Telegraf_ProcessTestMonitor quiet_test plain_libs idle_telegraf ''id'' mem_json 0 = Inr res"
    and out: "case ?run i of
           (out, Some err) \<Rightarrow> res_metrics res = [] \<and> res_errors res = command_errors err @ []
         | (out, None) \<Rightarrow>
             (case ParseInfluxLineProtocolMetrics (test_parse quiet_test) out of
                Inl e \<Rightarrow> res_metrics res = [] \<and>
                  res_errors res = (''Failed to parse telegraf output: '' @ Error e) # []
              | Inr ms \<Rightarrow> res_metrics res = ms \<and> res_errors res = [])"
    using result unfolding Let_def errs list.map by (elim exE conjE) (rule that; assumption)
  have "i \<noteq> 0"
  proof
    assume "i = 0"
    with i(2) run [of 0] show False by simp
  qed
  moreover have "\<not> 1 < i" using i(1) run [of 1] by auto
  ultimately have "i = 1" by simp
  with out res run [of 1] parse show ?thesis by simp
qed

end
