(* ===== verification/Filebeat_Runner.thy ===== *)
theory Filebeat_Runner
  imports Telegraf_Runner
begin

text \<open>
  The filebeat runner (\<^verbatim>\<open>agents/filebeat.go\<close>): a main configuration file written once, one
  file per configuration, which the agent reloads by itself.
\<close>

section \<open>Operations\<close>

definition filebeatMainConfigFilename :: string where "filebeatMainConfigFilename = ''filebeat.yml''"
definition filebeatExeName :: string where "filebeatExeName = ''filebeat''"

definition filebeatMainConfig :: "string \<Rightarrow> string \<Rightarrow> string" where
  "filebeatMainConfig configsPath lumberjackAddress =
     text_lines
       [[],
        ''filebeat.config.inputs:'',
        ''  enabled: true'',
        ''  path: '' @ configsPath @ ''/*.yml'',
        ''  reload.enabled: true'',
        ''  reload.period: 5s'',
        ''output.logstash:'',
        ''  hosts: ['' @ quoted lumberjackAddress @ '']'']"

definition Filebeat_createMainConfig ::
  "faults \<Rightarrow> listener_addresses \<Rightarrow> path \<Rightarrow> fs \<Rightarrow> go_error option \<times> fs" where
  "Filebeat_createMainConfig flt addrs mainConfigPath fs =
     (case os_OpenFile flt fs mainConfigPath of
        (Inl err, fs) \<Rightarrow> (Some (Wrapped ''unable to open main filebeat config file'' err), fs)
      | (Inr file, fs) \<Rightarrow>
          (case file_Write flt fs file
              (filebeatMainConfig configsDirSubpath (GetListenerAddress addrs LumberjackListener)) of
             (Some err, fs) \<Rightarrow> (Some (Wrapped ''failed to execute filebeat main config template'' err), fs)
           | (None, fs) \<Rightarrow> (None, fs)))"

definition Filebeat_ProcessConfig ::
  "request_env \<Rightarrow> EnvoyInstructionConfigure \<Rightarrow> AgentRunner \<Rightarrow> fs \<Rightarrow> go_error option \<times> fs" where
  "Filebeat_ProcessConfig env configure fbr fs =
     (case ensureConfigsDir (env_faults env) (basePath fbr) fs of
        (Inl err, fs) \<Rightarrow> (Some err, fs)
      | (Inr configsPath, fs) \<Rightarrow>
          (let mainConfigPath = Join (basePath fbr) filebeatMainConfigFilename;
               (err, fs) =
                 (if \<not> fileExists (env_faults env) fs mainConfigPath
                  then Filebeat_createMainConfig (env_faults env) (env_listeners env) mainConfigPath fs
                  else (None, fs))
           in case err of
                Some e \<Rightarrow> (Some (Wrapped ''failed to create main filebeat config'' e), fs)
              | None \<Rightarrow>
                  (case apply_ops
                      (\<lambda>op. handleContentConfigurationOp (env_faults env) (env_libs env) op
                               (Join configsPath (op_id op @ ''.yml'')) ConversionNone)
                      (conf_operations configure) 0 fs of
                     (applied, fs) \<Rightarrow> (if applied = 0 then Some NoAppliedConfigsError else None, fs))))"

definition Filebeat_PurgeConfig :: "faults \<Rightarrow> AgentRunner \<Rightarrow> fs \<Rightarrow> go_error option \<times> fs" where
  "Filebeat_PurgeConfig flt fbr fs = purgeConfigsDirectory flt (basePath fbr) fs"

definition Filebeat_EnsureRunningState ::
  "request_env \<Rightarrow> fs \<Rightarrow> bool \<Rightarrow> handler_state \<Rightarrow> AgentRunner \<Rightarrow> bool \<times> handler_state \<times> AgentRunner" where
  "Filebeat_EnsureRunningState env fs applyConfigs h fbr =
     (if \<not> hasConfigsAndExeReady (env_faults env) fs (basePath fbr) filebeatExeName ''.yml''
      then (False, Stop (env_handler env) (running fbr) h, fbr)
      else if IsRunning h (running fbr) then (False, h, fbr)
      else
        (case CreateContext FILEBEAT (buildRelativeExePath filebeatExeName) (basePath fbr)
            [''run'', ''--path.config'', ''./'', ''--path.data'', ''data'', ''--path.logs'', ''logs''] h of
           (c, h) \<Rightarrow>
             (case StartAgentCommand (env_handler env) c [] h of
                (Some err, h) \<Rightarrow> (False, h, fbr)
              | (None, h) \<Rightarrow> (False, go_WaitOnAgentCommand c h, fbr\<lparr>running := Some c\<rparr>))))"

definition Filebeat_Stop ::
  "handler_env \<Rightarrow> handler_state \<Rightarrow> AgentRunner \<Rightarrow> handler_state \<times> AgentRunner" where
  "Filebeat_Stop env h fbr = (Stop env (running fbr) h, fbr\<lparr>running := None\<rparr>)"

definition Filebeat_ProcessTestMonitor :: "TestMonitorResults result" where
  "Filebeat_ProcessTestMonitor = Inl (ErrorString ''Test monitor not supported by filebeat agent'')"

section \<open>The runner contract\<close>

lemma Filebeat_ensure_law:
  assumes "runners_inv R h" and "R FILEBEAT = running fbr"
    and "Filebeat_EnsureRunningState env fs b h fbr = (fatal, h', fbr')"
  shows "runners_inv (R(FILEBEAT := running fbr')) h' \<and> others_kept FILEBEAT h h'"
proof (cases "\<not> hasConfigsAndExeReady (env_faults env) fs (basePath fbr) filebeatExeName ''.yml'' \<or>
    IsRunning h (running fbr)")
  case True
  then show ?thesis
    using assms stop_running [OF assms(1), where env = "env_handler env" and a = FILEBEAT]
    by (auto simp: Filebeat_EnsureRunningState_def split: if_splits) (simp_all add: fun_upd_idem)
next
  case False
  let ?args = "[''run'', ''--path.config'', ''./'', ''--path.data'', ''data'', ''--path.logs'', ''logs'']"
  obtain c h1 where c: "CreateContext FILEBEAT (buildRelativeExePath filebeatExeName) (basePath fbr) ?args h = (c, h1)"
    by fastforce
  obtain r h3 where s: "StartAgentCommand (env_handler env) c [] h1 = (r, h3)" by fastforce
  have l: "launching FILEBEAT R h h1 c"
    using launching_create [OF assms(1) not_running_no_active [OF assms(1)] c] False assms(2) by simp
  show ?thesis
  proof (cases r)
    case None
    then have "h' = go_WaitOnAgentCommand c h3" "running fbr' = Some c"
      using assms(3) False c s by (auto simp: Filebeat_EnsureRunningState_def)
    then show ?thesis using launching_started [OF l] s None by simp
  next
    case (Some e)
    then have "h' = h3" "fbr' = fbr"
      using assms(3) False c s by (auto simp: Filebeat_EnsureRunningState_def)
    then show ?thesis
      using launching_start_failed [OF l] s Some assms(2) by (auto simp: fun_upd_idem)
  qed
qed

lemma Filebeat_stop_law:
  assumes "runners_inv R h" and "R FILEBEAT = running fbr" and "Filebeat_Stop henv h fbr = (h', fbr')"
  shows "runners_inv (R(FILEBEAT := None)) h' \<and> others_kept FILEBEAT h h' \<and> no_active FILEBEAT h' \<and>
     running fbr' = None \<and> restarts h' = restarts h"
  using assms stop_running [OF assms(1), where env = henv and a = FILEBEAT] by (auto simp: Filebeat_Stop_def)

interpretation filebeat: agent_runner FILEBEAT running Filebeat_EnsureRunningState Filebeat_Stop
  by unfold_locales (use Filebeat_ensure_law Filebeat_stop_law in blast)+

section \<open>The store of configurations\<close>

lemma good_ext_yml: "good_ext ''.yml''"
  by (simp add: good_ext_def)

interpretation filebeat_store: replacing_store "config_dir d" plain_id "file_config d ''.yml''"
  "convert_content lb ConversionNone" "content_op lb ConversionNone d ''.yml''" for d lb
proof unfold_locales
  fix fs fs' op b
  assume "config_dir d fs" and "plain_id op" and "content_op lb ConversionNone d ''.yml'' op fs = (b, fs')"
  then show "config_dir d fs' \<and> file_config d ''.yml'' fs' =
      config_step (convert_content lb ConversionNone) replace_content op (file_config d ''.yml'' fs)"
    using content_op_law good_ext_yml by blast
next
  fix fs op
  assume "config_dir d fs" and "plain_id op" and "is_write op"
  then show "fst (content_op lb ConversionNone d ''.yml'' op fs) \<longleftrightarrow> convert_content lb ConversionNone op \<noteq> None"
    using content_op_write [of d fs op "''.yml''" lb ConversionNone] good_ext_yml
    by (auto split: option.split)
qed

lemma apply_ops_cong:
  "(\<And>op s. op \<in> set ops \<Longrightarrow> f op s = g op s) \<Longrightarrow> apply_ops f ops n s = apply_ops g ops n s"
  by (induction ops arbitrary: n s) (auto split: prod.split)

lemma filebeat_ops:
  assumes "list_all plain_id ops"
  shows "apply_ops (\<lambda>op. handleContentConfigurationOp no_faults lb op (Join d (op_id op @ ''.yml'')) cv) ops n fs =
     apply_ops (content_op lb cv d ''.yml'') ops n fs"
  using assms plain_name_ext [OF _ good_ext_yml]
  by (intro apply_ops_cong) (simp add: content_op_def list_all_iff)

text \<open>Creating the main configuration leaves the directory of configurations as it is.\<close>

lemma Filebeat_createMainConfig_ok:
  assumes "config_dir (base @ [configsDirSubpath]) fs" and "lookup fs base = Some Dir"
    and "lookup fs (base @ [filebeatMainConfigFilename]) = None"
  shows "Filebeat_createMainConfig no_faults addrs (base @ [filebeatMainConfigFilename]) fs =
     (None, put (base @ [filebeatMainConfigFilename]) (File (filebeatMainConfig configsDirSubpath
        (GetListenerAddress addrs LumberjackListener))) (put (base @ [filebeatMainConfigFilename]) (File []) fs))"
proof -
  have p: "plain_name filebeatMainConfigFilename" by (simp add: plain_name_def filebeatMainConfigFilename_def)
  have "file_slot fs base filebeatMainConfigFilename"
    using assms p by (simp add: file_slot_def config_dir_def)
  then show ?thesis
    using assms(3) open_create_slot [of fs base filebeatMainConfigFilename]
    by (simp add: Filebeat_createMainConfig_def os_OpenFile_def file_Write_def file_content_def overwrite_def)
qed

lemma config_dir_put_other:
  assumes "config_dir (base @ [configsDirSubpath]) fs" and "lookup fs base = Some Dir"
    and "lookup fs (base @ [filebeatMainConfigFilename]) \<noteq> Some Dir"
  shows "config_dir (base @ [configsDirSubpath]) (put (base @ [filebeatMainConfigFilename]) (File s) fs)"
    and "file_config (base @ [configsDirSubpath]) ext (put (base @ [filebeatMainConfigFilename]) (File s) fs) =
      file_config (base @ [configsDirSubpath]) ext fs"
proof -
  have p: "plain_name filebeatMainConfigFilename" by (simp add: plain_name_def filebeatMainConfigFilename_def)
  have ne: "filebeatMainConfigFilename \<noteq> configsDirSubpath"
    by (simp add: filebeatMainConfigFilename_def configsDirSubpath_def)
  show "config_dir (base @ [configsDirSubpath]) (put (base @ [filebeatMainConfigFilename]) (File s) fs)"
    using assms wf_fs_put [OF _ assms(2) p, of "File s"] ne by (simp add: config_dir_def)
  show "file_config (base @ [configsDirSubpath]) ext (put (base @ [filebeatMainConfigFilename]) (File s) fs) =
      file_config (base @ [configsDirSubpath]) ext fs"
    by (simp add: file_config_def file_content_def fun_eq_iff)
qed

lemma content_ops_frame:
  assumes "config_dir d fs" and "list_all plain_id ops"
  shows "\<not> prefix d q \<Longrightarrow> lookup (snd (apply_ops (content_op lb ConversionNone d ''.yml'') ops n fs)) q = lookup fs q"
    and "only_ext d ''.yml'' fs \<Longrightarrow> only_ext d ''.yml'' (snd (apply_ops (content_op lb ConversionNone d ''.yml'') ops n fs))"
proof -
  note keeps = filebeat_store.apply_ops_keeps [where lb = lb and n = n, OF assms]
  show "\<not> prefix d q \<Longrightarrow> lookup (snd (apply_ops (content_op lb ConversionNone d ''.yml'') ops n fs)) q = lookup fs q"
    by (rule keeps) (simp_all add: content_op_frame(1) [OF _ _ good_ext_yml])
  show "only_ext d ''.yml'' fs \<Longrightarrow> only_ext d ''.yml'' (snd (apply_ops (content_op lb ConversionNone d ''.yml'') ops n fs))"
    by (rule keeps) (simp_all add: content_op_frame(2) [OF _ _ good_ext_yml])
qed

lemma fileExists_slot:
  assumes "file_slot fs d c"
  shows "fileExists no_faults fs (d @ [c]) \<longleftrightarrow> lookup fs (d @ [c]) \<noteq> None"
  using assms
  by (auto simp: fileExists_def os_Stat_def stat_node_def file_slot_def split: option.splits node.splits)

lemma Filebeat_ProcessConfig_run:
  assumes "env_faults env = no_faults" and "config_ready (basePath fbr @ [configsDirSubpath]) fs"
    and "lookup fs (basePath fbr @ [filebeatMainConfigFilename]) = None \<or>
         (\<exists>s. lookup fs (basePath fbr @ [filebeatMainConfigFilename]) = Some (File s))"
    and "list_all plain_id (conf_operations configure)"
  obtains fs1 where "config_dir (basePath fbr @ [configsDirSubpath]) fs1"
    and "file_config (basePath fbr @ [configsDirSubpath]) ''.yml'' fs1 =
         file_config (basePath fbr @ [configsDirSubpath]) ''.yml'' fs"
    and "lookup fs1 (basePath fbr @ [filebeatMainConfigFilename]) =
       (case lookup fs (basePath fbr @ [filebeatMainConfigFilename]) of
          None \<Rightarrow> Some (File (filebeatMainConfig configsDirSubpath
                     (GetListenerAddress (env_listeners env) LumberjackListener)))
        | Some n \<Rightarrow> Some n)"
    and "\<And>q. \<not> prefix q (basePath fbr @ [configsDirSubpath]) \<Longrightarrow> q \<noteq> basePath fbr @ [filebeatMainConfigFilename] \<Longrightarrow>
       lookup fs1 q = lookup fs q"
    and "Filebeat_ProcessConfig env configure fbr fs =
      (case apply_ops (content_op (env_libs env) ConversionNone (basePath fbr @ [configsDirSubpath]) ''.yml'')
          (conf_operations configure) 0 fs1 of
         (applied, fs') \<Rightarrow> (if applied = 0 then Some NoAppliedConfigsError else None, fs'))"
proof -
  let ?base = "basePath fbr" and ?d = "basePath fbr @ [configsDirSubpath]"
    and ?m = "basePath fbr @ [filebeatMainConfigFilename]"
  let ?text = "filebeatMainConfig configsDirSubpath (GetListenerAddress (env_listeners env) LumberjackListener)"
  have pm: "plain_name filebeatMainConfigFilename" by (simp add: plain_name_def filebeatMainConfigFilename_def)
  have np: "\<not> prefix ?m ?d"
    by (auto simp: filebeatMainConfigFilename_def configsDirSubpath_def prefix_def)
  obtain fs0 where e: "ensureConfigsDir no_faults ?base fs = (Inr ?d, fs0)" and d0: "config_dir ?d fs0"
    and c0: "file_config ?d ''.yml'' fs0 = file_config ?d ''.yml'' fs"
    and l0: "\<And>q. \<not> prefix q ?d \<Longrightarrow> lookup fs0 q = lookup fs q" and b0: "lookup fs0 ?base = Some Dir"
    using ensureConfigsDir_ready [OF assms(2)] by metis
  have m0: "lookup fs0 ?m = lookup fs ?m" using l0 np by simp
  have slot: "file_slot fs0 ?base filebeatMainConfigFilename"
    using assms(3) d0 b0 m0 pm by (auto simp: file_slot_def config_dir_def)
  note run = Filebeat_ProcessConfig_def assms(1) e Join_plain [OF pm] fileExists_slot [OF slot] m0
    filebeat_ops [OF assms(4)] Let_def
  show ?thesis
  proof (cases "lookup fs ?m")
    case None
    define fs1 where "fs1 = put ?m (File ?text) (put ?m (File []) fs0)"
    have p1: "config_dir ?d (put ?m (File []) fs0)"
      "file_config ?d ''.yml'' (put ?m (File []) fs0) = file_config ?d ''.yml'' fs0"
      using config_dir_put_other [OF d0 b0] None m0 by auto
    have p2: "config_dir ?d fs1" "file_config ?d ''.yml'' fs1 = file_config ?d ''.yml'' fs0"
      using config_dir_put_other [OF p1(1)] b0 p1(2) by (auto simp: fs1_def)
    have "Filebeat_createMainConfig no_faults (env_listeners env) ?m fs0 = (None, fs1)"
      using Filebeat_createMainConfig_ok [OF d0 b0] None m0 by (simp add: fs1_def)
    then have "Filebeat_ProcessConfig env configure fbr fs =
      (case apply_ops (content_op (env_libs env) ConversionNone ?d ''.yml'') (conf_operations configure) 0 fs1 of
         (applied, fs') \<Rightarrow> (if applied = 0 then Some NoAppliedConfigsError else None, fs'))"
      using None by (simp add: run del: no_faults)
    then show ?thesis using that [OF p2(1)] p2(2) c0 l0 None by (simp add: fs1_def)
  next
    case (Some n)
    then have "Filebeat_ProcessConfig env configure fbr fs =
      (case apply_ops (content_op (env_libs env) ConversionNone ?d ''.yml'') (conf_operations configure) 0 fs0 of
         (applied, fs') \<Rightarrow> (if applied = 0 then Some NoAppliedConfigsError else None, fs'))"
      by (simp add: run del: no_faults)
    then show ?thesis using that [OF d0 c0] l0 Some m0 by simp
  qed
qed

lemma Filebeat_ProcessConfig_spec:
  assumes "env_faults env = no_faults" and "config_ready (basePath fbr @ [configsDirSubpath]) fs"
    and "lookup fs (basePath fbr @ [filebeatMainConfigFilename]) = None \<or>
         (\<exists>s. lookup fs (basePath fbr @ [filebeatMainConfigFilename]) = Some (File s))"
    and "list_all plain_id (conf_operations configure)"
    and "Filebeat_ProcessConfig env configure fbr fs = (err, fs')"
  shows "config_dir (basePath fbr @ [configsDirSubpath]) fs'"
    and "file_config (basePath fbr @ [configsDirSubpath]) ''.yml'' fs' =
      fold (config_step (\<lambda>op. Some (op_content op)) replace_content) (conf_operations configure)
        (file_config (basePath fbr @ [configsDirSubpath]) ''.yml'' fs)"
    and "lookup fs' (basePath fbr @ [filebeatMainConfigFilename]) =
      (case lookup fs (basePath fbr @ [filebeatMainConfigFilename]) of
         None \<Rightarrow> Some (File (filebeatMainConfig configsDirSubpath
                    (GetListenerAddress (env_listeners env) LumberjackListener)))
       | Some n \<Rightarrow> Some n)"
    and "\<And>q. \<not> prefix q (basePath fbr @ [configsDirSubpath]) \<Longrightarrow> \<not> prefix (basePath fbr @ [configsDirSubpath]) q \<Longrightarrow>
      q \<noteq> basePath fbr @ [filebeatMainConfigFilename] \<Longrightarrow> lookup fs' q = lookup fs q"
    and "only_ext (basePath fbr @ [configsDirSubpath]) ''.yml'' fs \<Longrightarrow>
      only_ext (basePath fbr @ [configsDirSubpath]) ''.yml'' fs'"
    and "err = None \<or> err = Some NoAppliedConfigsError"
    and "op \<in> set (conf_operations configure) \<Longrightarrow> is_write op \<Longrightarrow> err = None"
proof -
  let ?d = "basePath fbr @ [configsDirSubpath]" and ?m = "basePath fbr @ [filebeatMainConfigFilename]"
    and ?ops = "conf_operations configure"
  obtain fs1 where d1: "config_dir ?d fs1"
    and c1: "file_config ?d ''.yml'' fs1 = file_config ?d ''.yml'' fs"
    and m1: "lookup fs1 ?m =
       (case lookup fs ?m of None \<Rightarrow> Some (File (filebeatMainConfig configsDirSubpath
                     (GetListenerAddress (env_listeners env) LumberjackListener))) | Some n \<Rightarrow> Some n)"
    and f1: "\<And>q. \<not> prefix q ?d \<Longrightarrow> q \<noteq> ?m \<Longrightarrow> lookup fs1 q = lookup fs q"
    and run: "Filebeat_ProcessConfig env configure fbr fs =
      (case apply_ops (content_op (env_libs env) ConversionNone ?d ''.yml'') ?ops 0 fs1 of
         (applied, fs') \<Rightarrow> (if applied = 0 then Some NoAppliedConfigsError else None, fs'))"
    using Filebeat_ProcessConfig_run [OF assms(1-4)] by metis
  let ?r = "apply_ops (content_op (env_libs env) ConversionNone ?d ''.yml'') ?ops 0 fs1"
  have fs': "fs' = snd ?r" and err: "err = (if fst ?r = 0 then Some NoAppliedConfigsError else None)"
    using run assms(5) by (auto split: prod.splits)
  have rend: "convert_content lb ConversionNone = (\<lambda>op. Some (op_content op))" for lb
    by (simp add: convert_content_def fun_eq_iff)
  have np: "\<not> prefix ?d ?m" "\<not> prefix (?d @ [c]) ?d" "?d @ [c] \<noteq> ?m" for c
    by (auto simp: filebeatMainConfigFilename_def configsDirSubpath_def prefix_def)
  note c = filebeat_store.apply_ops_content [OF d1 assms(4), where lb = "env_libs env" and n = 0]
  note frame = content_ops_frame [OF d1 assms(4), where lb = "env_libs env" and n = 0, folded fs']
  show "config_dir ?d fs'"
    and "file_config ?d ''.yml'' fs' =
      fold (config_step (\<lambda>op. Some (op_content op)) replace_content) ?ops (file_config ?d ''.yml'' fs)"
    using c fs' c1 by (simp_all add: rend)
  show "lookup fs' ?m =
      (case lookup fs ?m of
         None \<Rightarrow> Some (File (filebeatMainConfig configsDirSubpath
                    (GetListenerAddress (env_listeners env) LumberjackListener)))
       | Some n \<Rightarrow> Some n)"
    using frame(1) [OF np(1)] m1 by simp
  show "\<not> prefix q ?d \<Longrightarrow> \<not> prefix ?d q \<Longrightarrow> q \<noteq> ?m \<Longrightarrow> lookup fs' q = lookup fs q" for q
    using frame(1) [of q] f1 by simp
  show "only_ext ?d ''.yml'' fs \<Longrightarrow> only_ext ?d ''.yml'' fs'"
    using frame(2) f1 [OF np(2,3)] by (simp add: only_ext_def)
  show "err = None \<or> err = Some NoAppliedConfigsError" by (simp add: err)
  show "op \<in> set ?ops \<Longrightarrow> is_write op \<Longrightarrow> err = None"
    using filebeat_store.apply_ops_some [OF d1 assms(4), where lb = "env_libs env" and n = 0] by (simp add: rend err)
qed


definition yml_op :: "string \<Rightarrow> OpType \<Rightarrow> string \<Rightarrow> ConfigurationOp" where
  "yml_op i ty content =
     \<lparr>op_id = i, op_type = ty, op_content = content, op_extraLabels = [], op_interval = 0\<rparr>"

definition data_tree :: "string \<Rightarrow> fs" where
  "data_tree agent =
     [([''data''], Dir), ([''data'', ''agents''], Dir), ([''data'', ''agents'', agent], Dir)]"

definition idle_runner :: "string \<Rightarrow> AgentRunner" where
  "idle_runner agent = \<lparr>basePath = [''data'', ''agents'', agent], running = None\<rparr>"

lemma lookup_data_tree:
  "lookup (data_tree a) p =
     (if p = [] \<or> p = [''data''] \<or> p = [''data'', ''agents''] \<or> p = [''data'', ''agents'', a] then Some Dir else None)"
  by (auto simp: lookup_def data_tree_def)

lemma data_tree_ready:
  assumes "plain_name a"
  shows "config_ready ([''data'', ''agents'', a] @ [''config.d'']) (data_tree a)"
proof -
  have "wf_fs (data_tree a)"
    using assms by (auto simp: wf_fs_def lookup_data_tree plain_name_def split: if_splits)
  then show ?thesis
    using assms by (auto simp: config_ready_def dir_path_def lookup_data_tree plain_name_def)
qed


section \<open>Running\<close>

text \<open>
  \<^verbatim>\<open>EnsureRunningState\<close> of filebeat: when its directory of configurations is empty, or the
  agent is not installed, no filebeat process is kept alive afterwards; when all is there and
  nothing runs, an executable that can be started is running afterwards in its directory and
  waited for; a process that runs is left alone.
\<close>

lemma Filebeat_EnsureRunningState_contract:
  assumes "runners_inv R h" and "R FILEBEAT = running fbr"
    and "config_dir (basePath fbr @ [''config.d'']) fs"
    and "Filebeat_EnsureRunningState env fs applyConfigs h fbr = (fatal, h', fbr')"
  shows "\<not> fatal \<and>
    ((\<forall>i. file_config (basePath fbr @ [''config.d'']) ''.yml'' fs i = None) \<longrightarrow>
       (\<forall>c. active h' c \<longrightarrow> agent_of h' c \<noteq> Some FILEBEAT)) \<and>
    (hasConfigsAndExeReady (env_faults env) fs (basePath fbr) ''filebeat'' ''.yml'' \<longrightarrow>
       (IsRunning h (running fbr) \<longrightarrow> h' = h \<and> fbr' = fbr) \<and>
       (\<not> IsRunning h (running fbr) \<and> starts_ok (env_handler env) (nextCtx h) [] \<longrightarrow>
          running fbr' = Some (nextCtx h) \<and> active h' (nextCtx h) \<and>
          runs_command h' (nextCtx h)
            \<lparr>cmd_path = ''CURRENT/bin/filebeat'',
             cmd_args = [''run'', ''--path.config'', ''./'', ''--path.data'', ''data'', ''--path.logs'', ''logs''],
             cmd_dir = basePath fbr, cmd_env = [], cmd_process = True, cmd_state = None\<rparr>))"
proof -
  let ?ready = "hasConfigsAndExeReady (env_faults env) fs (basePath fbr) filebeatExeName ''.yml''"
  have names: "''filebeat'' = filebeatExeName" "''config.d'' = configsDirSubpath"
    by (simp_all add: filebeatExeName_def configsDirSubpath_def)
  have exe: "buildRelativeExePath filebeatExeName = ''CURRENT/bin/filebeat''"
    by (simp add: buildRelativeExePath_def currentVerLink_def binSubpath_def filebeatExeName_def)
  have "\<not> fatal"
    using assms(4) by (auto simp: Filebeat_EnsureRunningState_def split: if_splits prod.splits option.splits)
  moreover have "no_active FILEBEAT h'" if "\<forall>i. file_config (basePath fbr @ [configsDirSubpath]) ''.yml'' fs i = None"
  proof -
    have "\<not> ?ready"
      using ready_has_config [OF assms(3) [unfolded names], of "''.yml''" "env_faults env" filebeatExeName] that
      by auto
    then show ?thesis
      using assms(2,4) stop_running(4) [OF assms(1), of FILEBEAT] by (auto simp: Filebeat_EnsureRunningState_def)
  qed
  moreover have "h' = h \<and> fbr' = fbr" if ?ready "IsRunning h (running fbr)"
    using assms(4) that by (simp add: Filebeat_EnsureRunningState_def)
  moreover have "running fbr' = Some (nextCtx h) \<and> active h' (nextCtx h) \<and>
      runs_command h' (nextCtx h)
        \<lparr>cmd_path = buildRelativeExePath filebeatExeName,
         cmd_args = [''run'', ''--path.config'', ''./'', ''--path.data'', ''data'', ''--path.logs'', ''logs''],
         cmd_dir = basePath fbr, cmd_env = [], cmd_process = True, cmd_state = None\<rparr>"
    if r: ?ready "\<not> IsRunning h (running fbr)" "starts_ok (env_handler env) (nextCtx h) []"
  proof -
    let ?args = "[''run'', ''--path.config'', ''./'', ''--path.data'', ''data'', ''--path.logs'', ''logs'']"
    obtain c h1 where c: "CreateContext FILEBEAT (buildRelativeExePath filebeatExeName) (basePath fbr) ?args h = (c, h1)"
      by fastforce
    obtain x where x: "ctxs h1 c = Some x" "arc_cmd x = Some \<lparr>cmd_path = buildRelativeExePath filebeatExeName,
        cmd_args = ?args, cmd_dir = basePath fbr, cmd_env = [], cmd_process = False, cmd_state = None\<rparr>"
      using CreateContext_cmd(2) [OF c] by blast
    have cn: "c = nextCtx h" using CreateContext_cmd(1) [OF c] .
    obtain h3 where s: "StartAgentCommand (env_handler env) c [] h1 = (None, h3)"
      and rc: "runs_command (go_WaitOnAgentCommand c h3) c (the (arc_cmd x)\<lparr>cmd_process := True\<rparr>)"
      using StartAgentCommand_ok [OF _ x] r(3) cn x(2) by auto
    have l: "launching FILEBEAT R h h1 c"
      using launching_create [OF assms(1) not_running_no_active [OF assms(1)] c] r(2) assms(2) by simp
    have "h' = go_WaitOnAgentCommand c h3" "running fbr' = Some c"
      using assms(4) r c s by (auto simp: Filebeat_EnsureRunningState_def)
    then show ?thesis using launching_started [OF l] s rc x(2) cn by auto
  qed
  ultimately show ?thesis unfolding exe [symmetric] unfolding names no_active_def by blast
qed

lemma Filebeat_EnsureRunningState_contract_witness:
  "\<not> (\<exists>c. active (fst (snd (Filebeat_EnsureRunningState (good_env [])
      (snd (os_MkdirAll no_faults (data_tree ''FILEBEAT'') [''data'', ''agents'', ''FILEBEAT'', ''config.d'']))
      True initial_handler (idle_runner ''FILEBEAT'')))) c \<and>
      agent_of (fst (snd (Filebeat_EnsureRunningState (good_env [])
      (snd (os_MkdirAll no_faults (data_tree ''FILEBEAT'') [''data'', ''agents'', ''FILEBEAT'', ''config.d'']))
      True initial_handler (idle_runner ''FILEBEAT'')))) c = Some FILEBEAT)"
proof -
  let ?d = "[''data'', ''agents'', ''FILEBEAT'', ''config.d'']"
  let ?fs = "snd (os_MkdirAll no_faults (data_tree ''FILEBEAT'') ?d)"
  have ready: "config_ready ([''data'', ''agents'', ''FILEBEAT''] @ [configsDirSubpath]) (data_tree ''FILEBEAT'')"
    using data_tree_ready [of "''FILEBEAT''"] by (simp add: configsDirSubpath_def plain_name_def)
  obtain fs' where e: "ensureConfigsDir no_faults [''data'', ''agents'', ''FILEBEAT''] (data_tree ''FILEBEAT'') =
      (Inr ([''data'', ''agents'', ''FILEBEAT''] @ [configsDirSubpath]), fs')"
    and d: "config_dir ([''data'', ''agents'', ''FILEBEAT''] @ [configsDirSubpath]) fs'"
    and c: "file_config ([''data'', ''agents'', ''FILEBEAT''] @ [configsDirSubpath]) ''.yml'' fs' =
      file_config ([''data'', ''agents'', ''FILEBEAT''] @ [configsDirSubpath]) ''.yml'' (data_tree ''FILEBEAT'')"
    by (rule ensureConfigsDir_ready [OF ready, where ext = "''.yml''"]) blast
  have j: "Join [''data'', ''agents'', ''FILEBEAT''] configsDirSubpath = ?d"
    by (simp add: configsDirSubpath_def plain_name_def)
  have fs: "fs' = ?fs"
    using e by (simp add: ensureConfigsDir_def j Let_def del: no_faults split: prod.splits option.splits)
  have empty: "file_config (basePath (idle_runner ''FILEBEAT'') @ [''config.d'']) ''.yml'' ?fs i = None" for i
    using c fs by (simp add: idle_runner_def configsDirSubpath_def file_config_def file_content_def
        lookup_data_tree fun_eq_iff)
  have dir: "config_dir (basePath (idle_runner ''FILEBEAT'') @ [''config.d'']) ?fs"
    using d fs by (simp add: idle_runner_def configsDirSubpath_def)
  have r: "(None :: nat option) = running (idle_runner ''FILEBEAT'')" by (simp add: idle_runner_def)
  obtain fatal h' fbr' where x: "Filebeat_EnsureRunningState (good_env []) ?fs True initial_handler
      (idle_runner ''FILEBEAT'') = (fatal, h', fbr')"
    using prod_cases3 by blast
  show ?thesis
    using Filebeat_EnsureRunningState_contract [OF runners_inv_initial r dir x] empty x by auto
qed

end
