(* ===== verification/Ensure_Race.thy ===== *)
theory Ensure_Race
  imports Filebeat_Runner
begin

text \<open>
  \<^verbatim>\<open>EnsureRunningState\<close> is called by the goroutine that deals with an instruction, under the
  router's mutex, and by the timer that restarts an agent, without it. The two may overlap. Here
  filebeat's (\<^verbatim>\<open>agents/filebeat.go\<close>) is cut at its accesses to the runner, for any number of
  overlapping calls; the other runners have the same shape. Also: what a start that fails after the
  process was started leaves behind.
\<close>

section \<open>Calls in steps\<close>

datatype ensure_pc =
    ECheck          \<comment> \<open>the paths, then \<^verbatim>\<open>fbr.running.IsRunning()\<close>\<close>
  | EStart          \<comment> \<open>\<^verbatim>\<open>CreateContext\<close>, \<^verbatim>\<open>StartAgentCommand\<close>, \<^verbatim>\<open>go WaitOnAgentCommand\<close>\<close>
  | ESet nat        \<comment> \<open>\<^verbatim>\<open>fbr.running = runningContext\<close>\<close>
  | EReturned

record ensure_state =
  es_handler :: handler_state
  es_runner :: AgentRunner
  es_calls :: "nat \<Rightarrow> ensure_pc"

definition filebeat_args :: "string list" where
  "filebeat_args = [''run'', ''--path.config'', ''./'', ''--path.data'', ''data'', ''--path.logs'', ''logs'']"

definition call_goes :: "nat \<Rightarrow> ensure_pc \<Rightarrow> ensure_state \<Rightarrow> ensure_state" where
  "call_goes n pc s = s\<lparr>es_calls := (es_calls s)(n := pc)\<rparr>"

definition ensure_step :: "request_env \<Rightarrow> fs \<Rightarrow> nat \<Rightarrow> ensure_state \<Rightarrow> ensure_state option" where
  "ensure_step env fs n s =
     (let h = es_handler s; fbr = es_runner s in
      case es_calls s n of
        ECheck \<Rightarrow>
          Some (if \<not> hasConfigsAndExeReady (env_faults env) fs (basePath fbr) filebeatExeName ''.yml''
                then call_goes n EReturned (s\<lparr>es_handler := Stop (env_handler env) (running fbr) h\<rparr>)
                else call_goes n (if IsRunning h (running fbr) then EReturned else EStart) s)
      | EStart \<Rightarrow>
          (case CreateContext FILEBEAT (buildRelativeExePath filebeatExeName) (basePath fbr) filebeat_args h of
             (c, h) \<Rightarrow>
               (case StartAgentCommand (env_handler env) c [] h of
                  (Some err, h) \<Rightarrow> Some (call_goes n EReturned (s\<lparr>es_handler := h\<rparr>))
                | (None, h) \<Rightarrow> Some (call_goes n (ESet c) (s\<lparr>es_handler := go_WaitOnAgentCommand c h\<rparr>))))
      | ESet c \<Rightarrow> Some (call_goes n EReturned (s\<lparr>es_runner := fbr\<lparr>running := Some c\<rparr>\<rparr>))
      | EReturned \<Rightarrow> None)"

fun ensure_run :: "request_env \<Rightarrow> fs \<Rightarrow> ensure_state \<Rightarrow> nat list \<Rightarrow> ensure_state option" where
  "ensure_run env fs s [] = Some s"
| "ensure_run env fs s (n # ns) =
     (case ensure_step env fs n s of None \<Rightarrow> None | Some t \<Rightarrow> ensure_run env fs t ns)"

lemma call_goes_simps [simp]:
  "es_handler (call_goes n pc s) = es_handler s" "es_runner (call_goes n pc s) = es_runner s"
  "es_calls (call_goes n pc s) = (es_calls s)(n := pc)"
  by (simp_all add: call_goes_def)


section \<open>Two calls at once\<close>

definition filebeat_installed :: fs where
  "filebeat_installed =
     (let d = [''data'', ''agents'', ''FILEBEAT''] in
      [([''data''], Dir), ([''data'', ''agents''], Dir), (d, Dir), (d @ [''config.d''], Dir),
       (d @ [''config.d'', ''a.yml''], File ''x''), (d @ [''CURRENT''], Link ''1.0''), (d @ [''1.0''], Dir),
       (d @ [''1.0'', ''bin''], Dir), (d @ [''1.0'', ''bin'', ''filebeat''], File ''exe'')])"

definition two_callers :: ensure_state where
  "two_callers =
     \<lparr>es_handler = initial_handler, es_runner = idle_runner ''FILEBEAT'',
      es_calls = (\<lambda>n. if n < 2 then ECheck else EReturned)\<rparr>"

lemma filebeat_installed_ready:
  "hasConfigsAndExeReady no_faults filebeat_installed [''data'', ''agents'', ''FILEBEAT''] filebeatExeName ''.yml''"
  unfolding filebeat_installed_def by code_simp

lemma starts_filebeat: "start_outcome [] (outputEvents (good_start [])) = SawContent"
  by (simp add: start_outcome_def setupCommandLogging_def good_start_def HasPrefix_def chan_capacity_def)

text \<open>
  When the restart of an agent that has ended comes due while an instruction for it is dealt with,
  both find it not running and both start it: two processes of the agent are kept alive, each of
  them to be restarted when it ends, the runner knows only one, and stopping the agent leaves the
  other running.
\<close>

lemma ensure_race:
  "\<exists>s. ensure_run (good_env []) filebeat_installed two_callers [0, 1, 0, 0, 1, 1] = Some s \<and>
     active (es_handler s) 0 \<and> active (es_handler s) 1 \<and>
     agent_of (es_handler s) 0 = Some FILEBEAT \<and> agent_of (es_handler s) 1 = Some FILEBEAT \<and>
     running (es_runner s) = Some 1 \<and>
     active (fst (Filebeat_Stop (env_handler (good_env [])) (es_handler s) (es_runner s))) 0"
  using filebeat_installed_ready starts_filebeat
  by (simp add: two_callers_def ensure_step_def good_env_def idle_runner_def Let_def initial_handler_def
      CreateContext_def StartAgentCommand_def good_start_def go_WaitOnAgentCommand_def upd_ctx_def IsRunning_def
      active_def agent_of_def Filebeat_Stop_def Stop_def ctx_IsRunning_def WaitOnAgentCommand_def deliver_def
      del: no_faults)


section \<open>Starts that fail late\<close>

text \<open>
  C26 \<^verbatim>\<open>StartAgentCommand\<close> can report an error although the process has been started: its timer,
  which filebeat and packages set to nothing, may win. The process is then alive, but nobody waits
  for it, the runner does not know it, and no later stop of the agent signals it.
\<close>

theorem failed_start_leaks:
  assumes "runners_inv R h" and "R FILEBEAT = running fbr"
    and "hasConfigsAndExeReady (env_faults env) fs (basePath fbr) filebeatExeName ''.yml''"
    and "\<not> IsRunning h (running fbr)" and "pipesOk (start_of (env_handler env) (nextCtx h))"
    and "execOk (start_of (env_handler env) (nextCtx h))"
    and "start_outcome [] (outputEvents (start_of (env_handler env) (nextCtx h))) = TimedOut"
  shows "\<exists>h'. Filebeat_EnsureRunningState env fs b h fbr = (False, h', fbr) \<and>
    procs h' (nextCtx h) = Some (Alive []) \<and> nextCtx h \<notin> set (waiters h') \<and> \<not> IsRunning h' (running fbr) \<and>
    procs (fst (Filebeat_Stop henv h' fbr)) (nextCtx h) = Some (Alive [])"
proof -
  obtain c h1 where c: "CreateContext FILEBEAT (buildRelativeExePath filebeatExeName) (basePath fbr) filebeat_args h = (c, h1)"
    by fastforce
  have cn: "c = nextCtx h" using CreateContext_cmd(1) [OF c] .
  obtain e h2 where a: "StartAgentCommand (env_handler env) c [] h1 = (Some e, h2)" "procs h2 c = Some (Alive [])"
    "waiters h2 = waiters h1" "\<And>d. d \<noteq> c \<Longrightarrow> ctxs h2 d = ctxs h1 d"
    using assms(5-7) by (auto simp: StartAgentCommand_def Let_def cn upd_ctx_def)
  have inv: "handler_inv h" using assms(1) by (simp add: runners_inv_def)
  have fresh: "ctxs h c = None" "waiters h1 = waiters h" "\<And>d. d \<noteq> c \<Longrightarrow> ctxs h1 d = ctxs h d"
    using CreateContext_spec(3,6) [OF inv c] c by (auto simp: CreateContext_def Let_def)
  have notin: "c \<notin> set (waiters h)" using inv fresh(1) by (auto simp: handler_inv_def waiter_ok_def)
  have other: "running fbr \<noteq> Some c"
  proof
    assume "running fbr = Some c"
    then have "agent_of h c = Some FILEBEAT" using assms(1,2) by (metis runners_inv_def)
    then show False using fresh(1) by (simp add: agent_of_def)
  qed
  have idle: "\<not> IsRunning h2 (running fbr)"
    using assms(4) other a(4) fresh(3) by (auto simp: IsRunning_def split: option.splits)
  have "Filebeat_EnsureRunningState env fs b h fbr = (False, h2, fbr)"
    using assms(3,4) c a(1) by (simp add: Filebeat_EnsureRunningState_def filebeat_args_def)
  moreover have "procs (fst (Filebeat_Stop henv h2 fbr)) c = Some (Alive [])"
    using a(2) other by (auto simp: Filebeat_Stop_def Stop_def upd_ctx_def deliver_def WaitOnAgentCommand_def Let_def
        split: option.split proc.split)
  ultimately show ?thesis using a(2,3) fresh(2) notin idle by (simp add: cn)
qed

definition late_env :: request_env where
  "late_env = good_env []\<lparr>env_handler :=
     env_handler (good_env [])\<lparr>start_of := \<lambda>_. good_start []\<lparr>outputEvents := [TimerFired]\<rparr>\<rparr>\<rparr>"

lemma failed_start_leaks_witness:
  "\<exists>h'. Filebeat_EnsureRunningState late_env filebeat_installed True initial_handler (idle_runner ''FILEBEAT'') =
       (False, h', idle_runner ''FILEBEAT'') \<and>
     procs h' 0 = Some (Alive []) \<and> 0 \<notin> set (waiters h') \<and> \<not> IsRunning h' None \<and>
     procs (fst (Filebeat_Stop (env_handler late_env) h' (idle_runner ''FILEBEAT''))) 0 = Some (Alive [])"
proof -
  have "start_outcome [] [TimerFired] = TimedOut"
    by (simp add: start_outcome_def setupCommandLogging_def)
  then show ?thesis
    using failed_start_leaks [of "\<lambda>_. None" initial_handler "idle_runner ''FILEBEAT''" late_env filebeat_installed
        True "env_handler late_env"] filebeat_installed_ready runners_inv_initial
    by (simp add: late_env_def good_env_def good_start_def idle_runner_def IsRunning_def
        initial_handler_def del: no_faults)
qed

end
