(* ===== verification/Test_Monitor.thy ===== *)
theory Test_Monitor
  imports Telegraf_Runner
begin

text \<open>
  The server that hands a configuration to a telegraf started for one test run
  (\<^verbatim>\<open>agents/telegraf_test_config_runner.go\<close>): what it answers, and the channel by which its
  goroutines report errors to \<^verbatim>\<open>ProcessTestMonitor\<close> while that closes both. How telegraf asks for
  the configuration, with the token of its environment, is its documented behaviour.
\<close>

section \<open>What is served\<close>

record TelegrafTestConfigRunner =
  testConfigServerId :: string
  testConfigServerToken :: string

text \<open>The multiplexer knows one path.\<close>

definition StartTestConfigServer :: "TelegrafTestConfigRunner \<Rightarrow> string \<Rightarrow> string \<Rightarrow> string \<Rightarrow> http_response" where
  "StartTestConfigServer tcr configToml urlPath authorization =
     (if urlPath \<noteq> ''/'' @ testConfigServerId tcr then HttpResponse 404 (''404 page not found'' @ newline)
      else if authorization \<noteq> ''Token '' @ testConfigServerToken tcr then HttpResponse 401 (''unauthorized'' @ newline)
      else HttpResponse 200 configToml)"

definition telegrafTestConfigRunnerBuilder :: "string \<Rightarrow> string \<Rightarrow> TelegrafTestConfigRunner" where
  "telegrafTestConfigRunnerBuilder sid token = \<lparr>testConfigServerId = sid, testConfigServerToken = token\<rparr>"

text \<open>The request of a telegraf that is run with a command: it is sent to the address given by
  \<^verbatim>\<open>--config\<close>, here the path behind the given host, with the token of \<^verbatim>\<open>INFLUX_TOKEN\<close>.\<close>

definition config_request :: "string \<Rightarrow> Cmd \<Rightarrow> (string \<times> string) option" where
  "config_request hostPort cmd =
     (case (cmd_args cmd, cmd_env cmd) of
        ([test, config, url], [env]) \<Rightarrow>
          (if HasPrefix url (''http://'' @ hostPort) \<and> HasPrefix env ''INFLUX_TOKEN=''
           then Some (drop (7 + length hostPort) url, ''Token '' @ drop 13 env) else None)
      | _ \<Rightarrow> None)"

definition test_run_cmd :: "test_env \<Rightarrow> string \<Rightarrow> string \<Rightarrow> path \<Rightarrow> Cmd" where
  "test_run_cmd te hostPort exePath base =
     \<lparr>cmd_path = exePath, cmd_args = [''--test'', ''--config'', ''http://'' @ hostPort @ ''/'' @ test_uuid_server te],
      cmd_dir = base, cmd_env = [''INFLUX_TOKEN='' @ test_uuid_token te], cmd_process = False, cmd_state = None\<rparr>"

lemma RunCommand_cmd:
  "RunCommand te attempt hostPort exePath base timeout =
     test_command te (test_run_cmd te hostPort exePath base)
       (if timeout = 0 then AgentsTestMonitorTimeout te else timeout) attempt"
  by (simp add: RunCommand_def test_run_cmd_def)

text \<open>The command a test runs is served exactly the configuration under test, and nobody who does not
  know both the path and the token is.\<close>

lemma test_run_is_served:
  "\<exists>urlPath authorization.
     config_request hostPort (test_run_cmd te hostPort exePath base) = Some (urlPath, authorization) \<and>
     StartTestConfigServer (telegrafTestConfigRunnerBuilder (test_uuid_server te) (test_uuid_token te)) configToml
       urlPath authorization = HttpResponse 200 configToml"
  by (simp add: config_request_def test_run_cmd_def telegrafTestConfigRunnerBuilder_def StartTestConfigServer_def
      HasPrefix_def eval_nat_numeral)

lemma test_config_guarded:
  "StartTestConfigServer tcr configToml urlPath authorization = HttpResponse 200 body \<longleftrightarrow>
     urlPath = ''/'' @ testConfigServerId tcr \<and> authorization = ''Token '' @ testConfigServerToken tcr \<and> body = configToml"
  by (auto simp: StartTestConfigServer_def)

section \<open>Reporting errors\<close>

text \<open>The goroutine that serves may have returned with an error it has still to send. A send to a
  closed channel panics; the HTTP library recovers a handler's panic, but not that of the
  goroutine.\<close>

record report_state =
  rp_chan :: "go_error list"
  rp_pending :: "go_error option"
  rp_served :: bool
  rp_server_closed :: bool
  rp_chan_closed :: bool
  rp_panicked :: bool

datatype report_event =
    HandlerReports go_error   \<comment> \<open>a handler could not write its response\<close>
  | ServeReturns go_error     \<comment> \<open>\<^verbatim>\<open>Serve\<close> ends with an error while the server is open\<close>
  | ServeReports
  | ClosesServer              \<comment> \<open>\<^verbatim>\<open>configServer.Close()\<close>\<close>
  | ClosesChannel             \<comment> \<open>\<^verbatim>\<open>close(configServerErrors)\<close>\<close>

definition configServerErrors_capacity :: nat where "configServerErrors_capacity = 2"

definition report_start :: report_state where
  "report_start =
     \<lparr>rp_chan = [], rp_pending = None, rp_served = False, rp_server_closed = False, rp_chan_closed = False,
      rp_panicked = False\<rparr>"

definition report_send :: "go_error \<Rightarrow> report_state \<Rightarrow> report_state option" where
  "report_send err s =
     (if length (rp_chan s) < configServerErrors_capacity then Some (s\<lparr>rp_chan := rp_chan s @ [err]\<rparr>) else None)"

definition report_step :: "report_event \<Rightarrow> report_state \<Rightarrow> report_state option" where
  "report_step e s =
     (case e of
        HandlerReports err \<Rightarrow> if rp_chan_closed s then Some s else report_send err s
      | ServeReturns err \<Rightarrow>
          if rp_served s \<or> rp_server_closed s then None else Some (s\<lparr>rp_served := True, rp_pending := Some err\<rparr>)
      | ServeReports \<Rightarrow>
          (case rp_pending s of
             None \<Rightarrow> None
           | Some err \<Rightarrow>
               if rp_chan_closed s then Some (s\<lparr>rp_pending := None, rp_panicked := True\<rparr>)
               else map_option (\<lambda>s. s\<lparr>rp_pending := None\<rparr>) (report_send err s))
      | ClosesServer \<Rightarrow> if rp_server_closed s then None else Some (s\<lparr>rp_server_closed := True\<rparr>)
      | ClosesChannel \<Rightarrow>
          if rp_chan_closed s \<or> \<not> rp_server_closed s then None else Some (s\<lparr>rp_chan_closed := True\<rparr>))"

fun report_run :: "report_state \<Rightarrow> report_event list \<Rightarrow> report_state option" where
  "report_run s [] = Some s"
| "report_run s (e # es) = (case report_step e s of None \<Rightarrow> None | Some t \<Rightarrow> report_run t es)"

text \<open>At most two errors of the server are among those of a result; after the channel is closed they
  are settled; and the program panics exactly when the serving goroutine, having failed before the
  server was closed, gets to report it only after the channel was closed.\<close>

definition report_inv :: "report_state \<Rightarrow> bool" where
  "report_inv s \<longleftrightarrow>
     length (rp_chan s) \<le> configServerErrors_capacity \<and> (rp_chan_closed s \<longrightarrow> rp_server_closed s) \<and>
     (rp_pending s \<noteq> None \<or> rp_panicked s \<longrightarrow> rp_served s) \<and> (rp_panicked s \<longrightarrow> rp_chan_closed s)"

lemma report_inv_step: "report_step e s = Some t \<Longrightarrow> report_inv s \<Longrightarrow> report_inv t"
  by (cases e) (auto simp: report_step_def report_send_def report_inv_def split: if_splits option.splits)

lemma report_inv_run: "report_run s es = Some t \<Longrightarrow> report_inv s \<Longrightarrow> report_inv t"
  by (induction es arbitrary: s) (auto split: option.splits dest: report_inv_step)

lemma reports_bounded:
  assumes "report_run report_start es = Some t"
  shows "length (rp_chan t) \<le> 2" and "rp_panicked t \<Longrightarrow> \<exists>err. ServeReturns err \<in> set es"
proof -
  have inv: "report_inv t"
    using report_inv_run [OF assms] by (simp add: report_inv_def report_start_def)
  then show "length (rp_chan t) \<le> 2" by (simp add: report_inv_def configServerErrors_capacity_def)
  have served: "rp_served u \<longleftrightarrow> rp_served s \<or> (\<exists>err. ServeReturns err \<in> set es)"
    if "report_run s es = Some u" for s u es
    using that
    by (induction es arbitrary: s)
      (fastforce simp: report_step_def report_send_def split: option.splits report_event.splits if_splits)+
  show "\<exists>err. ServeReturns err \<in> set es" if "rp_panicked t"
    using inv that served [OF assms] by (auto simp: report_inv_def report_start_def)
qed

lemma settled_after_close:
  "report_run s es = Some t \<Longrightarrow> rp_chan_closed s \<Longrightarrow> rp_chan t = rp_chan s"
proof (induction es arbitrary: s)
  case (Cons e es)
  then obtain u where u: "report_step e s = Some u" "report_run u es = Some t" by (auto split: option.splits)
  then have "rp_chan u = rp_chan s \<and> rp_chan_closed u"
    using Cons.prems(2) by (cases e) (auto simp: report_step_def split: option.splits if_splits)
  then show ?case using Cons.IH [OF u(2)] by simp
qed simp

lemma late_report_panics:
  "\<exists>t. report_run report_start [ServeReturns err, ClosesServer, ClosesChannel, ServeReports] = Some t \<and> rp_panicked t"
  by (simp add: report_step_def report_start_def)

section \<open>Reloading\<close>

text \<open>\<^verbatim>\<open>handleConfigReload\<close>: a failure to signal is only logged.\<close>

definition handleConfigReload :: "TelegrafRunner \<Rightarrow> handler_state \<Rightarrow> handler_state" where
  "handleConfigReload tr h = Signal (running tr) SIGHUP h"

lemma running_telegraf_reloads:
  assumes "hasRequiredPaths (env_faults env) fs tr" and "IsRunning h (running tr)"
  shows "Telegraf_EnsureRunningState env fs applyConfigs h tr =
    (False, if applyConfigs then handleConfigReload tr h else h, tr)"
  using assms by (simp add: Telegraf_EnsureRunningState_def handleConfigReload_def)

end
