(* ===== verification/Capabilities.thy ===== *)
theory Capabilities
  imports Agent_Files
begin

text \<open>
  The capabilities of an installed executable (\<^verbatim>\<open>agents/capabilities.go\<close>). The library that reads and
  writes them is an argument: what it finds in the file, and whether its calls fail.
\<close>

datatype cap_set = EFFECTIVE | PERMITTED | INHERITABLE

type_synonym file_caps = "cap_set \<Rightarrow> string set"

record cap_library =
  cap_NewFile2 :: "path \<Rightarrow> go_error option"
  cap_Load :: "path \<Rightarrow> file_caps result"
  cap_Apply :: "path \<Rightarrow> file_caps \<Rightarrow> go_error option"

definition cap_Set :: "cap_set set \<Rightarrow> string \<Rightarrow> file_caps \<Rightarrow> file_caps" where
  "cap_Set which cap c = (\<lambda>s. if s \<in> which then insert cap (c s) else c s)"

text \<open>The error, and the capabilities applied to the file, if that succeeds.\<close>

definition addNetRawCapabilities :: "cap_library \<Rightarrow> path \<Rightarrow> go_error option \<times> file_caps option" where
  "addNetRawCapabilities lib exePath =
     (case cap_NewFile2 lib exePath of
        Some err \<Rightarrow> (Some (Wrapped ''failed to open exe'' err), None)
      | None \<Rightarrow>
          (case cap_Load lib exePath of
             Inl err \<Rightarrow> (Some (Wrapped ''failed to load capabilities'' err), None)
           | Inr c \<Rightarrow>
               (let c = cap_Set {EFFECTIVE, PERMITTED, INHERITABLE} ''CAP_NET_RAW'' c in
                case cap_Apply lib exePath c of
                  Some err \<Rightarrow> (Some (Wrapped ''failed to apply capabilities'' err), None)
                | None \<Rightarrow> (None, Some c))))"

text \<open>Nothing but the one capability is added, in all three sets, and nothing is taken away; an error
  leaves the file as it was.\<close>

lemma addNetRawCapabilities_adds:
  assumes "addNetRawCapabilities lib exePath = (err, applied)"
  shows "err = None \<longleftrightarrow> applied \<noteq> None"
    and "applied = Some c \<Longrightarrow> \<exists>prior. cap_Load lib exePath = Inr prior \<and> (\<forall>s. c s = insert ''CAP_NET_RAW'' (prior s))"
proof -
  show "err = None \<longleftrightarrow> applied \<noteq> None"
    using assms by (auto simp: addNetRawCapabilities_def Let_def split: option.splits sum.splits)
  assume "applied = Some c"
  then obtain c0 where c0: "cap_Load lib exePath = Inr c0" "c = cap_Set {EFFECTIVE, PERMITTED, INHERITABLE} ''CAP_NET_RAW'' c0"
    using assms by (auto simp: addNetRawCapabilities_def Let_def split: option.splits sum.splits)
  have "c s = insert ''CAP_NET_RAW'' (c0 s)" for s by (cases s) (simp_all add: c0(2) cap_Set_def)
  then show "\<exists>prior. cap_Load lib exePath = Inr prior \<and> (\<forall>s. c s = insert ''CAP_NET_RAW'' (prior s))"
    using c0(1) by blast
qed

end
