(* ===== verification/Go_Struct.thy ===== *)
theory Go_Struct
  imports Go_Json
begin

text \<open>
  What the program uses of \<^verbatim>\<open>encoding/json\<close> to decode an object into a struct: the members in
  the order of the text, repeated ones included, each looked up among the struct's fields without
  regard to case.
\<close>

section \<open>Field names\<close>

text \<open>\<^verbatim>\<open>equalFold\<close>: letters by case, and the two characters beyond ASCII that fold to one of
  them, the long s and the Kelvin sign.\<close>

function fold_key :: "string \<Rightarrow> string" where
  "fold_key [] = []"
| "fold_key (c # cs) =
     (if c = CHR 0xC5 \<and> take 1 cs = [CHR 0xBF] then CHR ''s'' # fold_key (drop 1 cs)
      else if c = CHR 0xE2 \<and> take 2 cs = [CHR 0x84, CHR 0xAA] then CHR ''k'' # fold_key (drop 2 cs)
      else lower_char c # fold_key cs)"
  by pat_completeness auto
termination by (relation "measure length") auto

section \<open>Members\<close>

text \<open>The members of an object, behind its opening brace; the first argument bounds their number.\<close>

fun object_members :: "nat \<Rightarrow> string \<Rightarrow> ((string \<times> gval) list \<times> string) option" where
  "object_members 0 s = None"
| "object_members (Suc n) s =
     (case skip_ws s of
        q # s1 \<Rightarrow>
          if q \<noteq> CHR 0x22 then None
          else (case parse_str s1 of
                  None \<Rightarrow> None
                | Some (k, r1) \<Rightarrow>
                    (case skip_ws r1 of
                       col # s2 \<Rightarrow>
                         if col \<noteq> CHR '':'' then None
                         else (case json_parse False s2 of
                                 None \<Rightarrow> None
                               | Some (v, r2) \<Rightarrow>
                                   (case skip_ws r2 of
                                      c # cs \<Rightarrow>
                                        if c = CHR ''}'' then Some ([(k, v)], cs)
                                        else if c = CHR '','' then
                                          map_option (\<lambda>(m, r). ((k, v) # m, r)) (object_members n cs)
                                        else None
                                    | [] \<Rightarrow> None))
                     | [] \<Rightarrow> None))
      | [] \<Rightarrow> None)"

definition raw_object :: "string \<Rightarrow> (string \<times> gval) list" where
  "raw_object s =
     (let body = tl (skip_ws s) in
      if HasPrefix (skip_ws body) ''}'' then []
      else case object_members (length s) body of None \<Rightarrow> [] | Some (m, _) \<Rightarrow> m)"

section \<open>Decoding\<close>

text \<open>The result of storing members one after the other; a member of the wrong type makes the
  whole call an error, whose other effects nobody sees.\<close>

fun store_members :: "(string \<times> gval \<Rightarrow> 's \<Rightarrow> 's result) \<Rightarrow> (string \<times> gval) list \<Rightarrow> 's \<Rightarrow> 's result" where
  "store_members store [] x = Inr x"
| "store_members store (kv # kvs) x =
     (case store kv x of Inl err \<Rightarrow> Inl err | Inr y \<Rightarrow> store_members store kvs y)"

text \<open>\<open>whole\<close>: whether nothing but white space may follow the value, as for \<^verbatim>\<open>Unmarshal\<close> and
  unlike for \<^verbatim>\<open>Decoder.Decode\<close>.\<close>

definition decode_struct :: "bool \<Rightarrow> (string \<times> gval \<Rightarrow> 's \<Rightarrow> 's result) \<Rightarrow> string \<Rightarrow> 's \<Rightarrow> 's result" where
  "decode_struct whole store s x =
     (case json_parse False s of
        None \<Rightarrow> Inl decode_error
      | Some (v, rest) \<Rightarrow>
          if whole \<and> skip_ws rest \<noteq> [] then Inl decode_error
          else (case v of
                  GNil \<Rightarrow> Inr x
                | GMap _ \<Rightarrow> store_members store (raw_object s) x
                | _ \<Rightarrow> Inl type_error))"

lemma decode_struct_cases:
  assumes "decode_struct whole store s x = Inr y"
  obtains "y = x" | "store_members store (raw_object s) x = Inr y"
proof -
  obtain v rest where v: "json_parse False s = Some (v, rest)"
    using assms by (cases "json_parse False s") (auto simp: decode_struct_def)
  show ?thesis
    using assms v that by (cases v) (auto simp: decode_struct_def split: if_splits)
qed

definition store_string :: "gval \<Rightarrow> string \<Rightarrow> string result" where
  "store_string v old = (case v of GString s \<Rightarrow> Inr s | GNil \<Rightarrow> Inr old | _ \<Rightarrow> Inl type_error)"

definition store_int64 :: "gval \<Rightarrow> int64 \<Rightarrow> int64 result" where
  "store_int64 v old =
     (case v of
        GFloat txt \<Rightarrow> (case ParseInt txt of None \<Rightarrow> Inl type_error | Some n \<Rightarrow> Inr (word_of_int n))
      | GNil \<Rightarrow> Inr old
      | _ \<Rightarrow> Inl type_error)"

text \<open>Into a map from strings to strings: \<^verbatim>\<open>null\<close> makes the map nil, and as a member's value
  leaves the element empty; members are added to what is there.\<close>

fun store_string_members :: "(string \<times> gval) list \<Rightarrow> (string \<times> string) list \<Rightarrow> (string \<times> string) list result" where
  "store_string_members [] m = Inr m"
| "store_string_members ((k, v) # kvs) m =
     (case store_string v [] of
        Inl err \<Rightarrow> Inl err
      | Inr s \<Rightarrow> store_string_members kvs (AList.update k s m))"

definition store_string_map :: "gval \<Rightarrow> (string \<times> string) list \<Rightarrow> (string \<times> string) list result" where
  "store_string_map v m =
     (case v of GNil \<Rightarrow> Inr [] | GMap kvs \<Rightarrow> store_string_members kvs m | _ \<Rightarrow> Inl type_error)"

definition store_interface_map :: "gval \<Rightarrow> gmap \<Rightarrow> gmap result" where
  "store_interface_map v m =
     (case v of
        GNil \<Rightarrow> Inr []
      | GMap kvs \<Rightarrow>
          (if floats_ok (GMap kvs) then Inr (fold (\<lambda>(k, x). AList.update k x) kvs m) else Inl type_error)
      | _ \<Rightarrow> Inl type_error)"

end
