(* ===== verification/Ingest.thy ===== *)
theory Ingest
  imports Go_Struct Line_Protocol Envoy_Config Agent_Files
begin

text \<open>
  The ingestors (package \<^verbatim>\<open>ingest\<close>): where they listen, what they make of the bytes agents send
  them, and what they post on the egress connection. The channels between the goroutines of an
  ingestor only delay; what is posted is given as a list, in order, for each connection.
\<close>

section \<open>Binding\<close>

text \<open>What \<^verbatim>\<open>Bind\<close> finds: the configured address, and the bound address or the error of
  \<^verbatim>\<open>net.Listen\<close>.\<close>

record bind_env =
  bind_config :: string
  net_Listen :: "string result"

text \<open>The error, the registry, and the address of the listener, if there is one. No value: the
  registry panics.\<close>

definition ingestor_Bind ::
  "string \<Rightarrow> string \<Rightarrow> bind_env \<Rightarrow> listener_addresses \<Rightarrow>
   (go_error option \<times> listener_addresses \<times> string option) option" where
  "ingestor_Bind name failure be addrs =
     (if bind_config be = [] then Some (None, addrs, None)
      else case net_Listen be of
          Inl err \<Rightarrow> Some (Some (Wrapped failure err), addrs, None)
        | Inr bound \<Rightarrow>
            (case RegisterListenerAddress name bound addrs of
               None \<Rightarrow> None
             | Some addrs \<Rightarrow> Some (None, addrs, Some bound)))"

definition TelegrafJson_Bind where
  "TelegrafJson_Bind = ingestor_Bind TelegrafJsonListener ''failed to bind telegraf json listener''"

definition LineProtocol_Bind where
  "LineProtocol_Bind = ingestor_Bind LineProtocolListener ''failed to bind line protocol listener''"

definition Lumberjack_Bind where
  "Lumberjack_Bind = ingestor_Bind LumberjackListener ''failed to bind lumberjack listener''"

section \<open>Telegraf's JSON\<close>

record telegrafJsonMetric =
  tj_Timestamp :: int64
  tj_Name :: string
  tj_Tags :: "(string \<times> string) list"
  tj_Fields :: gmap

definition zero_metric :: telegrafJsonMetric where
  "zero_metric = \<lparr>tj_Timestamp = 0, tj_Name = [], tj_Tags = [], tj_Fields = []\<rparr>"

definition store_metric_field :: "string \<times> gval \<Rightarrow> telegrafJsonMetric \<Rightarrow> telegrafJsonMetric result" where
  "store_metric_field kv m =
     (let key = fold_key (fst kv); v = snd kv in
      if key = ''timestamp'' then map_sum id (\<lambda>x. m\<lparr>tj_Timestamp := x\<rparr>) (store_int64 v (tj_Timestamp m))
      else if key = ''name'' then map_sum id (\<lambda>x. m\<lparr>tj_Name := x\<rparr>) (store_string v (tj_Name m))
      else if key = ''tags'' then map_sum id (\<lambda>x. m\<lparr>tj_Tags := x\<rparr>) (store_string_map v (tj_Tags m))
      else if key = ''fields'' then map_sum id (\<lambda>x. m\<lparr>tj_Fields := x\<rparr>) (store_interface_map v (tj_Fields m))
      else Inr m)"

definition Unmarshal_metric :: "string \<Rightarrow> telegrafJsonMetric result" where
  "Unmarshal_metric content = decode_struct True store_metric_field content zero_metric"

text \<open>The metrics one connection's goroutine sends to the channel. A line that is too long ends
  the connection.\<close>

definition TelegrafJson_handleConnection :: "string \<Rightarrow> telegrafJsonMetric list" where
  "TelegrafJson_handleConnection input =
     concat (map (\<lambda>content.
         if 0 < length content then
           (case Unmarshal_metric content of Inl err \<Rightarrow> [] | Inr m \<Rightarrow> [m])
         else [])
       (fst (ScanLines input)))"

text \<open>The loop over the fields, in some order; numbers decode to a \<^verbatim>\<open>float64\<close>.\<close>

definition split_field ::
  "string \<times> gval \<Rightarrow> (string \<rightharpoonup> float64) \<times> (string \<rightharpoonup> string) \<Rightarrow> (string \<rightharpoonup> float64) \<times> (string \<rightharpoonup> string)" where
  "split_field field values =
     (case snd field of
        GFloat v \<Rightarrow> ((fst values)(fst field \<mapsto> FloatText v), snd values)
      | GString v \<Rightarrow> (fst values, (snd values)(fst field \<mapsto> v))
      | _ \<Rightarrow> values)"

definition TelegrafJson_processMetric :: "telegrafJsonMetric \<Rightarrow> NameTagValueMetric" where
  "TelegrafJson_processMetric m =
     (let (fvalues, svalues) = fold split_field (tj_Fields m) (Map.empty, Map.empty)
      in \<lparr>mt_name = tj_Name m, mt_timestamp = tj_Timestamp m, mt_tags = map_of (tj_Tags m),
          mt_fvalues = fvalues, mt_svalues = svalues\<rparr>)"

section \<open>Line protocol\<close>

text \<open>Each line is parsed for itself; the parser is an argument.\<close>

definition LineProtocol_handleConnection :: "(string \<Rightarrow> InfluxLines result) \<Rightarrow> string \<Rightarrow> NameTagValueMetric list" where
  "LineProtocol_handleConnection parse input =
     concat (map (\<lambda>line.
         case ParseInfluxLineProtocolMetrics parse line of Inl err \<Rightarrow> [] | Inr metrics \<Rightarrow> metrics)
       (fst (ScanLines input)))"

section \<open>Lumberjack\<close>

text \<open>The log events posted for a batch, which is acknowledged afterwards; \<open>marshal\<close> is
  \<^verbatim>\<open>json.Marshal\<close> of an event, and an event it cannot encode is posted without content.\<close>

definition processLumberjackBatch :: "('event \<Rightarrow> string result) \<Rightarrow> 'event list \<Rightarrow> LogEvent list \<times> bool" where
  "processLumberjackBatch marshal events =
     (map (\<lambda>event.
         let eventBytes = (case marshal event of Inl err \<Rightarrow> [] | Inr out \<Rightarrow> out)
         in \<lparr>log_agentType = FILEBEAT, log_jsonContent = eventBytes\<rparr>) events,
      True)"

section \<open>What is posted\<close>

definition json_number :: "gmap \<Rightarrow> string \<Rightarrow> float64 option" where
  "json_number fds k = (case map_of fds k of Some (GFloat v) \<Rightarrow> Some (FloatText v) | _ \<Rightarrow> None)"

definition json_text :: "gmap \<Rightarrow> string \<Rightarrow> string option" where
  "json_text fds k = (case map_of fds k of Some (GString v) \<Rightarrow> Some v | _ \<Rightarrow> None)"

lemma split_field_values:
  "fst (split_field f fs) k = (case json_number [f] k of None \<Rightarrow> fst fs k | Some x \<Rightarrow> Some x)"
  "snd (split_field f fs) k = (case json_text [f] k of None \<Rightarrow> snd fs k | Some x \<Rightarrow> Some x)"
  by (cases f; cases "snd f"; simp add: split_field_def json_number_def json_text_def)+

lemma json_values_Cons:
  "json_number (f # fds) k = (if k = fst f then json_number [f] k else json_number fds k)"
  "json_text (f # fds) k = (if k = fst f then json_text [f] k else json_text fds k)"
  by (cases f; simp add: json_number_def json_text_def)+

lemma json_values_other: "k \<noteq> fst f \<Longrightarrow> json_number [f] k = None \<and> json_text [f] k = None"
  by (cases f) (simp add: json_number_def json_text_def)

lemma json_values_absent: "k \<notin> fst ` set fds \<Longrightarrow> json_number fds k = None \<and> json_text fds k = None"
  by (simp add: json_number_def json_text_def map_of_eq_None_iff [THEN iffD2])

lemma fold_split_field:
  "distinct (map fst fds) \<Longrightarrow>
   fst (fold split_field fds fs) k = (case json_number fds k of None \<Rightarrow> fst fs k | Some x \<Rightarrow> Some x) \<and>
   snd (fold split_field fds fs) k = (case json_text fds k of None \<Rightarrow> snd fs k | Some x \<Rightarrow> Some x)"
proof (induction fds arbitrary: fs)
  case (Cons f fds)
  show ?case
    using Cons json_values_absent [of "fst f" fds]
    by (cases "k = fst f")
      (simp_all add: split_field_values json_values_Cons [of f fds] json_values_other split: option.split)
qed (simp add: json_number_def json_text_def)

lemma processMetric_values:
  assumes "distinct (map fst (tj_Fields m))"
  shows "mt_fvalues (TelegrafJson_processMetric m) = json_number (tj_Fields m)"
    and "mt_svalues (TelegrafJson_processMetric m) = json_text (tj_Fields m)"
  using fold_split_field [OF assms, of "(Map.empty, Map.empty)"]
  by (auto simp: TelegrafJson_processMetric_def fun_eq_iff split: prod.splits option.splits)

lemma distinct_update_all: "distinct (map fst m) \<Longrightarrow> distinct (map fst (fold (\<lambda>(k, x). AList.update k x) kvs m))"
  by (induction kvs arbitrary: m) (auto intro: distinct_update)

lemma store_metric_field_distinct:
  assumes "store_metric_field kv m = Inr m'" and "distinct (map fst (tj_Fields m))"
  shows "distinct (map fst (tj_Fields m'))"
  using assms distinct_update_all
  by (auto simp: store_metric_field_def Let_def store_interface_map_def map_sum_def
      split: if_splits sum.splits gval.splits)

lemma store_members_invariant:
  assumes "store_members store kvs x = Inr y" and "P x"
    and "\<And>kv x y. store kv x = Inr y \<Longrightarrow> P x \<Longrightarrow> P y"
  shows "P y"
  using assms(1,2) by (induction kvs arbitrary: x) (auto split: sum.splits dest: assms(3))

lemma Unmarshal_metric_distinct:
  assumes "Unmarshal_metric s = Inr m"
  shows "distinct (map fst (tj_Fields m))"
proof -
  have z: "distinct (map fst (tj_Fields zero_metric))" by (simp add: zero_metric_def)
  show ?thesis
    using assms unfolding Unmarshal_metric_def
  proof (cases rule: decode_struct_cases)
    case 2
    show ?thesis
      by (rule store_members_invariant [where P = "\<lambda>m. distinct (map fst (tj_Fields m))", OF 2 z])
        (rule store_metric_field_distinct)
  qed (use z in simp)
qed

lemma Unmarshal_metric_Nil: "Unmarshal_metric [] = Inl decode_error"
  by (simp add: Unmarshal_metric_def decode_struct_def json_parse_def skip_ws_def)

text \<open>
  C35 What the JSON ingest posts for the lines an agent sends: in order, one metric for each line
  that decodes, with the name, timestamp and tags of the JSON, the fields that are numbers among
  the float values and those that are texts among the string values; the other lines, empty or
  malformed, have no effect on the rest of the connection.
\<close>

theorem telegraf_json_posted:
  assumes "list_all plain_line ls"
  shows "map TelegrafJson_processMetric (TelegrafJson_handleConnection (text_lines ls)) =
      concat (map (\<lambda>l. case Unmarshal_metric l of
          Inl err \<Rightarrow> []
        | Inr m \<Rightarrow>
            [\<lparr>mt_name = tj_Name m, mt_timestamp = tj_Timestamp m, mt_tags = map_of (tj_Tags m),
              mt_fvalues = json_number (tj_Fields m), mt_svalues = json_text (tj_Fields m)\<rparr>]) ls)"
proof -
  have one: "TelegrafJson_processMetric m =
      \<lparr>mt_name = tj_Name m, mt_timestamp = tj_Timestamp m, mt_tags = map_of (tj_Tags m),
       mt_fvalues = json_number (tj_Fields m), mt_svalues = json_text (tj_Fields m)\<rparr>"
    if "Unmarshal_metric l = Inr m" for l m
    using processMetric_values [OF Unmarshal_metric_distinct [OF that]]
    by (auto simp: TelegrafJson_processMetric_def split: prod.splits)
  have "TelegrafJson_handleConnection (text_lines ls) =
      concat (map (\<lambda>l. case Unmarshal_metric l of Inl err \<Rightarrow> [] | Inr m \<Rightarrow> [m]) ls)"
    unfolding TelegrafJson_handleConnection_def ScanLines_text [OF assms] fst_conv
    by (intro arg_cong [of _ _ concat] map_cong refl) (auto simp: Unmarshal_metric_Nil)
  then show ?thesis
    by (simp add: map_concat comp_def) (intro arg_cong [of _ _ concat] map_cong refl, auto split: sum.split simp: one)
qed

definition sample_line :: string where
  "sample_line =
     ''{'' @ quote_json ''fields'' @ '':{'' @ quote_json ''idle'' @ '':96.7,'' @ quote_json ''up'' @ '':true,'' @
     quote_json ''state'' @ '':'' @ quote_json ''ok'' @ ''},'' @ quote_json ''Name'' @ '':'' @ quote_json ''cpu'' @ '','' @
     quote_json ''tags'' @ '':{'' @ quote_json ''cpu'' @ '':'' @ quote_json ''cpu1'' @ ''},'' @
     quote_json ''timestamp'' @ '':1538794540000}''"

lemma sample_line_decoded:
  "Unmarshal_metric sample_line =
     Inr \<lparr>tj_Timestamp = 1538794540000, tj_Name = ''cpu'', tj_Tags = [(''cpu'', ''cpu1'')],
          tj_Fields = [(''idle'', GFloat ''96.7''), (''up'', GBool True), (''state'', GString ''ok'')]\<rparr>"
proof -
  let ?fields = "[(''idle'', GFloat ''96.7''), (''up'', GBool True), (''state'', GString ''ok'')]"
  let ?members = "[(''fields'', GMap ?fields), (''Name'', GString ''cpu''),
    (''tags'', GMap [(''cpu'', GString ''cpu1'')]), (''timestamp'', GFloat ''1538794540000'')]"
  have p: "json_parse False sample_line = Some (GMap ?members, [])" by code_simp
  have r: "raw_object sample_line = ?members" by code_simp
  have k: "fold_key ''fields'' = ''fields''" "fold_key ''Name'' = ''name''" "fold_key ''tags'' = ''tags''"
    "fold_key ''timestamp'' = ''timestamp''" by code_simp+
  have "number_parts ''96.7'' = (967, - 1)" by code_simp
  then have f: "float64_in_range ''96.7''" by (simp add: float64_in_range_def float64_limit_def)
  have t: "store_int64 (GFloat ''1538794540000'') 0 = Inr 1538794540000" by code_simp
  show ?thesis
    by (simp add: Unmarshal_metric_def decode_struct_def p r skip_ws_def store_metric_field_def k t f zero_metric_def
        store_string_map_def store_string_def store_interface_map_def Let_def del: fold_key.simps)
qed

lemma telegraf_json_posted_witness:
  "map TelegrafJson_processMetric (TelegrafJson_handleConnection (text_lines [[], ''x'', sample_line])) =
     [\<lparr>mt_name = ''cpu'', mt_timestamp = 1538794540000, mt_tags = [''cpu'' \<mapsto> ''cpu1''],
       mt_fvalues = [''idle'' \<mapsto> FloatText ''96.7''], mt_svalues = [''state'' \<mapsto> ''ok'']\<rparr>]"
proof -
  have p: "list_all plain_line [[], ''x'', sample_line]" by code_simp
  have x: "Unmarshal_metric ''x'' = Inl decode_error" by code_simp
  show ?thesis
    unfolding telegraf_json_posted [OF p]
    by (simp add: x sample_line_decoded Unmarshal_metric_Nil json_number_def json_text_def fun_eq_iff)
qed

section \<open>Both ingestors agree\<close>

text \<open>Telegraf can send the same field either way; the value in JSON for a value in the line
  protocol.\<close>

definition same_value :: "InfluxFieldValue \<Rightarrow> gval \<Rightarrow> bool" where
  "same_value v g =
     (case fv_String v of
        Some s \<Rightarrow> g = GString s
      | None \<Rightarrow>
          (case fv_Boolean v of
             Some b \<Rightarrow> g = GBool b
           | None \<Rightarrow> number_value v \<noteq> None \<and> (case g of GFloat _ \<Rightarrow> True | _ \<Rightarrow> False)))"

definition is_boolean :: "InfluxFieldValue \<Rightarrow> bool" where
  "is_boolean v \<longleftrightarrow> fv_String v = None \<and> fv_Boolean v \<noteq> None"

lemma same_value_kinds:
  assumes "same_value v g"
  shows "json_number [(k, g)] k \<noteq> None \<longleftrightarrow> number_value v \<noteq> None"
    and "json_text [(k, g)] k = (if is_boolean v then None else string_value v)"
  using assms
  by (auto simp: same_value_def number_value_def string_value_def is_boolean_def json_number_def json_text_def
      split: option.splits gval.splits)

lemma same_fields:
  assumes "list_all2 (\<lambda>f kg. fst kg = field_Key f \<and> same_value (field_Value f) (snd kg)) fs fds"
  shows "(json_number fds k \<noteq> None \<longleftrightarrow> Option.bind (field_value fs k) number_value \<noteq> None) \<and>
     json_text fds k =
       (case field_value fs k of None \<Rightarrow> None | Some v \<Rightarrow> if is_boolean v then None else string_value v)"
  using assms
proof (induction rule: list_all2_induct)
  case Nil
  then show ?case by (simp add: json_number_def json_text_def field_value_def)
next
  case (Cons f fs kg fds)
  obtain g where g: "kg = (field_Key f, g)" "same_value (field_Value f) g" using Cons.hyps(1) by (cases kg) auto
  show ?case
  proof (cases "k = field_Key f")
    case True
    show ?thesis
      using same_value_kinds [OF g(2), of k] True
      by (simp add: json_values_Cons [of "(field_Key f, g)" fds] field_value_Cons g(1))
  next
    case False
    then show ?thesis using Cons.IH by (simp add: json_values_Cons [of "(field_Key f, g)" fds] field_value_Cons g(1))
  qed
qed

text \<open>
  The two ingestors give the Ambassador the same schema for the same fields: every number,
  integer or not, is a float value, every text a string value with that text. Only booleans
  differ: the line protocol reports them as texts, the JSON ingest drops them.
\<close>

lemma ingest_schema_agrees:
  assumes "distinct (map field_Key (FieldSet line))"
    and "list_all2 (\<lambda>f kg. fst kg = field_Key f \<and> same_value (field_Value f) (snd kg)) (FieldSet line) (tj_Fields m)"
  shows "dom (mt_fvalues (TelegrafJson_processMetric m)) = dom (mt_fvalues (line_metric line)) \<and>
     mt_svalues (TelegrafJson_processMetric m) =
       mt_svalues (line_metric line) |` (- {k. \<exists>v. field_value (FieldSet line) k = Some v \<and> is_boolean v})"
proof -
  have keys: "map fst (tj_Fields m) = map field_Key (FieldSet line)"
    using assms(2) by (induction rule: list_all2_induct) simp_all
  have d: "distinct (map fst (tj_Fields m))" using assms(1) by (simp add: keys)
  have sv: "mt_svalues (line_metric line) k = Option.bind (field_value (FieldSet line) k) string_value"
    and fv: "mt_fvalues (line_metric line) k = Option.bind (field_value (FieldSet line) k) number_value" for k
    using assms(1) by (auto simp: line_metric_def Let_def fold_svalues fold_fvalues split: option.splits)
  have "mt_svalues (TelegrafJson_processMetric m) k =
      (mt_svalues (line_metric line) |` (- {k. \<exists>v. field_value (FieldSet line) k = Some v \<and> is_boolean v})) k" for k
    using same_fields [OF assms(2), of k]
    by (auto simp: processMetric_values(2) [OF d] restrict_map_def sv split: option.splits)
  moreover have "k \<in> dom (mt_fvalues (TelegrafJson_processMetric m)) \<longleftrightarrow> k \<in> dom (mt_fvalues (line_metric line))" for k
    using same_fields [OF assms(2), of k] by (simp add: processMetric_values(1) [OF d] domIff fv)
  ultimately show ?thesis by (intro conjI set_eqI ext)
qed

lemma ingest_schema_agrees_witness:
  "let m = TelegrafJson_processMetric (zero_metric\<lparr>tj_Fields := [(''ival'', GFloat ''5'')]\<rparr>)
   in dom (mt_fvalues m) = dom (mt_fvalues (line_metric cpu_line)) \<and> dom (mt_fvalues m) = {''ival''}"
proof -
  let ?m = "zero_metric\<lparr>tj_Fields := [(''ival'', GFloat ''5'')]\<rparr>"
  have "list_all2 (\<lambda>f kg. fst kg = field_Key f \<and> same_value (field_Value f) (snd kg)) (FieldSet cpu_line) (tj_Fields ?m)"
    by (simp add: cpu_line_def same_value_def no_value_def number_value_def string_value_def)
  moreover have "distinct (map field_Key (FieldSet cpu_line))" by (simp add: cpu_line_def)
  moreover have "dom (mt_fvalues (TelegrafJson_processMetric ?m)) = {''ival''}"
    by (auto simp: processMetric_values(1) json_number_def split: if_splits)
  ultimately show ?thesis using ingest_schema_agrees [of cpu_line ?m] by (simp add: Let_def)
qed

end
