(* ===== verification/Perf_Test.thy ===== *)
theory Perf_Test
  imports Ingest "HOL-Library.Signed_Division"
begin

text \<open>
  The ingestor that makes up metrics for load tests (\<^verbatim>\<open>ingest/perf_test_ingestor.go\<close>): the
  configuration, the HTTP handler that changes the rate, the ticker and the metric of each tick.
  Its integers are Go's \<^verbatim>\<open>int\<close> on 64 bits.
\<close>

section \<open>State\<close>

record PerfTestIngestor =
  metricsPerMinute :: int64
  floatsPerMetric :: int64

definition PerfTest_Bind :: "int64 \<Rightarrow> int64 \<Rightarrow> int64 \<Rightarrow> PerfTestIngestor \<Rightarrow> PerfTestIngestor" where
  "PerfTest_Bind port configMetrics configFloats p =
     (if port = 0 then p
      else if configMetrics = 0 then p\<lparr>metricsPerMinute := 60, floatsPerMetric := 10\<rparr>
      else p\<lparr>metricsPerMinute := configMetrics, floatsPerMetric := configFloats\<rparr>)"

section \<open>The ticker\<close>

definition time_Minute :: int64 where "time_Minute = 60000000000"

text \<open>\<^verbatim>\<open>time.NewTicker(time.Duration(int64(time.Minute) / int64(p.metricsPerMinute)))\<close>: no value
  when the division or \<^verbatim>\<open>NewTicker\<close> panics.\<close>

definition NewTicker :: "duration \<Rightarrow> duration option" where
  "NewTicker d = (if sint d \<le> 0 then None else Some d)"

definition rate_ticker :: "int64 \<Rightarrow> duration option" where
  "rate_ticker rate =
     (if rate = 0 then None else NewTicker (word_of_int (sint time_Minute sdiv sint rate)))"

text \<open>The loop of \<^verbatim>\<open>Start\<close> when it is given a new rate: the ticker it goes on with.\<close>

definition takes_new_rate :: "int64 \<Rightarrow> PerfTestIngestor \<Rightarrow> (PerfTestIngestor \<times> duration) option" where
  "takes_new_rate rate p =
     (case rate_ticker rate of
        None \<Rightarrow> None
      | Some d \<Rightarrow> Some (p\<lparr>metricsPerMinute := rate\<rparr>, d))"

section \<open>The handler\<close>

definition Atoi :: "string \<Rightarrow> int64 result" where
  "Atoi s =
     (case ParseInt s of
        Some n \<Rightarrow> Inr (word_of_int n)
      | None \<Rightarrow>
          Inl (ErrorString (''strconv.Atoi: parsing '' @ [CHR 0x22] @ s @ [CHR 0x22] @ '': '' @
            (if parse_digits (if HasPrefix s ''-'' \<or> HasPrefix s ''+'' then tl s else s) = None
             then ''invalid syntax'' else ''value out of range''))))"

text \<open>The response, the rate sent to the loop, and the state after; \<open>form\<close> gives the posted
  values, empty when absent.\<close>

definition perf_handler ::
  "string \<Rightarrow> (string \<Rightarrow> string) \<Rightarrow> PerfTestIngestor \<Rightarrow> (nat \<times> string) \<times> int64 option \<times> PerfTestIngestor" where
  "perf_handler requestMethod form p =
     (if requestMethod \<noteq> ''POST'' then ((405, ''Only POST's accepted''), None, p)
      else
        (case (if form ''metricsPerMinute'' \<noteq> [] then map_sum id Some (Atoi (form ''metricsPerMinute''))
               else Inr None) of
           Inl err \<Rightarrow> ((400, ''metricsPerMinute parameter must be an int: '' @ Error err), None, p)
         | Inr newRate \<Rightarrow>
             (case (if form ''floatsPerMetric'' \<noteq> [] then map_sum id Some (Atoi (form ''floatsPerMetric''))
                    else Inr None) of
                Inl err \<Rightarrow> ((400, ''floatsPerMetric parameter must be an int: '' @ Error err), newRate, p)
              | Inr newFloats \<Rightarrow>
                  (let p' = (case newFloats of None \<Rightarrow> p | Some n \<Rightarrow> p\<lparr>floatsPerMetric := n\<rparr>);
                       metricsCount = (case newRate of None \<Rightarrow> metricsPerMinute p | Some n \<Rightarrow> n)
                   in if newRate = None \<and> newFloats = None
                      then ((400, ''metricsPerMinute or floatsPerMetric parameter required''), None, p)
                      else ((200, ''metricsPerMinute set to '' @ show_int (sint metricsCount) @
                               '', floatsPerMetric set to '' @ show_int (sint (floatsPerMetric p')) @ newline),
                            newRate, p')))))"

section \<open>The metric\<close>

definition PerfTest_processMetric :: "int64 \<Rightarrow> PerfTestIngestor \<Rightarrow> NameTagValueMetric" where
  "PerfTest_processMetric now p =
     \<lparr>mt_name = ''perfTestMetric'', mt_timestamp = now, mt_tags = [''test_tag'' \<mapsto> ''perfTestTag''],
      mt_fvalues =
        fold (\<lambda>i m. m(''duration_'' @ show_nat i \<mapsto> FloatInt (int i))) [0 ..< nat (sint (floatsPerMetric p))] Map.empty,
      mt_svalues = [''result_type'' \<mapsto> ''success'']\<rparr>"

section \<open>Rates\<close>

text \<open>\<^verbatim>\<open>int64\<close> division rounds towards zero.\<close>

lemma minute_sdiv_pos: "0 < (r :: int) \<Longrightarrow> 60000000000 sdiv r = 60000000000 div r"
  by (simp add: signed_divide_int_def)

lemma minute_sdiv_neg:
  assumes "(r :: int) < 0"
  shows "60000000000 sdiv r \<le> 0" and "- 60000000000 \<le> 60000000000 sdiv r"
proof -
  have q: "60000000000 sdiv r = - (60000000000 div (- r))" using assms by (simp add: signed_divide_int_def)
  have "0 \<le> 60000000000 div (- r)" using assms by (simp add: pos_imp_zdiv_nonneg_iff)
  moreover have "60000000000 div (- r) \<le> 60000000000" using zdiv_mono2 [of 60000000000 1 "- r"] assms by simp
  ultimately show "60000000000 sdiv r \<le> 0" "- 60000000000 \<le> 60000000000 sdiv r" by (simp_all add: q)
qed

lemma sint_small: "- (2 ^ 63) \<le> x \<Longrightarrow> x < 2 ^ 63 \<Longrightarrow> sint (word_of_int x :: int64) = x"
  by (simp add: sint_sbintrunc' signed_take_bit_int_eq_self)

lemma rate_ticker_None: "rate_ticker rate = None \<longleftrightarrow> sint rate \<le> 0 \<or> 60000000000 < sint rate"
proof -
  let ?q = "60000000000 sdiv sint rate"
  have m: "sint time_Minute = 60000000000" by (simp add: time_Minute_def)
  have z: "rate = 0 \<longleftrightarrow> sint rate = 0" by (simp add: signed_eq_0_iff)
  consider "sint rate = 0" | "sint rate < 0" | "0 < sint rate" by linarith
  then show ?thesis
  proof cases
    case 1
    then show ?thesis by (simp add: rate_ticker_def z)
  next
    case 2
    then have "sint (word_of_int ?q :: int64) = ?q" using minute_sdiv_neg [OF 2] by (intro sint_small) simp_all
    then show ?thesis using 2 minute_sdiv_neg(1) [OF 2] z by (simp add: rate_ticker_def m NewTicker_def)
  next
    case 3
    have q: "?q = 60000000000 div sint rate" by (rule minute_sdiv_pos [OF 3])
    have "0 \<le> ?q" using 3 by (simp add: q pos_imp_zdiv_nonneg_iff)
    moreover have "?q \<le> 60000000000" using zdiv_mono2 [of 60000000000 1 "sint rate"] 3 by (simp add: q)
    ultimately have "sint (word_of_int ?q :: int64) = ?q" by (intro sint_small) simp_all
    moreover have "?q \<le> 0 \<longleftrightarrow> 60000000000 < sint rate" using pos_imp_zdiv_pos_iff [OF 3, of 60000000000] by (simp add: q linorder_not_less [symmetric] del: not_less)
    ultimately show ?thesis using 3 z by (simp add: rate_ticker_def m NewTicker_def)
  qed
qed

text \<open>
  C36 Any number that fits 64 bits is accepted as the new rate of the load test, with the answer
  200, but the loop that is told it panics, and the Envoy with it, exactly when the rate is not
  positive or so high that the interval of the ticker rounds down to nothing.
\<close>

theorem perf_rate_accepted_but_fatal:
  assumes "ParseInt s = Some r" and "s \<noteq> []"
  shows "\<exists>body. perf_handler ''POST'' ((\<lambda>_. [])(''metricsPerMinute'' := s)) p = ((200, body), Some (word_of_int r), p) \<and>
     (takes_new_rate (word_of_int r) p = None \<longleftrightarrow> r \<le> 0 \<or> 60000000000 < r)"
proof -
  have "sint (word_of_int r :: int64) = r" using ParseInt_range [OF assms(1)] by (intro sint_small) simp_all
  then show ?thesis
    using assms rate_ticker_None [of "word_of_int r"]
    by (cases "rate_ticker (word_of_int r)") (auto simp: perf_handler_def Atoi_def takes_new_rate_def)
qed

lemma perf_rate_accepted_but_fatal_witness:
  "\<exists>body. perf_handler ''POST'' ((\<lambda>_. [])(''metricsPerMinute'' := ''0''))
       \<lparr>metricsPerMinute = 60, floatsPerMetric = 10\<rparr> =
      ((200, body), Some 0, \<lparr>metricsPerMinute = 60, floatsPerMetric = 10\<rparr>) \<and>
     takes_new_rate 0 \<lparr>metricsPerMinute = 60, floatsPerMetric = 10\<rparr> = None"
proof -
  have "ParseInt ''0'' = Some 0" by code_simp
  then show ?thesis using perf_rate_accepted_but_fatal [of "''0''" 0] by simp
qed

end
