(* ===== verification/Ingest_Pipeline.thy ===== *)
theory Ingest_Pipeline
  imports Perf_Test
begin

text \<open>
  The goroutines of an ingestor (\<^verbatim>\<open>ingest/telegraf_json.go\<close>, \<^verbatim>\<open>ingest/lineproto.go\<close>): one that
  accepts connections, one for each connection that reads its lines and sends metrics to a channel
  of limited size, and the loop of \<^verbatim>\<open>Start\<close> that takes them from the channel and posts them until the
  context is done. Their steps are interleaved in any order; what a connection's goroutine makes
  of its input is taken from \<open>Ingest\<close>.
\<close>

section \<open>Ingestors\<close>

record 'm metric_ingestor =
  handleConnection :: "string \<Rightarrow> 'm list"
  chan_size :: nat
  processMetric :: "'m \<Rightarrow> NameTagValueMetric"

definition telegrafJsonMetricChanSize :: nat where "telegrafJsonMetricChanSize = 10"

definition lineProtoMetricsChanSize :: nat where "lineProtoMetricsChanSize = 100"

definition LineProtocol_sendMetric :: "NameTagValueMetric \<Rightarrow> NameTagValueMetric" where
  "LineProtocol_sendMetric metric = metric"

definition TelegrafJson_ingestor :: "telegrafJsonMetric metric_ingestor" where
  "TelegrafJson_ingestor =
     \<lparr>handleConnection = TelegrafJson_handleConnection, chan_size = telegrafJsonMetricChanSize,
      processMetric = TelegrafJson_processMetric\<rparr>"

definition LineProtocol_ingestor :: "(string \<Rightarrow> InfluxLines result) \<Rightarrow> NameTagValueMetric metric_ingestor" where
  "LineProtocol_ingestor parse =
     \<lparr>handleConnection = LineProtocol_handleConnection parse, chan_size = lineProtoMetricsChanSize,
      processMetric = LineProtocol_sendMetric\<rparr>"

section \<open>Goroutines\<close>

text \<open>A connection: the bytes that come in on it, and what its goroutine has still to send.\<close>

record 'm ingest_conn =
  conn_input :: string
  conn_unsent :: "'m list"

text \<open>Entries of the channel and posts carry the number of the connection they come from.\<close>

record 'm pipeline =
  listening :: bool
  accepting :: bool
  consuming :: bool
  conns :: "'m ingest_conn list"
  metrics_chan :: "(nat \<times> 'm) list"
  posted_metrics :: "(nat \<times> NameTagValueMetric) list"

datatype ingest_event =
    Accepted string     \<comment> \<open>\<^verbatim>\<open>Accept\<close> returns a connection\<close>
  | AcceptFailed        \<comment> \<open>\<^verbatim>\<open>Accept\<close> returns an error, whatever it is\<close>
  | Sent nat            \<comment> \<open>a connection's goroutine sends to the channel\<close>
  | Received            \<comment> \<open>the loop of \<^verbatim>\<open>Start\<close> takes a metric\<close>
  | ContextDone         \<comment> \<open>the loop of \<^verbatim>\<open>Start\<close> sees the context done\<close>

text \<open>\<^verbatim>\<open>Start\<close> up to its loop: without a listener the ingestor is disabled.\<close>

definition ingestor_Start :: "string option \<Rightarrow> 'm pipeline" where
  "ingestor_Start listener =
     \<lparr>listening = (listener \<noteq> None), accepting = (listener \<noteq> None), consuming = (listener \<noteq> None),
      conns = [], metrics_chan = [], posted_metrics = []\<rparr>"

definition acceptConnections :: "'m metric_ingestor \<Rightarrow> string option \<Rightarrow> 'm pipeline \<Rightarrow> 'm pipeline option" where
  "acceptConnections I accepted s =
     (if \<not> accepting s then None
      else case accepted of
          None \<Rightarrow> Some (s\<lparr>accepting := False\<rparr>)
        | Some input \<Rightarrow>
            (if \<not> listening s then None
             else Some (s\<lparr>conns := conns s @ [\<lparr>conn_input = input, conn_unsent = handleConnection I input\<rparr>]\<rparr>)))"

definition send_metric :: "'m metric_ingestor \<Rightarrow> nat \<Rightarrow> 'm pipeline \<Rightarrow> 'm pipeline option" where
  "send_metric I n s =
     (if n < length (conns s) \<and> length (metrics_chan s) < chan_size I then
        (case conn_unsent (conns s ! n) of
           [] \<Rightarrow> None
         | m # ms \<Rightarrow>
             Some (s\<lparr>conns := (conns s)[n := (conns s ! n)\<lparr>conn_unsent := ms\<rparr>],
                     metrics_chan := metrics_chan s @ [(n, m)]\<rparr>))
      else None)"

definition take_metric :: "'m metric_ingestor \<Rightarrow> 'm pipeline \<Rightarrow> 'm pipeline option" where
  "take_metric I s =
     (if \<not> consuming s then None
      else case metrics_chan s of
          [] \<Rightarrow> None
        | (n, m) # ms \<Rightarrow>
            Some (s\<lparr>metrics_chan := ms, posted_metrics := posted_metrics s @ [(n, processMetric I m)]\<rparr>))"

definition context_done :: "'m pipeline \<Rightarrow> 'm pipeline option" where
  "context_done s = (if consuming s then Some (s\<lparr>listening := False, consuming := False\<rparr>) else None)"

fun ingest_step :: "'m metric_ingestor \<Rightarrow> ingest_event \<Rightarrow> 'm pipeline \<Rightarrow> 'm pipeline option" where
  "ingest_step I (Accepted input) s = acceptConnections I (Some input) s"
| "ingest_step I AcceptFailed s = acceptConnections I None s"
| "ingest_step I (Sent n) s = send_metric I n s"
| "ingest_step I Received s = take_metric I s"
| "ingest_step I ContextDone s = context_done s"

lemmas ingest_step_defs = acceptConnections_def send_metric_def take_metric_def context_done_def

fun ingest_run :: "'m metric_ingestor \<Rightarrow> 'm pipeline \<Rightarrow> ingest_event list \<Rightarrow> 'm pipeline option" where
  "ingest_run I s [] = Some s"
| "ingest_run I s (e # es) = (case ingest_step I e s of None \<Rightarrow> None | Some t \<Rightarrow> ingest_run I t es)"

inductive ingest_reachable :: "'m metric_ingestor \<Rightarrow> 'm pipeline \<Rightarrow> bool" for I where
  ingest_starts: "ingest_reachable I (ingestor_Start listener)"
| ingest_steps: "ingest_reachable I s \<Longrightarrow> ingest_step I e s = Some t \<Longrightarrow> ingest_reachable I t"

interpretation ingests: transition_system "\<lambda>s. \<exists>listener. s = ingestor_Start listener"
  "\<lambda>s e t. ingest_step I e s = Some t" "ingest_reachable I" for I :: "'m metric_ingestor"
proof
  fix s :: "'m pipeline" and P
  assume "ingest_reachable I s" and "\<forall>s. (\<exists>listener. s = ingestor_Start listener) \<longrightarrow> P s"
    and "\<forall>s e t. ingest_reachable I s \<longrightarrow> P s \<longrightarrow> ingest_step I e s = Some t \<longrightarrow> P t"
  then show "P s" by (induction rule: ingest_reachable.induct) blast+
qed

lemma ingest_run_reachable:
  "ingest_run I s es = Some t \<Longrightarrow> ingest_reachable I s \<Longrightarrow> ingest_reachable I t"
  by (induction es arbitrary: s) (auto split: option.splits intro: ingest_steps)

section \<open>Nothing is lost or reordered\<close>

definition from_conn :: "nat \<Rightarrow> (nat \<times> 'a) list \<Rightarrow> 'a list" where
  "from_conn n xs = map snd (filter (\<lambda>x. fst x = n) xs)"

lemma from_conn_simps [simp]:
  "from_conn n [] = []" "from_conn n (xs @ ys) = from_conn n xs @ from_conn n ys"
  "from_conn n (x # xs) = (if fst x = n then snd x # from_conn n xs else from_conn n xs)"
  by (simp_all add: from_conn_def)

definition numbered :: "nat \<Rightarrow> (nat \<times> 'a) list \<Rightarrow> bool" where
  "numbered k xs \<longleftrightarrow> list_all (\<lambda>x. fst x < k) xs"

lemma numbered_simps [simp]:
  "numbered k []" "numbered k (x # xs) \<longleftrightarrow> fst x < k \<and> numbered k xs"
  "numbered k (xs @ ys) \<longleftrightarrow> numbered k xs \<and> numbered k ys"
  by (simp_all add: numbered_def)

lemma numbered_Suc: "numbered k xs \<Longrightarrow> numbered (Suc k) xs"
  by (auto simp: numbered_def list_all_iff less_Suc_eq)

lemma from_conn_fresh: "numbered n xs \<Longrightarrow> from_conn n xs = []"
  by (auto simp: from_conn_def numbered_def list_all_iff filter_empty_conv)

definition in_order :: "'m metric_ingestor \<Rightarrow> 'm pipeline \<Rightarrow> nat \<Rightarrow> bool" where
  "in_order I s n \<longleftrightarrow>
     from_conn n (posted_metrics s) @
       map (processMetric I) (from_conn n (metrics_chan s) @ conn_unsent (conns s ! n)) =
     map (processMetric I) (handleConnection I (conn_input (conns s ! n)))"

definition pipeline_inv :: "'m metric_ingestor \<Rightarrow> 'm pipeline \<Rightarrow> bool" where
  "pipeline_inv I s \<longleftrightarrow>
     length (metrics_chan s) \<le> chan_size I \<and>
     numbered (length (conns s)) (metrics_chan s) \<and> numbered (length (conns s)) (posted_metrics s) \<and>
     (\<forall>n < length (conns s). in_order I s n)"

lemma pipeline_inv_step:
  assumes "pipeline_inv I s" and "ingest_step I e s = Some t"
  shows "pipeline_inv I t"
proof (cases e)
  case (Accepted input)
  then show ?thesis
    using assms
    by (auto simp: pipeline_inv_def in_order_def ingest_step_defs nth_append less_Suc_eq from_conn_fresh
        numbered_Suc split: if_splits)
next
  case AcceptFailed
  then show ?thesis using assms by (auto simp: pipeline_inv_def in_order_def ingest_step_defs split: if_splits)
next
  case (Sent n)
  then show ?thesis
    using assms
    by (auto simp: pipeline_inv_def in_order_def ingest_step_defs nth_list_update split: if_splits list.splits)
      (metis append_Cons list.simps(9))
next
  case Received
  then show ?thesis
    using assms by (auto simp: pipeline_inv_def in_order_def ingest_step_defs split: if_splits list.splits)
next
  case ContextDone
  then show ?thesis using assms by (auto simp: pipeline_inv_def in_order_def ingest_step_defs split: if_splits)
qed

lemma pipeline_inv_reachable: "ingest_reachable I s \<Longrightarrow> pipeline_inv I s"
proof (erule ingests.invariant_rule)
  show "\<And>s. \<exists>listener. s = ingestor_Start listener \<Longrightarrow> pipeline_inv I s"
    by (auto simp: pipeline_inv_def ingestor_Start_def)
qed (rule pipeline_inv_step)

text \<open>
  C33 However the goroutines of an ingestor are interleaved, the channel never holds more than its
  size, and for every connection what has been posted, what is in the channel and what is still to
  be sent make up, in order, the metrics of the connection's input: none is lost, repeated,
  reordered or attributed to another connection.
\<close>

theorem ingest_keeps_order:
  assumes "ingest_reachable I s"
  shows "length (metrics_chan s) \<le> chan_size I \<and>
    (\<forall>n < length (conns s).
       from_conn n (posted_metrics s) @
         map (processMetric I) (from_conn n (metrics_chan s) @ conn_unsent (conns s ! n)) =
       map (processMetric I) (handleConnection I (conn_input (conns s ! n))))"
  using pipeline_inv_reachable [OF assms] by (simp add: pipeline_inv_def in_order_def)

definition sample_input :: string where
  "sample_input = text_lines [sample_line, ''x'', sample_line]"

definition sample_metric :: telegrafJsonMetric where
  "sample_metric =
     \<lparr>tj_Timestamp = 1538794540000, tj_Name = ''cpu'', tj_Tags = [(''cpu'', ''cpu1'')],
      tj_Fields = [(''idle'', GFloat ''96.7''), (''up'', GBool True), (''state'', GString ''ok'')]\<rparr>"

lemma sample_input_metrics: "TelegrafJson_handleConnection sample_input = [sample_metric, sample_metric]"
proof -
  have p: "list_all plain_line [sample_line, ''x'', sample_line]" by code_simp
  have x: "Unmarshal_metric ''x'' = Inl decode_error" by code_simp
  have "sample_line \<noteq> []" by (simp add: sample_line_def)
  then show ?thesis
    unfolding TelegrafJson_handleConnection_def sample_input_def ScanLines_text [OF p]
    by (simp add: x sample_line_decoded sample_metric_def)
qed

text \<open>Two connections; the first still has a metric to send, the second has one in the channel.\<close>

definition sample_pipeline :: "telegrafJsonMetric pipeline" where
  "sample_pipeline =
     \<lparr>listening = True, accepting = True, consuming = True,
      conns = [\<lparr>conn_input = sample_input, conn_unsent = [sample_metric]\<rparr>, \<lparr>conn_input = sample_input, conn_unsent = []\<rparr>],
      metrics_chan = [(1, sample_metric)],
      posted_metrics = [(1, TelegrafJson_processMetric sample_metric), (0, TelegrafJson_processMetric sample_metric)]\<rparr>"

lemma sample_pipeline_reachable: "ingest_reachable TelegrafJson_ingestor sample_pipeline"
proof (rule ingest_run_reachable)
  show "ingest_run TelegrafJson_ingestor (ingestor_Start (Some ''localhost:8094''))
      [Accepted sample_input, Accepted sample_input, Sent 1, Sent 0, Received, Sent 1, Received] = Some sample_pipeline"
    by (simp add: ingestor_Start_def ingest_step_defs TelegrafJson_ingestor_def telegrafJsonMetricChanSize_def
        sample_input_metrics sample_pipeline_def)
qed (rule ingest_starts)

lemma ingest_keeps_order_witness:
  "from_conn 0 (posted_metrics sample_pipeline) @ map TelegrafJson_processMetric [sample_metric] =
     map TelegrafJson_processMetric (TelegrafJson_handleConnection sample_input)"
  using ingest_keeps_order [OF sample_pipeline_reachable, THEN conjunct2, rule_format, of 0]
  by (simp add: sample_pipeline_def TelegrafJson_ingestor_def)

section \<open>Everything is posted\<close>

definition moves_metrics :: "ingest_event \<Rightarrow> bool" where
  "moves_metrics e \<longleftrightarrow> e = Received \<or> (\<exists>n. e = Sent n)"

text \<open>The sends and receives that are left.\<close>

definition ingest_work :: "'m pipeline \<Rightarrow> nat" where
  "ingest_work s = 2 * sum_list (map (\<lambda>c. length (conn_unsent c)) (conns s)) + length (metrics_chan s)"

lemma ingest_work_step:
  assumes "ingest_step I e s = Some t" and "moves_metrics e"
  shows "ingest_work s = Suc (ingest_work t)" "map conn_input (conns t) = map conn_input (conns s)"
    "consuming t = consuming s"
proof -
  have "ingest_work s = Suc (ingest_work t) \<and> map conn_input (conns t) = map conn_input (conns s) \<and> consuming t = consuming s"
  proof (cases "e = Received")
    case True
    then show ?thesis using assms(1) by (auto simp: ingest_work_def ingest_step_defs split: if_splits list.splits)
  next
    case False
    then obtain n where e: "e = Sent n" using assms(2) by (auto simp: moves_metrics_def)
    then obtain m ms where n: "n < length (conns s)" "conn_unsent (conns s ! n) = m # ms"
      using assms(1) by (auto simp: ingest_step_defs split: if_splits list.splits)
    define lens where "lens = map (\<lambda>c. length (conn_unsent c)) (conns s)"
    have "sum_list lens = Suc (sum_list (lens[n := length ms]))"
      using n by (subst (1) id_take_nth_drop [of n lens], simp add: lens_def) (simp add: lens_def upd_conv_take_nth_drop)
    then show ?thesis
      using assms(1) e n
      by (auto simp: ingest_work_def ingest_step_defs lens_def map_update list_update_id split: if_splits
          intro!: nth_equalityI simp: nth_list_update)
  qed
  then show "ingest_work s = Suc (ingest_work t)" "map conn_input (conns t) = map conn_input (conns s)"
    "consuming t = consuming s" by blast+
qed

lemma ingest_work_run:
  "ingest_run I s es = Some t \<Longrightarrow> \<forall>e \<in> set es. moves_metrics e \<Longrightarrow>
     length es + ingest_work t = ingest_work s \<and> map conn_input (conns t) = map conn_input (conns s) \<and>
     consuming t = consuming s"
  by (induction es arbitrary: s) (auto split: option.splits dest: ingest_work_step)

lemma ingest_never_stuck:
  assumes "consuming s" and "0 < chan_size I" and "0 < ingest_work s"
  shows "\<exists>e t. moves_metrics e \<and> ingest_step I e s = Some t"
proof (cases "metrics_chan s")
  case Nil
  then have "0 < sum_list (map (\<lambda>c. length (conn_unsent c)) (conns s))" using assms(3) by (simp add: ingest_work_def)
  then obtain k where "k \<in> set (map (\<lambda>c. length (conn_unsent c)) (conns s))" "k \<noteq> 0" by (metis sum_list_eq_0_iff less_nat_zero_code)
  then obtain n where "n < length (conns s)" "conn_unsent (conns s ! n) \<noteq> []"
    by (auto simp: in_set_conv_nth)
  then show ?thesis
    using Nil assms(2)
    by (intro exI [of _ "Sent n"]) (auto simp: moves_metrics_def ingest_step_defs split: list.splits)
next
  case (Cons x xs)
  then show ?thesis
    using assms(1) by (intro exI [of _ Received]) (auto simp: moves_metrics_def ingest_step_defs split: prod.splits)
qed

lemma no_work_all_posted:
  assumes "ingest_reachable I s" and "ingest_work s = 0" and "n < length (conns s)"
  shows "from_conn n (posted_metrics s) = map (processMetric I) (handleConnection I (conn_input (conns s ! n)))"
proof -
  have "metrics_chan s = []" "conn_unsent (conns s ! n) = []"
    using assms(2,3) by (auto simp: ingest_work_def)
  then show ?thesis using pipeline_inv_reachable [OF assms(1)] assms(3) by (auto simp: pipeline_inv_def in_order_def)
qed

text \<open>
  C34 As long as its context is not done an ingestor never comes to a halt with work left, in whatever
  order its goroutines get to run: every send and receive brings it one step closer to the end,
  one is possible until it is reached, and then exactly the metrics of the input of every
  connection have been posted, in order.
\<close>

theorem ingest_drains:
  assumes "ingest_reachable I s" and "consuming s" and "0 < chan_size I"
    and "ingest_run I s es = Some t" and "\<forall>e \<in> set es. moves_metrics e"
  shows "length es + ingest_work t = ingest_work s \<and> map conn_input (conns t) = map conn_input (conns s) \<and>
    (if ingest_work t = 0
     then \<forall>n < length (conns t).
            from_conn n (posted_metrics t) = map (processMetric I) (handleConnection I (conn_input (conns t ! n)))
     else \<exists>e u. moves_metrics e \<and> ingest_step I e t = Some u)"
  using ingest_work_run [OF assms(4,5)] no_work_all_posted [OF ingest_run_reachable [OF assms(4,1)]]
    ingest_never_stuck [of t I] assms(2,3)
  by auto

lemma ingest_drains_witness:
  "\<exists>t. ingest_run TelegrafJson_ingestor sample_pipeline [Sent 0, Received, Received] = Some t \<and> ingest_work t = 0 \<and>
     (\<exists>ps. from_conn 0 (posted_metrics t) = ps \<and>
        ps = map TelegrafJson_processMetric (TelegrafJson_handleConnection sample_input))"
proof -
  obtain t where t: "ingest_run TelegrafJson_ingestor sample_pipeline [Sent 0, Received, Received] = Some t" "ingest_work t = 0"
      "map conn_input (conns t) = [sample_input, sample_input]"
    by (simp add: sample_pipeline_def ingest_step_defs TelegrafJson_ingestor_def telegrafJsonMetricChanSize_def ingest_work_def)
  then have "0 < length (conns t)" "conn_input (conns t ! 0) = sample_input" by (auto simp: map_eq_Cons_conv)
  moreover have "\<forall>e \<in> set [Sent 0, Received, Received]. moves_metrics e" by (simp add: moves_metrics_def)
  moreover have "consuming sample_pipeline" "0 < chan_size TelegrafJson_ingestor"
    by (simp_all add: sample_pipeline_def TelegrafJson_ingestor_def telegrafJsonMetricChanSize_def)
  ultimately have "from_conn 0 (posted_metrics t) =
      map TelegrafJson_processMetric (TelegrafJson_handleConnection sample_input)"
    using ingest_drains [OF sample_pipeline_reachable _ _ t(1)] t(2) by (auto simp: TelegrafJson_ingestor_def)
  then show ?thesis using t(1,2) by blast
qed

section \<open>The end\<close>

lemma not_consuming_step:
  "ingest_step I e s = Some t \<Longrightarrow> \<not> consuming s \<Longrightarrow>
     \<not> consuming t \<and> posted_metrics t = posted_metrics s \<and>
     length (metrics_chan t) = length (metrics_chan s) + (if moves_metrics e then 1 else 0)"
  by (cases e) (auto simp: ingest_step_defs moves_metrics_def split: if_splits list.splits)

lemma not_accepting_step:
  "ingest_step I e s = Some t \<Longrightarrow> \<not> accepting s \<Longrightarrow>
     \<not> accepting t \<and> map conn_input (conns t) = map conn_input (conns s) \<and>
     (e \<noteq> ContextDone \<longrightarrow> consuming t = consuming s \<and> listening t = listening s)"
  by (cases e)
    (auto simp: ingest_step_defs split: if_splits list.splits intro!: nth_equalityI simp: nth_list_update)

text \<open>
  Any error of \<^verbatim>\<open>Accept\<close>, a passing one included, ends the taking of connections for good: the
  ingestor goes on and its listener stays open, but no connection made afterwards is ever read.
\<close>

lemma accept_failure_is_final:
  assumes "ingest_step I AcceptFailed s = Some t" and "ingest_run I t es = Some u" and "ContextDone \<notin> set es"
  shows "map conn_input (conns u) = map conn_input (conns s) \<and> \<not> accepting u \<and>
    consuming u = consuming s \<and> listening u = listening s \<and> ingest_step I (Accepted input) u = None"
proof -
  have t: "\<not> accepting t" "conns t = conns s" "consuming t = consuming s" "listening t = listening s"
    using assms(1) by (auto simp: ingest_step_defs split: if_splits)
  have "map conn_input (conns u) = map conn_input (conns t) \<and> \<not> accepting u \<and> consuming u = consuming t \<and>
      listening u = listening t"
    using assms(2,3) t(1) by (induction es arbitrary: t) (auto split: option.splits dest: not_accepting_step)
  then show ?thesis using t by (simp add: ingest_step_defs)
qed

lemma accept_failure_is_final_witness:
  "let u = sample_pipeline\<lparr>accepting := False\<rparr>
   in consuming u \<and> listening u \<and> ingest_step TelegrafJson_ingestor (Accepted sample_input) u = None"
  using accept_failure_is_final [of TelegrafJson_ingestor sample_pipeline "sample_pipeline\<lparr>accepting := False\<rparr>" "[]"
      "sample_pipeline\<lparr>accepting := False\<rparr>" sample_input]
  by (simp add: sample_pipeline_def ingest_step_defs)

section \<open>Ingestors without connections of their own\<close>

text \<open>The loop of \<^verbatim>\<open>Start\<close> of the lumberjack ingestor (\<^verbatim>\<open>ingest/lumberjack.go\<close>): the server of the
  library receives batches, the loop posts and acknowledges them until the context is done. \<open>None\<close>
  is the context.\<close>

datatype loop_end = Disabled_Loop | Fatal_Loop | Panicked_Loop | Stopped_Loop | Running_Loop

fun lumberjack_loop :: "('event \<Rightarrow> string result) \<Rightarrow> 'event list option list \<Rightarrow> LogEvent list \<times> nat \<times> loop_end" where
  "lumberjack_loop marshal [] = ([], 0, Running_Loop)"
| "lumberjack_loop marshal (None # _) = ([], 0, Stopped_Loop)"
| "lumberjack_loop marshal (Some batch # rest) =
     (let (posts, acked) = processLumberjackBatch marshal batch;
          (more, acks, e) = lumberjack_loop marshal rest
      in (posts @ more, of_bool acked + acks, e))"

definition Lumberjack_Start ::
  "string option \<Rightarrow> go_error option \<Rightarrow> ('event \<Rightarrow> string result) \<Rightarrow> 'event list option list \<Rightarrow>
   LogEvent list \<times> nat \<times> loop_end" where
  "Lumberjack_Start listener serve marshal received =
     (case listener of
        None \<Rightarrow> ([], 0, Disabled_Loop)
      | Some _ \<Rightarrow> (if serve \<noteq> None then ([], 0, Fatal_Loop) else lumberjack_loop marshal received))"

text \<open>Every event of a batch is posted, in order, before the batch is acknowledged, and no batch is
  taken after the context is done.\<close>

lemma lumberjack_loop_posts:
  assumes "None \<notin> set received"
  shows "lumberjack_loop marshal received =
    (concat (map (fst \<circ> processLumberjackBatch marshal \<circ> the) received), length received, Running_Loop)"
    and "lumberjack_loop marshal (received @ None # rest) =
    (concat (map (fst \<circ> processLumberjackBatch marshal \<circ> the) received), length received, Stopped_Loop)"
  using assms
proof (induction received)
  case (Cons b bs)
  {
    case 1
    then show ?case using Cons.IH(1) by (cases b) (auto simp: processLumberjackBatch_def)
  next
    case 2
    then show ?case using Cons.IH(2) by (cases b) (auto simp: processLumberjackBatch_def)
  }
qed simp_all

text \<open>The loop of \<^verbatim>\<open>Start\<close> of the load test (\<^verbatim>\<open>ingest/perf_test_ingestor.go\<close>); the number of values
  is written by the HTTP handler, without synchronisation, at any time.\<close>

datatype perf_event = PerfDone | NewRate int64 | Ticked int64 | FloatsSet int64

fun perf_loop :: "PerfTestIngestor \<Rightarrow> duration \<Rightarrow> perf_event list \<Rightarrow> NameTagValueMetric list \<times> loop_end" where
  "perf_loop p ticker [] = ([], Running_Loop)"
| "perf_loop p ticker (PerfDone # _) = ([], Stopped_Loop)"
| "perf_loop p ticker (NewRate rate # es) =
     (case takes_new_rate rate p of None \<Rightarrow> ([], Panicked_Loop) | Some (p, ticker) \<Rightarrow> perf_loop p ticker es)"
| "perf_loop p ticker (Ticked now # es) =
     (let (posts, e) = perf_loop p ticker es in (PerfTest_processMetric now p # posts, e))"
| "perf_loop p ticker (FloatsSet n # es) = perf_loop (p\<lparr>floatsPerMetric := n\<rparr>) ticker es"

definition PerfTest_Start :: "int64 \<Rightarrow> PerfTestIngestor \<Rightarrow> perf_event list \<Rightarrow> NameTagValueMetric list \<times> loop_end" where
  "PerfTest_Start port p es =
     (if port = 0 then ([], Disabled_Loop)
      else case rate_ticker (metricsPerMinute p) of
          None \<Rightarrow> ([], Panicked_Loop)
        | Some ticker \<Rightarrow> perf_loop p ticker es)"

text \<open>The server of the load test: whether it can listen or not, it ends the program when it ends.\<close>

definition startPerfTestServer :: "string result \<Rightarrow> go_error \<Rightarrow> string" where
  "startPerfTestServer net_listen served =
     (case net_listen of
        Inl err \<Rightarrow> ''couldn't create perf test server''
      | Inr _ \<Rightarrow> ''perf test server error '' @ Error served)"

text \<open>The loop panics exactly when some rate it takes before its context is done is a bad one.\<close>

lemma perf_loop_panics:
  "snd (perf_loop p ticker es) = Panicked_Loop \<longleftrightarrow>
     (\<exists>rate. NewRate rate \<in> set (takeWhile (\<lambda>e. e \<noteq> PerfDone) es) \<and> (sint rate \<le> 0 \<or> 60000000000 < sint rate))"
proof (induction p ticker es rule: perf_loop.induct)
  case (3 p ticker rate es)
  show ?case
    using rate_ticker_None [of rate] 3
    by (cases "rate_ticker rate") (auto simp: takes_new_rate_def)
qed (auto split: prod.splits)

end
