(* ===== verification/Json_Config_Files.thy ===== *)
theory Json_Config_Files
  imports Filebeat_Runner
begin

text \<open>
  What the oracle and the packages runner share: one JSON file per configuration, rendered from
  the operation's content and written over the file without truncating it.
\<close>

text \<open>
  \<^verbatim>\<open>writeConfigFile\<close>, given what to make of the decoded content. A JSON \<^verbatim>\<open>null\<close> leaves the
  map nil, and storing into it panics.
\<close>

definition writeConfigFile ::
  "(gmap \<Rightarrow> string) \<Rightarrow> faults \<Rightarrow> path \<Rightarrow> ConfigurationOp \<Rightarrow> fs \<Rightarrow> go_error option flow \<times> fs" where
  "writeConfigFile encode flt path op fs =
     (case Unmarshal_map (op_content op) of
        Inl err \<Rightarrow> (Ret (Some err), fs)
      | Inr None \<Rightarrow> (Panics, fs)
      | Inr (Some configMap) \<Rightarrow>
          (case os_OpenFile flt fs path of
             (Inl err, fs) \<Rightarrow> (Ret (Some err), fs)
           | (Inr outFile, fs) \<Rightarrow>
               (case file_Write flt fs outFile (encode configMap) of (err, fs) \<Rightarrow> (Ret err, fs))))"

text \<open>One operation; \<open>agent\<close> names the agent in the messages.\<close>

definition config_file_op ::
  "string \<Rightarrow> (ConfigurationOp \<Rightarrow> gmap \<Rightarrow> string) \<Rightarrow> faults \<Rightarrow> path \<Rightarrow> ConfigurationOp \<Rightarrow> fs \<Rightarrow>
   bool result flow \<times> fs" where
  "config_file_op agent encode flt configsPath op fs =
     (let configInstancePath = Join configsPath (op_id op @ ''.json'');
          write =
            (case writeConfigFile (encode op) flt configInstancePath op fs of
               (Panics, fs) \<Rightarrow> (Panics, fs)
             | (Ret (Some err), fs) \<Rightarrow>
                 (Ret (Inl (Wrapped (''failed to process '' @ agent @ '' agent config file'') err)), fs)
             | (Ret None, fs) \<Rightarrow> (Ret (Inr True), fs))
      in case op_type op of
           CREATE \<Rightarrow> write
         | MODIFY \<Rightarrow> write
         | REMOVE \<Rightarrow>
             (case os_Remove flt fs configInstancePath of
                (Some err, fs) \<Rightarrow>
                  (if \<not> os_IsNotExist err
                   then Ret (Inl (Wrapped (''failed to remove '' @ agent @ '' agent config file'') err))
                   else Ret (Inr False), fs)
              | (None, fs) \<Rightarrow> (Ret (Inr True), fs))
         | OtherOp _ \<Rightarrow> (Ret (Inr False), fs))"

definition json_ProcessConfig ::
  "string \<Rightarrow> (ConfigurationOp \<Rightarrow> gmap \<Rightarrow> string) \<Rightarrow> request_env \<Rightarrow> EnvoyInstructionConfigure \<Rightarrow>
   AgentRunner \<Rightarrow> fs \<Rightarrow> go_error option flow \<times> fs" where
  "json_ProcessConfig agent encode env configure r fs =
     (case ensureConfigsDir (env_faults env) (basePath r) fs of
        (Inl err, fs) \<Rightarrow> (Ret (Some err), fs)
      | (Inr configsPath, fs) \<Rightarrow>
          (case apply_ops_strict (config_file_op agent encode (env_faults env) configsPath)
              (conf_operations configure) 0 fs of
             (Panics, fs) \<Rightarrow> (Panics, fs)
           | (Ret (Inl err), fs) \<Rightarrow> (Ret (Some err), fs)
           | (Ret (Inr applied), fs) \<Rightarrow>
               (Ret (if applied = 0 then Some NoAppliedConfigsError else None), fs)))"

section \<open>The store\<close>

definition json_render :: "(ConfigurationOp \<Rightarrow> gmap \<Rightarrow> string) \<Rightarrow> ConfigurationOp \<Rightarrow> string option" where
  "json_render encode op =
     (case Unmarshal_map (op_content op) of Inr (Some m) \<Rightarrow> Some (encode op m) | _ \<Rightarrow> None)"

definition json_op ::
  "string \<Rightarrow> (ConfigurationOp \<Rightarrow> gmap \<Rightarrow> string) \<Rightarrow> path \<Rightarrow> ConfigurationOp \<Rightarrow> fs \<Rightarrow> bool \<times> fs" where
  "json_op agent encode d op fs =
     (case config_file_op agent encode no_faults d op fs of
        (Ret (Inr b), fs') \<Rightarrow> (b, fs')
      | (_, fs') \<Rightarrow> (False, fs'))"

lemma good_ext_json: "good_ext ''.json''"
  by (simp add: good_ext_def)

lemma Join_json: "plain_id op \<Longrightarrow> Join d (op_id op @ ''.json'') = d @ [op_id op @ ''.json'']"
  using plain_name_ext [OF _ good_ext_json] by simp

lemma writeConfigFile_slot:
  assumes "file_slot fs d c" and "Unmarshal_map (op_content op) = Inr (Some m)"
  shows "writeConfigFile enc no_faults (d @ [c]) op fs =
     (Ret None, put (d @ [c]) (File (overwrite_content (enc m) (file_content fs (d @ [c]))))
        (put (d @ [c]) (File (case file_content fs (d @ [c]) of None \<Rightarrow> [] | Some s \<Rightarrow> s)) fs))"
  using assms
  by (simp add: writeConfigFile_def os_OpenFile_def open_create_slot file_Write_def overwrite_content_def)

lemma config_file_op_write:
  assumes "config_dir d fs" and "plain_id op" and "is_write op"
  shows "config_file_op agent encode no_faults d op fs =
     (case Unmarshal_map (op_content op) of
        Inl err \<Rightarrow> (Ret (Inl (Wrapped (''failed to process '' @ agent @ '' agent config file'') err)), fs)
      | Inr None \<Rightarrow> (Panics, fs)
      | Inr (Some m) \<Rightarrow>
          (Ret (Inr True),
           put (d @ [op_id op @ ''.json''])
             (File (overwrite_content (encode op m) (file_config d ''.json'' fs (op_id op))))
             (put (d @ [op_id op @ ''.json''])
               (File (case file_config d ''.json'' fs (op_id op) of None \<Rightarrow> [] | Some s \<Rightarrow> s)) fs)))"
proof -
  have slot: "file_slot fs d (op_id op @ ''.json'')"
    by (rule config_dir_slot [OF assms(1) plain_name_ext [OF assms(2) good_ext_json]])
  have "op_type op = CREATE \<or> op_type op = MODIFY" using assms(3) by (simp add: is_write_def)
  then show ?thesis
    using writeConfigFile_slot [OF slot]
    by (auto simp: config_file_op_def Let_def Join_json [OF assms(2)] file_config_def writeConfigFile_def
        split: sum.split option.split)
qed

lemma config_file_op_remove:
  assumes "config_dir d fs" and "plain_id op" and "op_type op = REMOVE"
  shows "config_file_op agent encode no_faults d op fs =
     (if lookup fs (d @ [op_id op @ ''.json'']) = None then (Ret (Inr False), fs)
      else (Ret (Inr True), remove_tree (d @ [op_id op @ ''.json'']) fs))"
  using assms Remove_slot [OF config_dir_slot [OF assms(1) plain_name_ext [OF assms(2) good_ext_json]]]
  by (simp add: config_file_op_def Let_def Join_json)

lemma config_file_op_other:
  "op_type op = OtherOp n \<Longrightarrow> config_file_op agent encode flt d op fs = (Ret (Inr False), fs)"
  by (simp add: config_file_op_def Let_def)

lemma json_op_law:
  assumes "config_dir d fs" and "plain_id op" and "json_op agent encode d op fs = (b, fs')"
  shows "config_dir d fs' \<and>
     file_config d ''.json'' fs' = config_step (json_render encode) overwrite_content op (file_config d ''.json'' fs)"
proof -
  have p: "plain_name (op_id op @ ''.json'')" by (rule plain_name_ext [OF assms(2) good_ext_json])
  consider "is_write op" | "op_type op = REMOVE" | n where "op_type op = OtherOp n"
    by (cases "op_type op") (auto simp: is_write_def)
  then show ?thesis
  proof cases
    case 1
    with assms p show ?thesis
      by (auto simp: json_op_def config_file_op_write config_step_write json_render_def file_config_put
          config_dir_put split: sum.splits option.splits)
  next
    case 2
    with assms show ?thesis
      by (auto simp: json_op_def config_file_op_remove config_step_remove file_config_remove
          config_dir_remove file_config_absent split: if_splits)
  next
    case 3
    with assms show ?thesis by (simp add: json_op_def config_file_op_other config_step_no_op)
  qed
qed

interpretation json_store: config_store "config_dir d" plain_id "file_config d ''.json''"
  "json_render encode" overwrite_content "json_op agent encode d" for d encode agent
proof unfold_locales
  fix fs fs' op b
  assume "config_dir d fs" and "plain_id op" and "json_op agent encode d op fs = (b, fs')"
  then show "config_dir d fs' \<and> file_config d ''.json'' fs' =
      config_step (json_render encode) overwrite_content op (file_config d ''.json'' fs)"
    by (rule json_op_law)
next
  fix fs op
  assume "config_dir d fs" and "plain_id op" and "is_write op"
  then show "fst (json_op agent encode d op fs) \<longleftrightarrow> json_render encode op \<noteq> None"
    by (auto simp: json_op_def config_file_op_write json_render_def split: sum.split option.split)
qed

lemma json_op_frame:
  assumes "config_dir d fs" and "plain_id op" and "json_op agent encode d op fs = (b, fs')"
  shows "\<not> prefix d q \<Longrightarrow> lookup fs' q = lookup fs q"
    and "only_ext d ''.json'' fs \<Longrightarrow> only_ext d ''.json'' fs'"
proof -
  have "(\<not> prefix d q \<longrightarrow> lookup fs' q = lookup fs q) \<and> (only_ext d ''.json'' fs \<longrightarrow> only_ext d ''.json'' fs')"
  proof (cases "op_type op")
    case (OtherOp n)
    then show ?thesis using assms(3) by (simp add: json_op_def config_file_op_other)
  next
    case REMOVE
    then show ?thesis
      using assms(3) config_file_op_remove [OF assms(1,2) REMOVE, of agent encode]
      by (auto simp: json_op_def dest: append_prefixD split: if_splits)
  qed (use assms(3) config_file_op_write [OF assms(1,2), of agent encode] in
      \<open>auto simp: json_op_def is_write_def below_put split: sum.splits option.splits\<close>)
  then show "\<not> prefix d q \<Longrightarrow> lookup fs' q = lookup fs q" "only_ext d ''.json'' fs \<Longrightarrow> only_ext d ''.json'' fs'"
    by blast+
qed

lemma json_ops_frame:
  assumes "config_dir d fs" and "list_all plain_id ops"
  shows "\<not> prefix d q \<Longrightarrow> lookup (snd (apply_ops (json_op agent encode d) ops n fs)) q = lookup fs q"
    and "only_ext d ''.json'' fs \<Longrightarrow> only_ext d ''.json'' (snd (apply_ops (json_op agent encode d) ops n fs))"
proof -
  note keeps = json_store.apply_ops_keeps [where encode = encode and agent = agent and n = n, OF assms]
  show "\<not> prefix d q \<Longrightarrow> lookup (snd (apply_ops (json_op agent encode d) ops n fs)) q = lookup fs q"
    by (rule keeps) (simp_all add: json_op_frame(1))
  show "only_ext d ''.json'' fs \<Longrightarrow> only_ext d ''.json'' (snd (apply_ops (json_op agent encode d) ops n fs))"
    by (rule keeps) (simp_all add: json_op_frame(2))
qed

section \<open>The strict loop\<close>

definition renders :: "(ConfigurationOp \<Rightarrow> gmap \<Rightarrow> string) \<Rightarrow> ConfigurationOp \<Rightarrow> bool" where
  "renders encode op \<longleftrightarrow> (is_write op \<longrightarrow> json_render encode op \<noteq> None)"

lemma config_file_op_renders:
  assumes "config_dir d fs" and "plain_id op" and "renders encode op"
  shows "config_file_op agent encode no_faults d op fs =
     (Ret (Inr (fst (json_op agent encode d op fs))), snd (json_op agent encode d op fs))"
proof -
  consider "is_write op" | "op_type op = REMOVE" | n where "op_type op = OtherOp n"
    by (cases "op_type op") (auto simp: is_write_def)
  then show ?thesis
  proof cases
    case 1
    with assms show ?thesis
      by (auto simp: json_op_def renders_def json_render_def config_file_op_write
          split: sum.splits option.splits)
  next
    case 2
    with assms show ?thesis by (simp add: json_op_def config_file_op_remove)
  next
    case 3
    with assms show ?thesis by (simp add: json_op_def config_file_op_other)
  qed
qed

lemma strict_ops_render:
  assumes "config_dir d fs" and "list_all plain_id ops" and "list_all (renders encode) ops"
  shows "apply_ops_strict (config_file_op agent encode no_faults d) ops n fs =
     (Ret (Inr (fst (apply_ops (json_op agent encode d) ops n fs))), snd (apply_ops (json_op agent encode d) ops n fs))"
  using assms
proof (induction ops arbitrary: n fs)
  case (Cons op ops)
  obtain b fs1 where h: "json_op agent encode d op fs = (b, fs1)" by fastforce
  have "config_dir d fs1" using json_op_law [OF _ _ h] Cons.prems by simp
  then show ?case
    using Cons.IH [of fs1] Cons.prems h config_file_op_renders [of d fs op encode agent]
    by (simp del: no_faults)
qed simp

text \<open>The first write that cannot be rendered ends the instruction: the operations before it are in
  place, those after it have no effect.\<close>

lemma strict_ops_stop:
  assumes "config_dir d fs" and "list_all plain_id (before @ op # after)"
    and "list_all (renders encode) before" and "is_write op" and "json_render encode op = None"
  shows "snd (apply_ops_strict (config_file_op agent encode no_faults d) (before @ op # after) n fs) =
      snd (apply_ops (json_op agent encode d) before n fs)"
    and "fst (apply_ops_strict (config_file_op agent encode no_faults d) (before @ op # after) n fs) =
      (case Unmarshal_map (op_content op) of
         Inl err \<Rightarrow> Ret (Inl (Wrapped (''failed to process '' @ agent @ '' agent config file'') err))
       | Inr _ \<Rightarrow> Panics)"
proof -
  have all: "apply_ops_strict (config_file_op agent encode no_faults d) (before @ op # after) n fs =
      ((case Unmarshal_map (op_content op) of
         Inl err \<Rightarrow> Ret (Inl (Wrapped (''failed to process '' @ agent @ '' agent config file'') err))
       | Inr _ \<Rightarrow> Panics), snd (apply_ops (json_op agent encode d) before n fs))"
    using assms
  proof (induction before arbitrary: n fs)
    case Nil
    then show ?case
      by (auto simp: config_file_op_write json_render_def simp del: no_faults split: sum.splits option.splits)
  next
    case (Cons x xs)
    obtain b fs1 where h: "json_op agent encode d x fs = (b, fs1)" by fastforce
    have "config_dir d fs1" using json_op_law [OF _ _ h] Cons.prems by simp
    then show ?case
      using Cons.IH [of fs1] Cons.prems h config_file_op_renders [of d fs x encode agent]
      by (simp del: no_faults)
  qed
  show "snd (apply_ops_strict (config_file_op agent encode no_faults d) (before @ op # after) n fs) =
      snd (apply_ops (json_op agent encode d) before n fs)"
    and "fst (apply_ops_strict (config_file_op agent encode no_faults d) (before @ op # after) n fs) =
      (case Unmarshal_map (op_content op) of
         Inl err \<Rightarrow> Ret (Inl (Wrapped (''failed to process '' @ agent @ '' agent config file'') err))
       | Inr _ \<Rightarrow> Panics)"
    unfolding all by simp_all
qed

text \<open>Whatever the instruction holds, the files are those of the operations before the first that
  cannot be rendered.\<close>

lemma strict_ops_files:
  assumes "config_dir d fs" and "list_all plain_id ops"
  shows "snd (apply_ops_strict (config_file_op agent encode no_faults d) ops n fs) =
     snd (apply_ops (json_op agent encode d) (takeWhile (renders encode) ops) n fs)"
proof (cases "dropWhile (renders encode) ops")
  case Nil
  then have all: "list_all (renders encode) ops" by (simp add: list_all_iff)
  then have tw: "takeWhile (renders encode) ops = ops" by (simp add: list_all_iff takeWhile_eq_all_conv)
  show ?thesis unfolding tw using strict_ops_render [OF assms all] by simp
next
  case (Cons op after)
  obtain before where before: "before = takeWhile (renders encode) ops" by simp
  have ops: "ops = before @ op # after" unfolding before using Cons by (metis takeWhile_dropWhile_id)
  have all: "list_all (renders encode) before" by (auto simp: before list_all_iff dest: set_takeWhileD)
  have "\<not> renders encode op" using hd_dropWhile [of "renders encode" ops] Cons by simp
  then have op: "is_write op" "json_render encode op = None" by (auto simp: renders_def)
  have ids: "list_all plain_id (before @ op # after)" using assms(2) by (simp only: ops)
  show ?thesis
    using strict_ops_stop(1) [OF assms(1) ids all op] by (simp only: ops [symmetric] before [symmetric])
qed

lemma json_ProcessConfig_run:
  assumes "env_faults env = no_faults" and "config_ready (basePath r @ [configsDirSubpath]) fs"
    and "list_all plain_id (conf_operations configure)"
  obtains fs1 where "config_dir (basePath r @ [configsDirSubpath]) fs1"
    and "file_config (basePath r @ [configsDirSubpath]) ''.json'' fs1 =
         file_config (basePath r @ [configsDirSubpath]) ''.json'' fs"
    and "\<And>q. \<not> prefix q (basePath r @ [configsDirSubpath]) \<Longrightarrow> lookup fs1 q = lookup fs q"
    and "json_ProcessConfig agent encode env configure r fs =
      (case apply_ops_strict (config_file_op agent encode no_faults (basePath r @ [configsDirSubpath]))
          (conf_operations configure) 0 fs1 of
         (Panics, fs) \<Rightarrow> (Panics, fs)
       | (Ret (Inl err), fs) \<Rightarrow> (Ret (Some err), fs)
       | (Ret (Inr applied), fs) \<Rightarrow> (Ret (if applied = 0 then Some NoAppliedConfigsError else None), fs))"
proof -
  obtain fs1 where e: "ensureConfigsDir no_faults (basePath r) fs = (Inr (basePath r @ [configsDirSubpath]), fs1)"
    and d1: "config_dir (basePath r @ [configsDirSubpath]) fs1"
    and c1: "file_config (basePath r @ [configsDirSubpath]) ''.json'' fs1 =
        file_config (basePath r @ [configsDirSubpath]) ''.json'' fs"
    and l1: "\<And>q. \<not> prefix q (basePath r @ [configsDirSubpath]) \<Longrightarrow> lookup fs1 q = lookup fs q"
    using ensureConfigsDir_ready [OF assms(2)] by metis
  show ?thesis
    by (rule that [OF d1 c1 l1]) (simp_all add: json_ProcessConfig_def assms(1) e del: no_faults)
qed

lemma json_ProcessConfig_effect:
  assumes "env_faults env = no_faults" and "config_ready (basePath r @ [configsDirSubpath]) fs"
    and "list_all plain_id (conf_operations configure)"
    and "json_ProcessConfig agent encode env configure r fs = (result, fs')"
  shows "config_dir (basePath r @ [configsDirSubpath]) fs'"
    and "file_config (basePath r @ [configsDirSubpath]) ''.json'' fs' =
      fold (config_step (json_render encode) overwrite_content) (takeWhile (renders encode) (conf_operations configure))
        (file_config (basePath r @ [configsDirSubpath]) ''.json'' fs)"
    and "\<And>q. \<not> prefix q (basePath r @ [configsDirSubpath]) \<Longrightarrow> \<not> prefix (basePath r @ [configsDirSubpath]) q \<Longrightarrow>
      lookup fs' q = lookup fs q"
    and "only_ext (basePath r @ [configsDirSubpath]) ''.json'' fs \<Longrightarrow>
      only_ext (basePath r @ [configsDirSubpath]) ''.json'' fs'"
proof -
  let ?d = "basePath r @ [configsDirSubpath]" and ?ops = "takeWhile (renders encode) (conf_operations configure)"
  obtain fs1 where d1: "config_dir ?d fs1"
    and c1: "file_config ?d ''.json'' fs1 = file_config ?d ''.json'' fs"
    and l1: "\<And>q. \<not> prefix q ?d \<Longrightarrow> lookup fs1 q = lookup fs q"
    and run: "json_ProcessConfig agent encode env configure r fs =
      (case apply_ops_strict (config_file_op agent encode no_faults ?d) (conf_operations configure) 0 fs1 of
         (Panics, fs) \<Rightarrow> (Panics, fs)
       | (Ret (Inl err), fs) \<Rightarrow> (Ret (Some err), fs)
       | (Ret (Inr applied), fs) \<Rightarrow> (Ret (if applied = 0 then Some NoAppliedConfigsError else None), fs))"
    by (rule json_ProcessConfig_run [OF assms(1-3), where encode = encode and agent = agent]) (rule that; assumption)
  have "fs' = snd (apply_ops_strict (config_file_op agent encode no_faults ?d) (conf_operations configure) 0 fs1)"
    using run assms(4) by (auto split: prod.splits flow.splits sum.splits)
  then have fs': "fs' = snd (apply_ops (json_op agent encode ?d) ?ops 0 fs1)"
    using strict_ops_files [OF d1 assms(3)] by simp
  have ids: "list_all plain_id ?ops" using assms(3) by (auto simp: list_all_iff dest: set_takeWhileD)
  note c = json_store.apply_ops_content [OF d1 ids, where encode = encode and agent = agent and n = 0]
  note frame = json_ops_frame [OF d1 ids, where encode = encode and agent = agent and n = 0, folded fs']
  have np: "\<not> prefix (?d @ [c]) ?d" for c by (auto dest: prefix_length_le)
  show "config_dir ?d fs'" and "file_config ?d ''.json'' fs' =
      fold (config_step (json_render encode) overwrite_content) ?ops (file_config ?d ''.json'' fs)"
    using c fs' c1 by simp_all
  show "\<not> prefix q ?d \<Longrightarrow> \<not> prefix ?d q \<Longrightarrow> lookup fs' q = lookup fs q" for q
    using frame(1) [of q] l1 by simp
  show "only_ext ?d ''.json'' fs \<Longrightarrow> only_ext ?d ''.json'' fs'"
    using frame(2) l1 [OF np] by (simp add: only_ext_def)
qed

lemma json_ProcessConfig_files:
  assumes "env_faults env = no_faults" and "config_ready (basePath r @ [configsDirSubpath]) fs"
    and "list_all plain_id (conf_operations configure)"
    and "list_all (renders encode) (conf_operations configure)"
    and "json_ProcessConfig agent encode env configure r fs = (result, fs')"
  shows "config_dir (basePath r @ [configsDirSubpath]) fs' \<and>
    file_config (basePath r @ [configsDirSubpath]) ''.json'' fs' =
      fold (config_step (json_render encode) overwrite_content) (conf_operations configure)
        (file_config (basePath r @ [configsDirSubpath]) ''.json'' fs) \<and>
    (result = Ret None \<or> result = Ret (Some NoAppliedConfigsError)) \<and>
    (result = Ret (Some NoAppliedConfigsError) \<longrightarrow> \<not> (\<exists>op \<in> set (conf_operations configure). is_write op))"
proof -
  let ?d = "basePath r @ [configsDirSubpath]" and ?ops = "conf_operations configure"
  obtain fs1 where d1: "config_dir ?d fs1"
    and c1: "file_config ?d ''.json'' fs1 = file_config ?d ''.json'' fs"
    and run: "json_ProcessConfig agent encode env configure r fs =
      (case apply_ops_strict (config_file_op agent encode no_faults ?d) ?ops 0 fs1 of
         (Panics, fs) \<Rightarrow> (Panics, fs)
       | (Ret (Inl err), fs) \<Rightarrow> (Ret (Some err), fs)
       | (Ret (Inr applied), fs) \<Rightarrow> (Ret (if applied = 0 then Some NoAppliedConfigsError else None), fs))"
    by (rule json_ProcessConfig_run [OF assms(1-3), where encode = encode and agent = agent])
       (rule that; assumption)
  let ?r = "apply_ops (json_op agent encode ?d) ?ops 0 fs1"
  have "json_ProcessConfig agent encode env configure r fs =
      (Ret (if fst ?r = 0 then Some NoAppliedConfigsError else None), snd ?r)"
    unfolding run strict_ops_render [OF d1 assms(3,4)] by simp
  then have res: "result = Ret (if fst ?r = 0 then Some NoAppliedConfigsError else None)" "fs' = snd ?r"
    using assms(5) by simp_all
  have "0 < fst ?r" if "op \<in> set ?ops" "is_write op" for op
    using json_store.apply_ops_some [OF d1 assms(3) that, where encode = encode and agent = agent and n = 0]
      assms(4) that by (simp add: list_all_iff renders_def)
  then show ?thesis
    using json_store.apply_ops_content [OF d1 assms(3), where encode = encode and agent = agent and n = 0] res c1
    by (auto split: if_splits)
qed

lemma json_ProcessConfig_stops:
  assumes "env_faults env = no_faults" and "config_ready (basePath r @ [configsDirSubpath]) fs"
    and "conf_operations configure = before @ op # after"
    and "list_all plain_id (conf_operations configure)"
    and "list_all (renders encode) before" and "is_write op" and "json_render encode op = None"
    and "json_ProcessConfig agent encode env configure r fs = (result, fs')"
  shows "file_config (basePath r @ [configsDirSubpath]) ''.json'' fs' =
      fold (config_step (json_render encode) overwrite_content) before
        (file_config (basePath r @ [configsDirSubpath]) ''.json'' fs)"
    and "result = (case Unmarshal_map (op_content op) of
        Inl err \<Rightarrow> Ret (Some (Wrapped (''failed to process '' @ agent @ '' agent config file'') err))
      | Inr _ \<Rightarrow> Panics)"
proof -
  let ?d = "basePath r @ [configsDirSubpath]" and ?ops = "conf_operations configure"
  obtain fs1 where d1: "config_dir ?d fs1"
    and c1: "file_config ?d ''.json'' fs1 = file_config ?d ''.json'' fs"
    and run: "json_ProcessConfig agent encode env configure r fs =
      (case apply_ops_strict (config_file_op agent encode no_faults ?d) ?ops 0 fs1 of
         (Panics, fs) \<Rightarrow> (Panics, fs)
       | (Ret (Inl err), fs) \<Rightarrow> (Ret (Some err), fs)
       | (Ret (Inr applied), fs) \<Rightarrow> (Ret (if applied = 0 then Some NoAppliedConfigsError else None), fs))"
    by (rule json_ProcessConfig_run [OF assms(1,2,4), where encode = encode and agent = agent])
       (rule that; assumption)
  note stop = strict_ops_stop [OF d1 assms(4) [unfolded assms(3)] assms(5-7), where agent = agent and n = 0]
  obtain fl t where st: "apply_ops_strict (config_file_op agent encode no_faults ?d) ?ops 0 fs1 = (fl, t)"
    by fastforce
  have "fs' = t" and fl: "result = (case Unmarshal_map (op_content op) of
        Inl err \<Rightarrow> Ret (Some (Wrapped (''failed to process '' @ agent @ '' agent config file'') err))
      | Inr _ \<Rightarrow> Panics)"
    using run assms(8) st stop(2) unfolding assms(3) [symmetric]
    by (auto split: flow.splits sum.splits)
  then have "fs' = snd (apply_ops (json_op agent encode ?d) before 0 fs1)"
    using stop(1) st assms(3) by simp
  then show "file_config ?d ''.json'' fs' =
      fold (config_step (json_render encode) overwrite_content) before (file_config ?d ''.json'' fs)"
    using json_store.apply_ops_content [OF d1, where ops = before and encode = encode and agent = agent and n = 0]
      assms(3,4) c1 by simp
  show "result = (case Unmarshal_map (op_content op) of
        Inl err \<Rightarrow> Ret (Some (Wrapped (''failed to process '' @ agent @ '' agent config file'') err))
      | Inr _ \<Rightarrow> Panics)" by (rule fl)
qed

end
