(* ===== verification/Oracle_Runner.thy ===== *)
theory Oracle_Runner
  imports Json_Config_Files
begin

text \<open>
  The oracle runner (\<^verbatim>\<open>agents/oracle.go\<close>): the agent is restarted to pick up configurations,
  and an agent that does not start ends the Envoy.
\<close>

section \<open>Operations\<close>

definition Oracle_encode :: "libs \<Rightarrow> ConfigurationOp \<Rightarrow> gmap \<Rightarrow> string" where
  "Oracle_encode lb op configMap =
     Encode_map (format_float lb) (AList.update ''interval'' (GInt (op_interval op)) configMap)"

definition Oracle_ProcessConfig ::
  "request_env \<Rightarrow> EnvoyInstructionConfigure \<Rightarrow> AgentRunner \<Rightarrow> fs \<Rightarrow> go_error option flow \<times> fs" where
  "Oracle_ProcessConfig env configure r fs =
     json_ProcessConfig ''oracle'' (Oracle_encode (env_libs env)) env configure r fs"

definition Oracle_PurgeConfig :: "faults \<Rightarrow> AgentRunner \<Rightarrow> fs \<Rightarrow> go_error option \<times> fs" where
  "Oracle_PurgeConfig flt r fs = purgeConfigsDirectory flt (basePath r) fs"

definition Oracle_Stop ::
  "handler_env \<Rightarrow> handler_state \<Rightarrow> AgentRunner \<Rightarrow> handler_state \<times> AgentRunner" where
  "Oracle_Stop env h r = (Stop env (running r) h, r\<lparr>running := None\<rparr>)"

definition Oracle_EnsureRunningState ::
  "request_env \<Rightarrow> fs \<Rightarrow> bool \<Rightarrow> handler_state \<Rightarrow> AgentRunner \<Rightarrow> bool \<times> handler_state \<times> AgentRunner" where
  "Oracle_EnsureRunningState env fs applyConfigs h r =
     (if IsRunning h (running r) \<and> \<not> applyConfigs then (False, h, r)
      else
        (let (h, r) = (if IsRunning h (running r) then Oracle_Stop (env_handler env) h r else (h, r)) in
         case CreateContext ORACLE (buildRelativeExePath ''salus-oracle-agent'') (basePath r)
             [''-configs'', configsDirSubpath] h of
           (c, h) \<Rightarrow>
             (case StartAgentCommand (env_handler env) c ''Succeeded in reconnecting to Envoy'' h of
                (Some err, h) \<Rightarrow> (True, h, r)
              | (None, h) \<Rightarrow> (False, go_WaitOnAgentCommand c h, r\<lparr>running := Some c\<rparr>))))"

definition Oracle_ProcessTestMonitor :: "TestMonitorResults result" where
  "Oracle_ProcessTestMonitor = Inl (ErrorString ''Test monitor not supported by oracle agent'')"

section \<open>The runner contract\<close>

text \<open>The state in which the agent is started, after the stop of one that runs.\<close>

lemma stopped_first:
  assumes "runners_inv R h" and "R a = run"
    and "h0 = (if IsRunning h run then Stop henv run h else h)"
    and "R0 = (if IsRunning h run then R(a := None) else R)"
  shows "runners_inv R0 h0" "no_active a h0" "others_kept a h h0" "agent_of h0 = agent_of h"
proof -
  have inv: "handler_inv h" using assms(1) by (simp add: runners_inv_def)
  show "runners_inv R0 h0" "no_active a h0" "others_kept a h h0"
    using stop_running [OF assms(1), where a = a and env = henv] not_running_no_active [OF assms(1), of a] assms
    by auto
  show "agent_of h0 = agent_of h" using Stop_spec(2) [OF inv] by (simp add: assms(3))
qed

lemma Oracle_ensure_cases [consumes 3, case_names kept failed started]:
  assumes "runners_inv R h" and "R ORACLE = running r"
    and "Oracle_EnsureRunningState env fs b h r = (fatal, h', r')"
  obtains (kept) "IsRunning h (running r)" "\<not> b" "\<not> fatal" "h' = h" "r' = r"
    | (failed) "\<not> IsRunning h (running r) \<or> b" "fatal" "runners_inv (R(ORACLE := running r')) h'"
        "no_active ORACLE h'" "others_kept ORACLE h h'"
    | (started) c where "\<not> IsRunning h (running r) \<or> b" "\<not> fatal" "running r' = Some c"
        "runners_inv (R(ORACLE \<mapsto> c)) h'" "others_kept ORACLE h h'" "active h' c"
proof (cases "IsRunning h (running r) \<and> \<not> b")
  case True
  then show ?thesis using kept assms(3) by (simp add: Oracle_EnsureRunningState_def)
next
  case False
  define h0 where "h0 = (if IsRunning h (running r) then Stop (env_handler env) (running r) h else h)"
  define r0 where "r0 = (if IsRunning h (running r) then r\<lparr>running := None\<rparr> else r)"
  define R0 where "R0 = (if IsRunning h (running r) then R(ORACLE := None) else R)"
  note st = stopped_first [OF assms(1,2) h0_def R0_def]
  obtain c h1 where c: "CreateContext ORACLE (buildRelativeExePath ''salus-oracle-agent'') (basePath r0)
      [''-configs'', configsDirSubpath] h0 = (c, h1)" by fastforce
  obtain e h2 where s: "StartAgentCommand (env_handler env) c ''Succeeded in reconnecting to Envoy'' h1 = (e, h2)"
    by fastforce
  have run: "Oracle_EnsureRunningState env fs b h r =
      (case e of Some err \<Rightarrow> (True, h2, r0) | None \<Rightarrow> (False, go_WaitOnAgentCommand c h2, r0\<lparr>running := Some c\<rparr>))"
    using False c s
    by (auto simp: Oracle_EnsureRunningState_def Oracle_Stop_def h0_def r0_def split: option.splits)
  have l: "launching ORACLE R0 h0 h1 c" by (rule launching_create [OF st(1,2) c])
  show ?thesis
  proof (cases e)
    case None
    have "R0(ORACLE \<mapsto> c) = R(ORACLE \<mapsto> c)" by (simp add: R0_def)
    then show ?thesis
      using started [of c] False launching_started [OF l] s None run assms(3) st(3)
      by (auto intro: others_kept_trans)
  next
    case (Some err)
    have R0: "R0 = R(ORACLE := running r0)" using assms(2) by (auto simp: R0_def r0_def)
    note fl = launching_start_failed [OF l, of "env_handler env" _ err h2]
    have o: "fatal" "h' = h2" "r' = r0" using run assms(3) Some by simp_all
    show ?thesis
    proof (rule failed)
      show "\<not> IsRunning h (running r) \<or> b" using False by blast
      show "others_kept ORACLE h h'" using fl s Some o others_kept_trans [OF st(3)] by blast
      show "runners_inv (R(ORACLE := running r')) h'" using fl s Some o unfolding R0 by blast
    qed (use fl s Some o in blast)+
  qed
qed

lemma Oracle_ensure_law:
  assumes "runners_inv R h" and "R ORACLE = running r"
    and "Oracle_EnsureRunningState env fs b h r = (fatal, h', r')"
  shows "runners_inv (R(ORACLE := running r')) h' \<and> others_kept ORACLE h h'"
  using assms assms(1) by (cases rule: Oracle_ensure_cases) (simp_all add: fun_upd_idem [where f = R and x = ORACLE, OF assms(2)])

lemma Oracle_stop_law:
  assumes "runners_inv R h" and "R ORACLE = running r" and "Oracle_Stop henv h r = (h', r')"
  shows "runners_inv (R(ORACLE := None)) h' \<and> others_kept ORACLE h h' \<and> no_active ORACLE h' \<and>
     running r' = None \<and> restarts h' = restarts h"
  using assms stop_running [OF assms(1), where env = henv and a = ORACLE] by (auto simp: Oracle_Stop_def)

interpretation oracle_agent: agent_runner ORACLE running Oracle_EnsureRunningState Oracle_Stop
  by unfold_locales (use Oracle_ensure_law Oracle_stop_law in blast)+

section \<open>Running\<close>


definition failing_env :: request_env where
  "failing_env = (good_env [])\<lparr>env_handler := \<lparr>start_of = \<lambda>_. \<lparr>pipesOk = True, execOk = False, outputEvents = []\<rparr>,
     stop_of = \<lambda>_. \<lparr>endsInTime = True, endStatus = StatusSignaled 15\<rparr>\<rparr>\<rparr>"


section \<open>Configurations\<close>

text \<open>
  What a configure instruction leaves on disk for oracle, the system calls succeeding: when
  every write of the instruction can be decoded, each id's file is what the operations make of it,
  a write putting the rendered JSON, with the interval added, over the content the file had.
\<close>

lemma Oracle_ProcessConfig_files:
  assumes "env_faults env = no_faults" and "config_ready (basePath r @ [''config.d'']) fs"
    and "list_all plain_id (conf_operations configure)"
    and "list_all (renders (Oracle_encode (env_libs env))) (conf_operations configure)"
    and "Oracle_ProcessConfig env configure r fs = (result, fs')"
  shows "file_config (basePath r @ [''config.d'']) ''.json'' fs' =
      fold (config_step (json_render (Oracle_encode (env_libs env))) overwrite_content)
        (conf_operations configure) (file_config (basePath r @ [''config.d'']) ''.json'' fs) \<and>
    (result = Ret None \<or> result = Ret (Some NoAppliedConfigsError)) \<and>
    (result = Ret (Some NoAppliedConfigsError) \<longrightarrow> \<not> (\<exists>op \<in> set (conf_operations configure). is_write op))"
  using json_ProcessConfig_files [OF assms(1) assms(2) [folded configsDirSubpath_def] assms(3,4)] assms(5)
  by (simp add: Oracle_ProcessConfig_def configsDirSubpath_def)

definition json_op_of :: "OpType \<Rightarrow> string \<Rightarrow> ConfigurationOp" where
  "json_op_of ty content =
     \<lparr>op_id = ''a'', op_type = ty, op_content = content, op_extraLabels = [], op_interval = 60\<rparr>"

lemma Unmarshal_empty_object: "Unmarshal_map ''{}'' = Inr (Some [])"
  by code_simp

lemma Unmarshal_null: "Unmarshal_map ''null'' = Inr None"
  by code_simp

lemma Unmarshal_broken: "isl (Unmarshal_map ''{'')"
  by code_simp

lemma Oracle_encode_empty:
  "Oracle_encode plain_libs (json_op_of ty content) [] = ''{'' @ quote_json ''interval'' @ '':60}'' @ newline"
  by (simp add: Oracle_encode_def json_op_of_def Encode_map_def newline_def show_int_def) code_simp

lemma ready_ORACLE: "config_ready (basePath (idle_runner ''ORACLE'') @ [''config.d'']) (data_tree ''ORACLE'')"
  using data_tree_ready [of "''ORACLE''"] by (simp add: idle_runner_def plain_name_def)

lemma Oracle_ProcessConfig_files_witness:
  "\<exists>fs'. Oracle_ProcessConfig (good_env [])
      \<lparr>conf_agentType = ORACLE, conf_operations = [json_op_of CREATE ''{}'']\<rparr> (idle_runner ''ORACLE'')
      (data_tree ''ORACLE'') = (Ret None, fs') \<and>
     file_config (basePath (idle_runner ''ORACLE'') @ [''config.d'']) ''.json'' fs' ''a'' =
       Some (''{'' @ quote_json ''interval'' @ '':60}'' @ newline)"
proof -
  let ?conf = "\<lparr>conf_agentType = ORACLE, conf_operations = [json_op_of CREATE ''{}'']\<rparr>"
  let ?enc = "Oracle_encode (env_libs (good_env []))"
  obtain result fs' where r: "Oracle_ProcessConfig (good_env []) ?conf (idle_runner ''ORACLE'')
      (data_tree ''ORACLE'') = (result, fs')" by fastforce
  have f: "env_faults (good_env []) = no_faults" by (simp add: good_env_def)
  have ids: "list_all plain_id (conf_operations ?conf)" by (simp add: plain_id_def json_op_of_def)
  have js: "json_render ?enc (json_op_of CREATE ''{}'') = Some (''{'' @ quote_json ''interval'' @ '':60}'' @ newline)"
    using Oracle_encode_empty [of CREATE "''{}''"] Unmarshal_empty_object
    by (simp add: json_render_def json_op_of_def good_env_def)
  then have ren: "list_all (renders ?enc) (conf_operations ?conf)" by (simp add: renders_def)
  have w: "is_write (json_op_of CREATE ''{}'')" by (simp add: is_write_def json_op_of_def)
  have none: "file_config (basePath (idle_runner ''ORACLE'') @ [''config.d'']) ''.json'' (data_tree ''ORACLE'') i = None" for i
    by (simp add: file_config_def file_content_def lookup_data_tree idle_runner_def)
  have i: "op_id (json_op_of CREATE ''{}'') = ''a''" by (simp add: json_op_of_def)
  show ?thesis
    using Oracle_ProcessConfig_files [OF f ready_ORACLE ids ren r] r js w none i
    by (auto simp: config_step_write overwrite_content_def overwrite_def)
qed

text \<open>
  C15 The first write of an instruction whose content is not a JSON object ends it: the files are
  those of the operations before it, the operations after it have no effect, and the instruction
  fails, or, when the content is a JSON null, the Envoy panics.
\<close>

theorem Oracle_ProcessConfig_bad_content:
  assumes "env_faults env = no_faults" and "config_ready (basePath r @ [''config.d'']) fs"
    and "conf_operations configure = before @ op # after"
    and "list_all plain_id (conf_operations configure)"
    and "list_all (renders (Oracle_encode (env_libs env))) before"
    and "is_write op" and "\<not> (\<exists>m. Unmarshal_map (op_content op) = Inr (Some m))"
    and "Oracle_ProcessConfig env configure r fs = (result, fs')"
  shows "file_config (basePath r @ [''config.d'']) ''.json'' fs' =
      fold (config_step (json_render (Oracle_encode (env_libs env))) overwrite_content) before
        (file_config (basePath r @ [''config.d'']) ''.json'' fs) \<and>
    (result = Panics \<longleftrightarrow> Unmarshal_map (op_content op) = Inr None) \<and>
    (result \<noteq> Panics \<longrightarrow>
       (\<exists>err. Unmarshal_map (op_content op) = Inl err \<and>
          result = Ret (Some (Wrapped ''failed to process oracle agent config file'' err))))"
proof -
  have none: "json_render (Oracle_encode (env_libs env)) op = None"
    using assms(7) by (auto simp: json_render_def split: sum.split option.split)
  note s = json_ProcessConfig_stops [OF assms(1) assms(2) [folded configsDirSubpath_def] assms(3,4,5,6) none
      assms(8) [unfolded Oracle_ProcessConfig_def]]
  show ?thesis
    using s assms(7) by (auto simp: configsDirSubpath_def split: sum.splits option.splits)
qed

lemma Oracle_ProcessConfig_bad_content_witness:
  "fst (Oracle_ProcessConfig (good_env [])
      \<lparr>conf_agentType = ORACLE, conf_operations = [json_op_of CREATE ''null'', json_op_of CREATE ''{}'']\<rparr>
      (idle_runner ''ORACLE'') (data_tree ''ORACLE'')) = Panics"
proof -
  let ?conf = "\<lparr>conf_agentType = ORACLE, conf_operations = [json_op_of CREATE ''null'', json_op_of CREATE ''{}'']\<rparr>"
  obtain result fs' where r: "Oracle_ProcessConfig (good_env []) ?conf (idle_runner ''ORACLE'')
      (data_tree ''ORACLE'') = (result, fs')" by fastforce
  have f: "env_faults (good_env []) = no_faults" by (simp add: good_env_def)
  have o: "conf_operations ?conf = [] @ json_op_of CREATE ''null'' # [json_op_of CREATE ''{}'']" by simp
  have ids: "list_all plain_id (conf_operations ?conf)" by (simp add: plain_id_def json_op_of_def)
  have w: "is_write (json_op_of CREATE ''null'')" by (simp add: is_write_def json_op_of_def)
  have c: "Unmarshal_map (op_content (json_op_of CREATE ''null'')) = Inr None"
    using Unmarshal_null by (simp add: json_op_of_def)
  show ?thesis
    using Oracle_ProcessConfig_bad_content [OF f ready_ORACLE o ids _ w _ r] c r by simp
qed

text \<open>A file that is rewritten with a shorter text keeps the end of the old one.\<close>

lemma overwrite_is_new_iff:
  "overwrite_content new (Some old) = new \<longleftrightarrow> length old \<le> length new"
  by (simp add: overwrite_content_def overwrite_def)

end
