(* ===== verification/Packages_Runner.thy ===== *)
theory Packages_Runner
  imports Oracle_Runner
begin

text \<open>
  The packages runner (\<^verbatim>\<open>agents/pkgagent.go\<close>): JSON files with kebab-case keys, an agent that
  is restarted for new configurations, and a test monitor that runs the agent once.
\<close>

section \<open>Operations\<close>

definition packageAgentExeName :: string where "packageAgentExeName = ''salus-packages-agent''"

definition Packages_encode :: "libs \<Rightarrow> ConfigurationOp \<Rightarrow> gmap \<Rightarrow> string" where
  "Packages_encode lb op configMap =
     (let configMap = AList.delete ''type'' configMap;
          configMap = AList.update ''interval''
            (GString (Duration_String (duration_seconds (op_interval op)))) configMap
      in Encode_map (format_float lb) (normalizeKeysToKebabCase lb configMap))"

definition Packages_ProcessConfig ::
  "request_env \<Rightarrow> EnvoyInstructionConfigure \<Rightarrow> AgentRunner \<Rightarrow> fs \<Rightarrow> go_error option flow \<times> fs" where
  "Packages_ProcessConfig env configure r fs =
     json_ProcessConfig ''package'' (Packages_encode (env_libs env)) env configure r fs"

definition Packages_PurgeConfig :: "faults \<Rightarrow> AgentRunner \<Rightarrow> fs \<Rightarrow> go_error option \<times> fs" where
  "Packages_PurgeConfig flt r fs = purgeConfigsDirectory flt (basePath r) fs"

definition Packages_Stop ::
  "handler_env \<Rightarrow> handler_state \<Rightarrow> AgentRunner \<Rightarrow> handler_state \<times> AgentRunner" where
  "Packages_Stop env h r = (Stop env (running r) h, r\<lparr>running := None\<rparr>)"

definition packages_args :: "listener_addresses \<Rightarrow> string list" where
  "packages_args addrs =
     [''--configs'', configsDirSubpath,
      ''--line-protocol-to-socket'', GetListenerAddress addrs LineProtocolListener]"

definition Packages_EnsureRunningState ::
  "request_env \<Rightarrow> fs \<Rightarrow> bool \<Rightarrow> handler_state \<Rightarrow> AgentRunner \<Rightarrow> bool \<times> handler_state \<times> AgentRunner" where
  "Packages_EnsureRunningState env fs applyConfigs h r =
     (if \<not> hasConfigsAndExeReady (env_faults env) fs (basePath r) packageAgentExeName ''.json'' then
        (case Packages_Stop (env_handler env) h r of (h, r) \<Rightarrow> (False, h, r))
      else if IsRunning h (running r) \<and> \<not> applyConfigs then (False, h, r)
      else
        (let (h, r) = (if IsRunning h (running r) then Packages_Stop (env_handler env) h r else (h, r)) in
         case CreateContext PACKAGES (buildRelativeExePath packageAgentExeName) (basePath r)
             (packages_args (env_listeners env)) h of
           (c, h) \<Rightarrow>
             (case StartAgentCommand (env_handler env) c [] h of
                (Some err, h) \<Rightarrow> (False, h, r)
              | (None, h) \<Rightarrow> (False, go_WaitOnAgentCommand c h, r\<lparr>running := Some c\<rparr>))))"

definition Packages_ProcessTestMonitor ::
  "(Cmd \<Rightarrow> duration \<Rightarrow> string result) \<Rightarrow> (string \<Rightarrow> InfluxLines result) \<Rightarrow> AgentRunner \<Rightarrow>
   string \<Rightarrow> string \<Rightarrow> duration \<Rightarrow> TestMonitorResults result" where
  "Packages_ProcessTestMonitor runToCompletion parse r correlationId content timeout =
     (case Unmarshal_map content of
        Inl err \<Rightarrow> Inl err
      | Inr configMap \<Rightarrow>
          (let includeRpm = getBoolFromConfigMap configMap ''include-rpm'' False;
               includeDebian = getBoolFromConfigMap configMap ''include-debian'' False;
               cmd = \<lparr>cmd_path = buildRelativeExePath packageAgentExeName,
                      cmd_args = [''--line-protocol-to-console'',
                        ''--include-rpm'', FormatBool includeRpm,
                        ''--include-debian'', FormatBool includeDebian],
                      cmd_dir = basePath r, cmd_env = [], cmd_process = False, cmd_state = None\<rparr>
           in case runToCompletion cmd timeout of
                Inl err \<Rightarrow> Inl err
              | Inr output \<Rightarrow>
                  (case ParseInfluxLineProtocolMetrics parse (filterLines output (\<lambda>line. HasPrefix line ''> '')) of
                     Inl err \<Rightarrow> Inl err
                   | Inr parsedMetrics \<Rightarrow>
                       Inr \<lparr>res_correlationId = correlationId, res_errors = [], res_metrics = parsedMetrics\<rparr>)))"

section \<open>The runner contract\<close>

lemma Packages_ensure_cases [consumes 3, case_names unready kept failed started]:
  assumes "runners_inv R h" and "R PACKAGES = running r"
    and "Packages_EnsureRunningState env fs b h r = (fatal, h', r')"
  defines "ready \<equiv> hasConfigsAndExeReady (env_faults env) fs (basePath r) packageAgentExeName ''.json''"
  obtains (unready) "\<not> ready" "\<not> fatal" "running r' = None" "runners_inv (R(PACKAGES := None)) h'"
      "no_active PACKAGES h'" "others_kept PACKAGES h h'"
    | (kept) "ready" "IsRunning h (running r)" "\<not> b" "\<not> fatal" "h' = h" "r' = r"
    | (failed) "ready" "\<not> IsRunning h (running r) \<or> b" "\<not> fatal" "runners_inv (R(PACKAGES := running r')) h'"
        "no_active PACKAGES h'" "others_kept PACKAGES h h'"
    | (started) c where "ready" "\<not> IsRunning h (running r) \<or> b" "\<not> fatal" "running r' = Some c"
        "runners_inv (R(PACKAGES \<mapsto> c)) h'" "others_kept PACKAGES h h'" "active h' c" "\<not> active h c"
proof -
  consider "\<not> ready" | "ready" "IsRunning h (running r) \<and> \<not> b" | "ready" "\<not> (IsRunning h (running r) \<and> \<not> b)"
    by blast
  then show ?thesis
  proof cases
    case 1
    then show ?thesis
      using unready assms(2,3) stop_running [OF assms(1), where a = PACKAGES and env = "env_handler env"]
      by (auto simp: Packages_EnsureRunningState_def Packages_Stop_def ready_def)
  next
    case 2
    then show ?thesis using kept assms(3) by (simp add: Packages_EnsureRunningState_def ready_def)
  next
    case 3
    define h0 where "h0 = (if IsRunning h (running r) then Stop (env_handler env) (running r) h else h)"
    define r0 where "r0 = (if IsRunning h (running r) then r\<lparr>running := None\<rparr> else r)"
    define R0 where "R0 = (if IsRunning h (running r) then R(PACKAGES := None) else R)"
    note st = stopped_first [OF assms(1,2) h0_def R0_def]
    obtain c h1 where c: "CreateContext PACKAGES (buildRelativeExePath packageAgentExeName) (basePath r0)
        (packages_args (env_listeners env)) h0 = (c, h1)" by fastforce
    obtain e h2 where s: "StartAgentCommand (env_handler env) c [] h1 = (e, h2)" by fastforce
    have run: "Packages_EnsureRunningState env fs b h r =
        (case e of Some err \<Rightarrow> (False, h2, r0) | None \<Rightarrow> (False, go_WaitOnAgentCommand c h2, r0\<lparr>running := Some c\<rparr>))"
      using 3 c s
      by (auto simp: Packages_EnsureRunningState_def Packages_Stop_def h0_def r0_def ready_def split: option.splits)
    have l: "launching PACKAGES R0 h0 h1 c" by (rule launching_create [OF st(1,2) c])
    have "agent_of h0 c = None"
      using CreateContext_spec(3) [OF _ c] st(1) by (simp add: runners_inv_def agent_of_def)
    then have new: "\<not> active h c" using st(4) active_agent_of [of h c] by auto
    show ?thesis
    proof (cases e)
      case None
      have "R0(PACKAGES \<mapsto> c) = R(PACKAGES \<mapsto> c)" by (simp add: R0_def)
      then show ?thesis
        using started [of c] 3 launching_started [OF l] s None run assms(3) st(3) new
        by (auto intro: others_kept_trans)
    next
      case (Some err)
      have R0: "R0 = R(PACKAGES := running r0)" using assms(2) by (auto simp: R0_def r0_def)
      note fl = launching_start_failed [OF l, of "env_handler env" _ err h2]
      have o: "\<not> fatal" "h' = h2" "r' = r0" using run assms(3) Some by simp_all
      show ?thesis
      proof (rule failed)
        show "\<not> IsRunning h (running r) \<or> b" using 3 by blast
        show "others_kept PACKAGES h h'" using fl s Some o others_kept_trans [OF st(3)] by blast
        show "runners_inv (R(PACKAGES := running r')) h'" using fl s Some o unfolding R0 by blast
      qed (use fl s Some o 3 in blast)+
    qed
  qed
qed

lemma Packages_ensure_law:
  assumes "runners_inv R h" and "R PACKAGES = running r"
    and "Packages_EnsureRunningState env fs b h r = (fatal, h', r')"
  shows "runners_inv (R(PACKAGES := running r')) h' \<and> others_kept PACKAGES h h'"
  using assms assms(1)
  by (cases rule: Packages_ensure_cases) (simp_all add: fun_upd_idem [where f = R and x = PACKAGES, OF assms(2)])

lemma Packages_stop_law:
  assumes "runners_inv R h" and "R PACKAGES = running r" and "Packages_Stop henv h r = (h', r')"
  shows "runners_inv (R(PACKAGES := None)) h' \<and> others_kept PACKAGES h h' \<and> no_active PACKAGES h' \<and>
     running r' = None \<and> restarts h' = restarts h"
  using assms stop_running [OF assms(1), where env = henv and a = PACKAGES] by (auto simp: Packages_Stop_def)

interpretation packages: agent_runner PACKAGES running Packages_EnsureRunningState Packages_Stop
  by unfold_locales (use Packages_ensure_law Packages_stop_law in blast)+

section \<open>Running\<close>

text \<open>
  \<^verbatim>\<open>EnsureRunningState\<close> of packages: without any configuration file nothing is kept alive
  and the runner forgets its process; a running agent with nothing new to apply is left alone;
  otherwise a process that ran is no longer kept alive, and at most one new one is; the Envoy goes
  on in every case.
\<close>

lemma Packages_EnsureRunningState_contract:
  assumes "runners_inv R h" and "R PACKAGES = running r"
    and "config_dir (basePath r @ [''config.d'']) fs"
    and "Packages_EnsureRunningState env fs applyConfigs h r = (fatal, h', r')"
  shows "\<not> fatal \<and>
    ((\<forall>i. file_config (basePath r @ [''config.d'']) ''.json'' fs i = None) \<longrightarrow>
       running r' = None \<and> (\<forall>c. active h' c \<longrightarrow> agent_of h' c \<noteq> Some PACKAGES)) \<and>
    (hasConfigsAndExeReady (env_faults env) fs (basePath r) ''salus-packages-agent'' ''.json'' \<longrightarrow>
       (if IsRunning h (running r) \<and> \<not> applyConfigs then h' = h \<and> r' = r
        else (\<forall>c. active h' c \<longrightarrow> agent_of h' c = Some PACKAGES \<longrightarrow>
                running r' = Some c \<and> \<not> active h c)))"
proof -
  have names: "''salus-packages-agent'' = packageAgentExeName" "''config.d'' = configsDirSubpath"
    by (simp_all add: packageAgentExeName_def configsDirSubpath_def)
  let ?ready = "hasConfigsAndExeReady (env_faults env) fs (basePath r) packageAgentExeName ''.json''"
  have unready: "\<not> ?ready" if "\<forall>i. file_config (basePath r @ [configsDirSubpath]) ''.json'' fs i = None"
    using ready_has_config [OF assms(3) [unfolded names], of "''.json''" "env_faults env" packageAgentExeName] that
    by auto
  have new: "\<forall>c. active h' c \<longrightarrow> agent_of h' c = Some PACKAGES \<longrightarrow> running r' = Some c \<and> \<not> active h c"
    if "?ready" "\<not> (IsRunning h (running r) \<and> \<not> applyConfigs)"
    using assms(1,2,4)
  proof (cases rule: Packages_ensure_cases)
    case failed
    then show ?thesis unfolding no_active_def by blast
  next
    case (started c)
    have "d = c" if "active h' d" "agent_of h' d = Some PACKAGES" for d
      using started(5) that unfolding runners_inv_def slots_ok_def by (metis fun_upd_same option.inject)
    with started(4,8) show ?thesis by blast
  qed (use that in blast)+
  have unkept: "running r' = None \<and> no_active PACKAGES h'" if "\<not> ?ready"
    using assms(1,2,4) by (cases rule: Packages_ensure_cases) (use that in auto)
  have kept: "h' = h \<and> r' = r" if "?ready" "IsRunning h (running r) \<and> \<not> applyConfigs"
    using assms(4) that by (simp add: Packages_EnsureRunningState_def)
  have "\<not> fatal" using assms(1,2,4) by (cases rule: Packages_ensure_cases) auto
  then show ?thesis
    unfolding names using unready new unkept kept unfolding no_active_def by presburger
qed

lemma data_tree_made:
  assumes "plain_name a"
  obtains fs' where "config_dir ([''data'', ''agents'', a] @ [''config.d'']) fs'"
    and "file_config ([''data'', ''agents'', a] @ [''config.d'']) ext fs' = Map.empty"
proof -
  have r: "config_ready ([''data'', ''agents'', a] @ [configsDirSubpath]) (data_tree a)"
    using data_tree_ready [OF assms] by (simp add: configsDirSubpath_def)
  have none: "file_config ([''data'', ''agents'', a] @ [configsDirSubpath]) ext (data_tree a) = Map.empty"
    by (simp add: file_config_def file_content_def lookup_data_tree fun_eq_iff)
  show ?thesis
    by (rule ensureConfigsDir_ready [OF r, where ext = ext])
       (use that none in \<open>simp add: configsDirSubpath_def\<close>)
qed

lemma Packages_EnsureRunningState_contract_witness:
  "\<exists>fs h' r'. Packages_EnsureRunningState (good_env []) fs True initial_handler (idle_runner ''PACKAGES'') =
      (False, h', r') \<and> running r' = None"
proof -
  obtain fs where fs: "config_dir ([''data'', ''agents'', ''PACKAGES''] @ [''config.d'']) fs"
    and none: "file_config ([''data'', ''agents'', ''PACKAGES''] @ [''config.d'']) ''.json'' fs = Map.empty"
    by (rule data_tree_made [of "''PACKAGES''"]) (simp_all add: plain_name_def)
  have b: "basePath (idle_runner ''PACKAGES'') = [''data'', ''agents'', ''PACKAGES'']"
    and r: "(None :: nat option) = running (idle_runner ''PACKAGES'')"
    by (simp_all add: idle_runner_def)
  obtain fatal h' r' where e: "Packages_EnsureRunningState (good_env []) fs True initial_handler
      (idle_runner ''PACKAGES'') = (fatal, h', r')"
    using prod_cases3 by blast
  show ?thesis
    using Packages_EnsureRunningState_contract [OF runners_inv_initial r fs [folded b] e] none b e by auto
qed

section \<open>Configurations\<close>

text \<open>
  What a configure instruction leaves on disk for packages, the system calls succeeding: when
  every write can be decoded, each id's file is what the operations make of it, a write putting the
  rendered JSON over the content the file had; the rendered JSON has no type, has the interval as
  a duration, and its keys are in kebab case.
\<close>

lemma Packages_ProcessConfig_files:
  assumes "env_faults env = no_faults" and "config_ready (basePath r @ [''config.d'']) fs"
    and "list_all plain_id (conf_operations configure)"
    and "list_all (renders (Packages_encode (env_libs env))) (conf_operations configure)"
    and "Packages_ProcessConfig env configure r fs = (result, fs')"
  shows "file_config (basePath r @ [''config.d'']) ''.json'' fs' =
      fold (config_step (json_render (Packages_encode (env_libs env))) overwrite_content)
        (conf_operations configure) (file_config (basePath r @ [''config.d'']) ''.json'' fs) \<and>
    (result = Ret None \<or> result = Ret (Some NoAppliedConfigsError)) \<and>
    (result = Ret (Some NoAppliedConfigsError) \<longrightarrow> \<not> (\<exists>op \<in> set (conf_operations configure). is_write op))"
  using json_ProcessConfig_files [OF assms(1) assms(2) [folded configsDirSubpath_def] assms(3,4)] assms(5)
  by (simp add: Packages_ProcessConfig_def configsDirSubpath_def)

lemma Packages_ProcessConfig_files_witness:
  "\<exists>fs'. Packages_ProcessConfig (good_env [])
      \<lparr>conf_agentType = PACKAGES, conf_operations = [json_op_of CREATE ''{}'']\<rparr> (idle_runner ''PACKAGES'')
      (data_tree ''PACKAGES'') = (Ret None, fs') \<and>
     file_config (basePath (idle_runner ''PACKAGES'') @ [''config.d'']) ''.json'' fs' ''a'' =
       Some (''{'' @ quote_json ''interval'' @ '':'' @ quote_json ''1m0s'' @ ''}'' @ newline)"
proof -
  let ?conf = "\<lparr>conf_agentType = PACKAGES, conf_operations = [json_op_of CREATE ''{}'']\<rparr>"
  let ?enc = "Packages_encode (env_libs (good_env []))"
  obtain result fs' where r: "Packages_ProcessConfig (good_env []) ?conf (idle_runner ''PACKAGES'')
      (data_tree ''PACKAGES'') = (result, fs')" by fastforce
  have ready: "config_ready (basePath (idle_runner ''PACKAGES'') @ [''config.d'']) (data_tree ''PACKAGES'')"
    using data_tree_ready [of "''PACKAGES''"] by (simp add: idle_runner_def plain_name_def)
  have f: "env_faults (good_env []) = no_faults" by (simp add: good_env_def)
  have ids: "list_all plain_id (conf_operations ?conf)" by (simp add: plain_id_def json_op_of_def)
  have d: "Duration_String (duration_seconds 60) = ''1m0s''" by code_simp
  have enc: "?enc (json_op_of CREATE ''{}'') [] =
      ''{'' @ quote_json ''interval'' @ '':'' @ quote_json ''1m0s'' @ ''}'' @ newline"
    using d
    by (simp add: Packages_encode_def json_op_of_def good_env_def Encode_map_def newline_def
        normalizeKeysToKebabCase_def plain_libs_def store_all_def)
  have js: "json_render ?enc (json_op_of CREATE ''{}'') =
      Some (''{'' @ quote_json ''interval'' @ '':'' @ quote_json ''1m0s'' @ ''}'' @ newline)"
    using enc Unmarshal_empty_object by (simp add: json_render_def json_op_of_def)
  then have ren: "list_all (renders ?enc) (conf_operations ?conf)" by (simp add: renders_def)
  have w: "is_write (json_op_of CREATE ''{}'')" by (simp add: is_write_def json_op_of_def)
  have none: "file_config (basePath (idle_runner ''PACKAGES'') @ [''config.d'']) ''.json'' (data_tree ''PACKAGES'') i = None" for i
    by (simp add: file_config_def file_content_def lookup_data_tree idle_runner_def)
  have i: "op_id (json_op_of CREATE ''{}'') = ''a''" by (simp add: json_op_of_def)
  show ?thesis
    using Packages_ProcessConfig_files [OF f ready ids ren r] r js w none i
    by (auto simp: config_step_write overwrite_content_def overwrite_def)
qed

section \<open>The test monitor\<close>

text \<open>
  A packages test monitor runs the installed agent once with the flags of the request, and
  its metrics are those parsed from exactly the output lines with the metric prefix, in order; a
  failing run or parse is the error of the call.
\<close>

lemma Packages_ProcessTestMonitor_result:
  assumes "Unmarshal_map content = Inr configMap"
    and "runToCompletion
       \<lparr>cmd_path = ''CURRENT/bin/salus-packages-agent'',
        cmd_args = [''--line-protocol-to-console'',
          ''--include-rpm'', FormatBool (getBoolFromConfigMap configMap ''include-rpm'' False),
          ''--include-debian'', FormatBool (getBoolFromConfigMap configMap ''include-debian'' False)],
        cmd_dir = basePath r, cmd_env = [], cmd_process = False, cmd_state = None\<rparr> timeout = output"
    and "output = Inr (text_lines ls) \<and> list_all plain_line ls \<or> output = Inl err"
  shows "Packages_ProcessTestMonitor runToCompletion parse r correlationId content timeout =
    (case output of
       Inl err \<Rightarrow> Inl err
     | Inr _ \<Rightarrow>
         (case ParseInfluxLineProtocolMetrics parse (text_lines (filter (\<lambda>l. HasPrefix l ''> '') ls)) of
            Inl e \<Rightarrow> Inl e
          | Inr ms \<Rightarrow> Inr \<lparr>res_correlationId = correlationId, res_errors = [], res_metrics = ms\<rparr>))"
proof -
  have exe: "buildRelativeExePath packageAgentExeName = ''CURRENT/bin/salus-packages-agent''"
    by (simp add: buildRelativeExePath_def currentVerLink_def binSubpath_def packageAgentExeName_def)
  show ?thesis
    unfolding Packages_ProcessTestMonitor_def Let_def exe using assms by (auto simp: filterLines_text)
qed

lemma Packages_ProcessTestMonitor_result_witness:
  "\<exists>res. Packages_ProcessTestMonitor (\<lambda>cmd _. Inr (text_lines [''starting'', ''> cpu'', ''done'']))
      (\<lambda>s. if s = ''> cpu'' @ newline then Inr [cpu_line] else Inl (ErrorString ''parse''))
      (idle_runner ''PACKAGES'') ''id'' ''{}'' 0 = Inr res \<and> length (res_metrics res) = 1"
proof -
  have l: "list_all plain_line [''starting'', ''> cpu'', ''done'']"
    by (simp add: plain_line_def dropCR_def maxTokenSize_def)
  show ?thesis
    using Packages_ProcessTestMonitor_result
      [of "''{}''" "Some []" "\<lambda>cmd _. Inr (text_lines [''starting'', ''> cpu'', ''done''])" "idle_runner ''PACKAGES''" 0
        _ "[''starting'', ''> cpu'', ''done'']"] Unmarshal_empty_object l
    by (simp add: HasPrefix_def text_lines_def ParseInfluxLineProtocolMetrics_def)
qed

end
