(* ===== verification/Agents_Router.thy ===== *)
theory Agents_Router
  imports Packages_Runner
begin

text \<open>
  The router of agent operations (\<^verbatim>\<open>agents/agents_router.go\<close>, \<^verbatim>\<open>agents/registry.go\<close>): it
  installs agents, hands instructions to the runner of their type, and on a detach stops every
  agent and purges the configurations. Its state is the whole world the agents live in.
\<close>

section \<open>State\<close>

text \<open>\<open>wdown\<close>: the Envoy's process has ended, by a panic or by \<^verbatim>\<open>log.Fatal\<close>.\<close>

record world =
  DataPath :: path
  wfs :: fs
  whandler :: handler_state
  wtelegraf :: TelegrafRunner
  wfilebeat :: AgentRunner
  woracle :: AgentRunner
  wpackages :: AgentRunner
  wdown :: bool

record router_env =
  renv :: request_env
  http_downloads :: "string \<Rightarrow> download"
  range_agents :: "AgentType list"
  rload :: telegraf_load_env

text \<open>The runners that register themselves.\<close>

definition registered :: "AgentType \<Rightarrow> bool" where
  "registered a = (a \<in> {TELEGRAF, FILEBEAT, ORACLE, PACKAGES})"

definition SupportedAgents :: "AgentType list" where
  "SupportedAgents = [TELEGRAF, FILEBEAT, ORACLE, PACKAGES]"

definition run_of :: "world \<Rightarrow> run_map" where
  "run_of w a =
     (case a of
        TELEGRAF \<Rightarrow> running (wtelegraf w)
      | FILEBEAT \<Rightarrow> running (wfilebeat w)
      | ORACLE \<Rightarrow> running (woracle w)
      | PACKAGES \<Rightarrow> running (wpackages w)
      | OtherAgent _ \<Rightarrow> None)"

section \<open>The runners behind the map\<close>

definition runner_EnsureRunningState :: "request_env \<Rightarrow> AgentType \<Rightarrow> bool \<Rightarrow> world \<Rightarrow> world" where
  "runner_EnsureRunningState env a applyConfigs w =
     (case a of
        TELEGRAF \<Rightarrow>
          (case Telegraf_EnsureRunningState env (wfs w) applyConfigs (whandler w) (wtelegraf w) of
             (fatal, h, r) \<Rightarrow> w\<lparr>whandler := h, wtelegraf := r, wdown := fatal \<or> wdown w\<rparr>)
      | FILEBEAT \<Rightarrow>
          (case Filebeat_EnsureRunningState env (wfs w) applyConfigs (whandler w) (wfilebeat w) of
             (fatal, h, r) \<Rightarrow> w\<lparr>whandler := h, wfilebeat := r, wdown := fatal \<or> wdown w\<rparr>)
      | ORACLE \<Rightarrow>
          (case Oracle_EnsureRunningState env (wfs w) applyConfigs (whandler w) (woracle w) of
             (fatal, h, r) \<Rightarrow> w\<lparr>whandler := h, woracle := r, wdown := fatal \<or> wdown w\<rparr>)
      | PACKAGES \<Rightarrow>
          (case Packages_EnsureRunningState env (wfs w) applyConfigs (whandler w) (wpackages w) of
             (fatal, h, r) \<Rightarrow> w\<lparr>whandler := h, wpackages := r, wdown := fatal \<or> wdown w\<rparr>)
      | OtherAgent _ \<Rightarrow> w)"

definition runner_Stop :: "handler_env \<Rightarrow> AgentType \<Rightarrow> world \<Rightarrow> world" where
  "runner_Stop henv a w =
     (case a of
        TELEGRAF \<Rightarrow> (case Telegraf_Stop henv (whandler w) (wtelegraf w) of (h, r) \<Rightarrow> w\<lparr>whandler := h, wtelegraf := r\<rparr>)
      | FILEBEAT \<Rightarrow> (case Filebeat_Stop henv (whandler w) (wfilebeat w) of (h, r) \<Rightarrow> w\<lparr>whandler := h, wfilebeat := r\<rparr>)
      | ORACLE \<Rightarrow> (case Oracle_Stop henv (whandler w) (woracle w) of (h, r) \<Rightarrow> w\<lparr>whandler := h, woracle := r\<rparr>)
      | PACKAGES \<Rightarrow> (case Packages_Stop henv (whandler w) (wpackages w) of (h, r) \<Rightarrow> w\<lparr>whandler := h, wpackages := r\<rparr>)
      | OtherAgent _ \<Rightarrow> w)"

definition runner_PurgeConfig :: "faults \<Rightarrow> AgentType \<Rightarrow> world \<Rightarrow> go_error option \<times> world" where
  "runner_PurgeConfig flt a w =
     (case a of
        TELEGRAF \<Rightarrow> (None, w\<lparr>wtelegraf := Telegraf_PurgeConfig (wtelegraf w)\<rparr>)
      | FILEBEAT \<Rightarrow> (case Filebeat_PurgeConfig flt (wfilebeat w) (wfs w) of (err, fs) \<Rightarrow> (err, w\<lparr>wfs := fs\<rparr>))
      | ORACLE \<Rightarrow> (case Oracle_PurgeConfig flt (woracle w) (wfs w) of (err, fs) \<Rightarrow> (err, w\<lparr>wfs := fs\<rparr>))
      | PACKAGES \<Rightarrow> (case Packages_PurgeConfig flt (wpackages w) (wfs w) of (err, fs) \<Rightarrow> (err, w\<lparr>wfs := fs\<rparr>))
      | OtherAgent _ \<Rightarrow> (None, w))"

definition runner_ProcessConfig ::
  "request_env \<Rightarrow> AgentType \<Rightarrow> EnvoyInstructionConfigure \<Rightarrow> world \<Rightarrow> go_error option flow \<times> world" where
  "runner_ProcessConfig env a configure w =
     (case a of
        TELEGRAF \<Rightarrow>
          (case Telegraf_ProcessConfig (env_libs env) configure (wtelegraf w) of
             (err, r) \<Rightarrow> (Ret err, w\<lparr>wtelegraf := r\<rparr>))
      | FILEBEAT \<Rightarrow>
          (case Filebeat_ProcessConfig env configure (wfilebeat w) (wfs w) of
             (err, fs) \<Rightarrow> (Ret err, w\<lparr>wfs := fs\<rparr>))
      | ORACLE \<Rightarrow>
          (case Oracle_ProcessConfig env configure (woracle w) (wfs w) of (res, fs) \<Rightarrow> (res, w\<lparr>wfs := fs\<rparr>))
      | PACKAGES \<Rightarrow>
          (case Packages_ProcessConfig env configure (wpackages w) (wfs w) of (res, fs) \<Rightarrow> (res, w\<lparr>wfs := fs\<rparr>))
      | OtherAgent _ \<Rightarrow> (Ret None, w))"

text \<open>No runner's \<^verbatim>\<open>PostInstall\<close> fails.\<close>

definition runner_PostInstall :: "AgentType \<Rightarrow> path \<Rightarrow> go_error option" where
  "runner_PostInstall a agentVersionPath =
     (case a of TELEGRAF \<Rightarrow> Telegraf_PostInstall agentVersionPath | _ \<Rightarrow> None)"

definition runner_Load :: "telegraf_load_env \<Rightarrow> AgentType \<Rightarrow> path \<Rightarrow> world \<Rightarrow> go_error option \<times> world" where
  "runner_Load le a base w =
     (case a of
        TELEGRAF \<Rightarrow> (case Telegraf_Load le base (wtelegraf w) of (err, r) \<Rightarrow> (err, w\<lparr>wtelegraf := r\<rparr>))
      | FILEBEAT \<Rightarrow> (None, w\<lparr>wfilebeat := (wfilebeat w)\<lparr>basePath := base\<rparr>\<rparr>)
      | ORACLE \<Rightarrow> (None, w\<lparr>woracle := (woracle w)\<lparr>basePath := base\<rparr>\<rparr>)
      | PACKAGES \<Rightarrow> (None, w\<lparr>wpackages := (wpackages w)\<lparr>basePath := base\<rparr>\<rparr>)
      | OtherAgent _ \<Rightarrow> (None, w))"

section \<open>The router's operations\<close>

definition agentBasePath :: "world \<Rightarrow> AgentType \<Rightarrow> path" where
  "agentBasePath w a = Join (Join (DataPath w) agentsSubpath) (AgentType_String a)"

definition stopAll :: "handler_env \<Rightarrow> AgentType list \<Rightarrow> world \<Rightarrow> world" where
  "stopAll henv order w = fold (runner_Stop henv) order w"

fun PurgeAgentConfigs :: "faults \<Rightarrow> AgentType list \<Rightarrow> world \<Rightarrow> go_error option \<times> world" where
  "PurgeAgentConfigs flt [] w = (None, w)"
| "PurgeAgentConfigs flt (a # as) w =
     (case runner_PurgeConfig flt a w of
        (Some err, w) \<Rightarrow> (Some err, w)
      | (None, w) \<Rightarrow> PurgeAgentConfigs flt as w)"

text \<open>How \<^verbatim>\<open>%T\<close> prints a registered runner.\<close>

fun runner_type_name :: "AgentType \<Rightarrow> string" where
  "runner_type_name TELEGRAF = ''*agents.TelegrafRunner''"
| "runner_type_name FILEBEAT = ''*agents.FilebeatRunner''"
| "runner_type_name ORACLE = ''*agents.OracleRunner''"
| "runner_type_name PACKAGES = ''*agents.PackagesAgentRunner''"
| "runner_type_name (OtherAgent n) = ''<nil>''"

text \<open>The loop of \<^verbatim>\<open>NewAgentsRunner\<close>; the router is not created when a runner cannot load or
  the configurations cannot be purged.\<close>

fun load_runners :: "router_env \<Rightarrow> AgentType list \<Rightarrow> world \<Rightarrow> go_error option \<times> world" where
  "load_runners re [] w = (None, w)"
| "load_runners re (a # as) w =
     (case runner_Load (rload re) a (agentBasePath w a) w of
        (Some err, w) \<Rightarrow> (Some (Wrapped (''loading agent runner: '' @ runner_type_name a) err), w)
      | (None, w) \<Rightarrow> load_runners re as w)"

definition NewAgentsRunner :: "router_env \<Rightarrow> world \<Rightarrow> go_error option \<times> world" where
  "NewAgentsRunner re w =
     (case load_runners re (range_agents re) w of
        (Some err, w) \<Rightarrow> (Some err, w)
      | (None, w) \<Rightarrow> PurgeAgentConfigs (env_faults (renv re)) (range_agents re) w)"

definition ensureCurrentSymlink ::
  "request_env \<Rightarrow> AgentType \<Rightarrow> path \<Rightarrow> string \<Rightarrow> world \<Rightarrow> go_error option \<times> world" where
  "ensureCurrentSymlink env a base agentVersion w =
     (let flt = env_faults env;
          currentSymlinkPath = Join base currentVerLink;
          relink = (\<lambda>w.
            let w = runner_Stop (env_handler env) a w in
            case os_Symlink flt (wfs w) agentVersion currentSymlinkPath of
              (Some err, fs) \<Rightarrow> (Some (Wrapped ''failed to create current version symlink'' err), w\<lparr>wfs := fs\<rparr>)
            | (None, fs) \<Rightarrow> (None, w\<lparr>wfs := fs\<rparr>))
      in case os_Lstat flt (wfs w) currentSymlinkPath of
           Inl err \<Rightarrow>
             if \<not> os_IsNotExist err then (Some (Wrapped ''failed to access current link'' err), w)
             else relink w
         | Inr _ \<Rightarrow>
             (case os_Readlink flt (wfs w) currentSymlinkPath of
                Inl err \<Rightarrow> (Some (Wrapped ''failed to read current link'' err), w)
              | Inr existingTarget \<Rightarrow>
                  if existingTarget = agentVersion then (None, w)
                  else
                    (case os_Remove flt (wfs w) currentSymlinkPath of
                       (Some err, fs) \<Rightarrow>
                         (Some (Wrapped ''failed to delete current version symlink'' err), w\<lparr>wfs := fs\<rparr>)
                     | (None, fs) \<Rightarrow> relink (w\<lparr>wfs := fs\<rparr>))))"

text \<open>The part of \<^verbatim>\<open>ProcessInstall\<close> that puts a version in place; whether to go on with it.\<close>

definition install_version ::
  "router_env \<Rightarrow> EnvoyInstructionInstall \<Rightarrow> path \<Rightarrow> world \<Rightarrow> bool \<times> world" where
  "install_version re install outputPath w =
     (let flt = env_faults (renv re) in
      if fileExists flt (wfs w) outputPath then (True, w)
      else
        (case os_MkdirAll flt (wfs w) outputPath of
           (Some err, fs) \<Rightarrow> (False, w\<lparr>wfs := fs\<rparr>)
         | (None, fs) \<Rightarrow>
             (case downloadExtractTarGz flt (http_downloads re) outputPath (inst_url install) (inst_exe install) fs of
                (Panics, fs) \<Rightarrow> (False, w\<lparr>wfs := fs, wdown := True\<rparr>)
              | (Ret (Some err), fs) \<Rightarrow> (False, w\<lparr>wfs := snd (os_RemoveAll flt fs outputPath)\<rparr>)
              | (Ret None, fs) \<Rightarrow>
                  (runner_PostInstall (inst_agentType install) outputPath = None, w\<lparr>wfs := fs\<rparr>))))"

definition ProcessInstall :: "router_env \<Rightarrow> EnvoyInstructionInstall \<Rightarrow> world \<Rightarrow> world" where
  "ProcessInstall re install w =
     (let a = inst_agentType install in
      if \<not> registered a then w
      else
        (let base = agentBasePath w a;
             outputPath = Join base (inst_version install);
             (go_on, w) = install_version re install outputPath w
         in if \<not> go_on then w
            else
              (case ensureCurrentSymlink (renv re) a base (inst_version install) w of
                 (Some err, w) \<Rightarrow> w
               | (None, w) \<Rightarrow> runner_EnsureRunningState (renv re) a False w)))"

definition ProcessConfigure :: "request_env \<Rightarrow> EnvoyInstructionConfigure \<Rightarrow> world \<Rightarrow> world" where
  "ProcessConfigure env configure w =
     (let a = conf_agentType configure in
      if \<not> registered a then w
      else
        (case runner_ProcessConfig env a configure w of
           (Panics, w) \<Rightarrow> w\<lparr>wdown := True\<rparr>
         | (Ret (Some err), w) \<Rightarrow> (if IsNoAppliedConfigs (Some err) then w else w)
         | (Ret None, w) \<Rightarrow> runner_EnsureRunningState env a True w))"

text \<open>The two cases of the loop in \<^verbatim>\<open>Start\<close>.\<close>

definition Start_done :: "router_env \<Rightarrow> world \<Rightarrow> world" where
  "Start_done re w = stopAll (env_handler (renv re)) (range_agents re) w"

definition Start_detach :: "router_env \<Rightarrow> world \<Rightarrow> world" where
  "Start_detach re w =
     (let w = stopAll (env_handler (renv re)) (range_agents re) w in
      snd (PurgeAgentConfigs (env_faults (renv re)) (range_agents re) w))"

record monitor_env =
  mon_test :: test_env
  mon_libs :: libs
  mon_runToCompletion :: "Cmd \<Rightarrow> duration \<Rightarrow> string result"

definition runner_ProcessTestMonitor ::
  "monitor_env \<Rightarrow> AgentType \<Rightarrow> string \<Rightarrow> string \<Rightarrow> duration \<Rightarrow> world \<Rightarrow> TestMonitorResults result" where
  "runner_ProcessTestMonitor me a correlationId content timeout w =
     (case a of
        TELEGRAF \<Rightarrow> Telegraf_ProcessTestMonitor (mon_test me) (mon_libs me) (wtelegraf w) correlationId content timeout
      | FILEBEAT \<Rightarrow> Filebeat_ProcessTestMonitor
      | ORACLE \<Rightarrow> Oracle_ProcessTestMonitor
      | PACKAGES \<Rightarrow>
          Packages_ProcessTestMonitor (mon_runToCompletion me) (test_parse (mon_test me)) (wpackages w)
            correlationId content timeout
      | OtherAgent _ \<Rightarrow> Inl (ErrorString []))"

definition ProcessTestMonitor ::
  "monitor_env \<Rightarrow> EnvoyInstructionTestMonitor \<Rightarrow> world \<Rightarrow> TestMonitorResults option" where
  "ProcessTestMonitor me testMonitor w =
     (let a = tm_agentType testMonitor in
      if \<not> registered a then None
      else
        (case runner_ProcessTestMonitor me a (tm_correlationId testMonitor) (tm_content testMonitor)
            (duration_seconds (tm_timeout testMonitor)) w of
           Inl err \<Rightarrow>
             Some \<lparr>res_correlationId = tm_correlationId testMonitor, res_errors = [Error err], res_metrics = []\<rparr>
         | Inr results \<Rightarrow> Some results))"

section \<open>The invariant of the world\<close>

definition world_inv :: "world \<Rightarrow> bool" where
  "world_inv w \<longleftrightarrow> runners_inv (run_of w) (whandler w)"

lemma run_of_simps [simp]:
  "run_of w TELEGRAF = running (wtelegraf w)" "run_of w FILEBEAT = running (wfilebeat w)"
  "run_of w ORACLE = running (woracle w)" "run_of w PACKAGES = running (wpackages w)"
  "run_of w (OtherAgent n) = None"
  by (simp_all add: run_of_def)

lemma run_of_upd:
  "run_of (w\<lparr>whandler := h, wtelegraf := t, wdown := d\<rparr>) = (run_of w)(TELEGRAF := running t)"
  "run_of (w\<lparr>whandler := h, wfilebeat := r, wdown := d\<rparr>) = (run_of w)(FILEBEAT := running r)"
  "run_of (w\<lparr>whandler := h, woracle := r, wdown := d\<rparr>) = (run_of w)(ORACLE := running r)"
  "run_of (w\<lparr>whandler := h, wpackages := r, wdown := d\<rparr>) = (run_of w)(PACKAGES := running r)"
  "run_of (w\<lparr>whandler := h, wtelegraf := t\<rparr>) = (run_of w)(TELEGRAF := running t)"
  "run_of (w\<lparr>whandler := h, wfilebeat := r\<rparr>) = (run_of w)(FILEBEAT := running r)"
  "run_of (w\<lparr>whandler := h, woracle := r\<rparr>) = (run_of w)(ORACLE := running r)"
  "run_of (w\<lparr>whandler := h, wpackages := r\<rparr>) = (run_of w)(PACKAGES := running r)"
  by (auto simp: run_of_def fun_eq_iff split: AgentType.splits)

lemma run_of_frame [simp]:
  "run_of (w\<lparr>wfs := fs\<rparr>) = run_of w" "run_of (w\<lparr>wdown := d\<rparr>) = run_of w"
  "run_of (w\<lparr>whandler := h\<rparr>) = run_of w"
  "running t = running (wtelegraf w) \<Longrightarrow> run_of (w\<lparr>wtelegraf := t\<rparr>) = run_of w"
  by (auto simp: run_of_def fun_eq_iff split: AgentType.splits)

text \<open>What one runner's call does to the world.\<close>

lemma ensure_world:
  assumes "world_inv w"
  shows "world_inv (runner_EnsureRunningState env a b w) \<and>
     others_kept a (whandler w) (whandler (runner_EnsureRunningState env a b w)) \<and>
     wfs (runner_EnsureRunningState env a b w) = wfs w"
proof (cases a)
  case TELEGRAF
  obtain f h r where e: "Telegraf_EnsureRunningState env (wfs w) b (whandler w) (wtelegraf w) = (f, h, r)"
    using prod_cases3 by blast
  show ?thesis
    using telegraf.ensure_law [OF assms [unfolded world_inv_def] run_of_simps(1) e] e
    by (simp add: runner_EnsureRunningState_def world_inv_def TELEGRAF run_of_upd)
next
  case FILEBEAT
  obtain f h r where e: "Filebeat_EnsureRunningState env (wfs w) b (whandler w) (wfilebeat w) = (f, h, r)"
    using prod_cases3 by blast
  show ?thesis
    using filebeat.ensure_law [OF assms [unfolded world_inv_def] run_of_simps(2) e] e
    by (simp add: runner_EnsureRunningState_def world_inv_def FILEBEAT run_of_upd)
next
  case ORACLE
  obtain f h r where e: "Oracle_EnsureRunningState env (wfs w) b (whandler w) (woracle w) = (f, h, r)"
    using prod_cases3 by blast
  show ?thesis
    using oracle_agent.ensure_law [OF assms [unfolded world_inv_def] run_of_simps(3) e] e
    by (simp add: runner_EnsureRunningState_def world_inv_def ORACLE run_of_upd)
next
  case PACKAGES
  obtain f h r where e: "Packages_EnsureRunningState env (wfs w) b (whandler w) (wpackages w) = (f, h, r)"
    using prod_cases3 by blast
  show ?thesis
    using packages.ensure_law [OF assms [unfolded world_inv_def] run_of_simps(4) e] e
    by (simp add: runner_EnsureRunningState_def world_inv_def PACKAGES run_of_upd)
next
  case (OtherAgent n)
  then show ?thesis using assms by (simp add: runner_EnsureRunningState_def)
qed

lemma stop_world:
  assumes "world_inv w"
  shows "world_inv (runner_Stop henv a w) \<and>
     others_kept a (whandler w) (whandler (runner_Stop henv a w)) \<and>
     wfs (runner_Stop henv a w) = wfs w \<and> wdown (runner_Stop henv a w) = wdown w \<and>
     (registered a \<longrightarrow> no_active a (whandler (runner_Stop henv a w)))"
proof (cases a)
  case TELEGRAF
  obtain h r where e: "Telegraf_Stop henv (whandler w) (wtelegraf w) = (h, r)" by fastforce
  show ?thesis
    using telegraf.stop_law [OF assms [unfolded world_inv_def] run_of_simps(1) e] e
    by (simp add: runner_Stop_def world_inv_def TELEGRAF run_of_upd)
next
  case FILEBEAT
  obtain h r where e: "Filebeat_Stop henv (whandler w) (wfilebeat w) = (h, r)" by fastforce
  show ?thesis
    using filebeat.stop_law [OF assms [unfolded world_inv_def] run_of_simps(2) e] e
    by (simp add: runner_Stop_def world_inv_def FILEBEAT run_of_upd)
next
  case ORACLE
  obtain h r where e: "Oracle_Stop henv (whandler w) (woracle w) = (h, r)" by fastforce
  show ?thesis
    using oracle_agent.stop_law [OF assms [unfolded world_inv_def] run_of_simps(3) e] e
    by (simp add: runner_Stop_def world_inv_def ORACLE run_of_upd)
next
  case PACKAGES
  obtain h r where e: "Packages_Stop henv (whandler w) (wpackages w) = (h, r)" by fastforce
  show ?thesis
    using packages.stop_law [OF assms [unfolded world_inv_def] run_of_simps(4) e] e
    by (simp add: runner_Stop_def world_inv_def PACKAGES run_of_upd)
next
  case (OtherAgent n)
  then show ?thesis using assms by (simp add: runner_Stop_def registered_def)
qed

lemma world_inv_wfs [simp]: "world_inv (w\<lparr>wfs := fs\<rparr>) = world_inv w"
  by (simp add: world_inv_def)

lemma world_inv_wdown [simp]: "world_inv (w\<lparr>wdown := d\<rparr>) = world_inv w"
  by (simp add: world_inv_def)

text \<open>The other calls leave processes and pointers alone.\<close>

lemma runner_PurgeConfig_frame:
  "whandler (snd (runner_PurgeConfig flt a w)) = whandler w"
  "run_of (snd (runner_PurgeConfig flt a w)) = run_of w"
  by (auto simp: runner_PurgeConfig_def Telegraf_PurgeConfig_def split: AgentType.splits prod.splits)

lemma PurgeAgentConfigs_frame:
  "whandler (snd (PurgeAgentConfigs flt as w)) = whandler w \<and> run_of (snd (PurgeAgentConfigs flt as w)) = run_of w"
proof (induction flt as w rule: PurgeAgentConfigs.induct)
  case (2 flt a as w)
  show ?case
  proof (cases "runner_PurgeConfig flt a w")
    case (Pair err w1)
    with 2 runner_PurgeConfig_frame [of flt a w] show ?thesis by (cases err) auto
  qed
qed simp

lemma runner_ProcessConfig_frame:
  "whandler (snd (runner_ProcessConfig env a conf w)) = whandler w"
  "run_of (snd (runner_ProcessConfig env a conf w)) = run_of w"
  by (auto simp: runner_ProcessConfig_def Telegraf_ProcessConfig_def split: AgentType.splits prod.splits)

lemma ensureCurrentSymlink_world:
  assumes "world_inv w"
  shows "world_inv (snd (ensureCurrentSymlink env a base v w)) \<and>
     others_kept a (whandler w) (whandler (snd (ensureCurrentSymlink env a base v w)))"
  using assms stop_world [of w "env_handler env" a] stop_world [of "w\<lparr>wfs := fs\<rparr>" "env_handler env" a for fs]
  by (auto simp: ensureCurrentSymlink_def Let_def split: sum.splits option.splits prod.splits)

lemma install_version_frame:
  "whandler (snd (install_version re install out w)) = whandler w"
  "run_of (snd (install_version re install out w)) = run_of w"
  by (auto simp: install_version_def Let_def split: prod.splits option.splits flow.splits)

lemma ProcessInstall_world:
  assumes "world_inv w"
  shows "world_inv (ProcessInstall re install w) \<and>
     others_kept (inst_agentType install) (whandler w) (whandler (ProcessInstall re install w))"
proof (cases "registered (inst_agentType install)")
  case True
  let ?a = "inst_agentType install"
  let ?base = "agentBasePath w ?a"
  obtain go_on w1 where i: "install_version re install (Join ?base (inst_version install)) w = (go_on, w1)"
    by fastforce
  have w1: "world_inv w1" "whandler w1 = whandler w"
    using install_version_frame [of re install "Join ?base (inst_version install)" w] i assms
    by (simp_all add: world_inv_def)
  obtain err w2 where l: "ensureCurrentSymlink (renv re) ?a ?base (inst_version install) w1 = (err, w2)"
    by fastforce
  have w2: "world_inv w2" "others_kept ?a (whandler w) (whandler w2)"
    using ensureCurrentSymlink_world [OF w1(1), of "renv re" ?a ?base "inst_version install"] l w1(2) by simp_all
  show ?thesis
    using True i l w1 w2 ensure_world [OF w2(1), of "renv re" ?a False]
      others_kept_trans [OF w2(2), of "whandler (runner_EnsureRunningState (renv re) ?a False w2)"]
    by (auto simp: ProcessInstall_def Let_def split: option.split)
qed (use assms in \<open>simp add: ProcessInstall_def Let_def\<close>)

lemma ProcessConfigure_world:
  assumes "world_inv w"
  shows "world_inv (ProcessConfigure env conf w) \<and>
     others_kept (conf_agentType conf) (whandler w) (whandler (ProcessConfigure env conf w))"
proof (cases "registered (conf_agentType conf)")
  case True
  let ?a = "conf_agentType conf"
  obtain res w1 where r: "runner_ProcessConfig env ?a conf w = (res, w1)" by fastforce
  have w1: "world_inv w1" "whandler w1 = whandler w"
    using runner_ProcessConfig_frame [of env ?a conf w] r assms by (simp_all add: world_inv_def)
  show ?thesis
    using True r w1 ensure_world [OF w1(1), of env ?a True]
    by (auto simp: ProcessConfigure_def Let_def split: flow.split option.split)
qed (use assms in \<open>simp add: ProcessConfigure_def Let_def\<close>)

lemma runner_Stop_handler: "whandler (runner_Stop henv a w) = Stop henv (run_of w a) (whandler w)"
  by (cases a) (simp_all add: runner_Stop_def Telegraf_Stop_def Filebeat_Stop_def Oracle_Stop_def
      Packages_Stop_def Stop_def)

lemma runner_Stop_keeps_inactive:
  assumes "world_inv w" and "no_active a (whandler w)"
  shows "no_active a (whandler (runner_Stop henv b w))"
  using assms Stop_spec(2,3) [of "whandler w" henv "run_of w b"]
  by (auto simp: no_active_def runner_Stop_handler world_inv_def runners_inv_def)

lemma stopAll_world:
  assumes "world_inv w"
  shows "world_inv (stopAll henv order w) \<and> wfs (stopAll henv order w) = wfs w \<and>
     (\<forall>a. registered a \<longrightarrow> a \<in> set order \<or> no_active a (whandler w) \<longrightarrow>
        no_active a (whandler (stopAll henv order w)))"
  using assms
proof (induction order arbitrary: w)
  case (Cons b order)
  note st = stop_world [OF Cons.prems, of henv b]
  have "world_inv (runner_Stop henv b w)" using st by simp
  from Cons.IH [OF this] st runner_Stop_keeps_inactive [OF Cons.prems, of _ henv b]
  show ?case by (auto simp: stopAll_def)
qed (simp add: stopAll_def)

section \<open>The events of the world\<close>

text \<open>
  Instructions from the Ambassador, a detach, the end of the context, and what happens by itself:
  a process ends, the goroutine waiting for it runs to its end, a restart timer fires. Each event
  runs to completion.
\<close>

datatype world_event =
    EvInstall router_env EnvoyInstructionInstall
  | EvConfigure request_env EnvoyInstructionConfigure
  | EvDetach router_env
  | EvDone router_env
  | EvProcessEnds nat wait_status
  | EvWaitReturns nat
  | EvRestart request_env AgentType

definition pop_restart :: "AgentType \<Rightarrow> handler_state \<Rightarrow> handler_state" where
  "pop_restart a h = h\<lparr>restarts := remove1 a (restarts h)\<rparr>"

fun world_next :: "world \<Rightarrow> world_event \<Rightarrow> world option" where
  "world_next w e =
     (if wdown w then None
      else case e of
          EvInstall re install \<Rightarrow> Some (ProcessInstall re install w)
        | EvConfigure env conf \<Rightarrow> Some (ProcessConfigure env conf w)
        | EvDetach re \<Rightarrow> Some (Start_detach re w)
        | EvDone re \<Rightarrow> Some (Start_done re w)
        | EvProcessEnds c st \<Rightarrow>
            (case process_ends c st (whandler w) of None \<Rightarrow> None | Some h \<Rightarrow> Some (w\<lparr>whandler := h\<rparr>))
        | EvWaitReturns c \<Rightarrow>
            (case wait_returns c (whandler w) of None \<Rightarrow> None | Some h \<Rightarrow> Some (w\<lparr>whandler := h\<rparr>))
        | EvRestart env a \<Rightarrow>
            if a \<in> set (restarts (whandler w))
            then Some (runner_EnsureRunningState env a False (w\<lparr>whandler := pop_restart a (whandler w)\<rparr>))
            else None)"

text \<open>The world when the router is created: nothing has been started.\<close>

definition fresh_runner :: AgentRunner where
  "fresh_runner = \<lparr>basePath = [], running = None\<rparr>"

definition fresh_telegraf :: TelegrafRunner where
  "fresh_telegraf =
     \<lparr>basePath = [], running = None, ingestAddress = [], configServerURL = [], configServerToken = [],
      tomlMainConfig = [], tomlConfigs = []\<rparr>"

definition boot_world :: "path \<Rightarrow> fs \<Rightarrow> world" where
  "boot_world dataPath fs =
     \<lparr>DataPath = dataPath, wfs = fs, whandler = initial_handler, wtelegraf = fresh_telegraf,
      wfilebeat = fresh_runner, woracle = fresh_runner, wpackages = fresh_runner, wdown = False\<rparr>"

inductive world_reachable :: "world \<Rightarrow> bool" where
  boot: "NewAgentsRunner re (boot_world dataPath fs) = (None, w) \<Longrightarrow> world_reachable w"
| happens: "world_reachable w \<Longrightarrow> world_next w e = Some w' \<Longrightarrow> world_reachable w'"

definition booted :: "world \<Rightarrow> bool" where
  "booted w \<longleftrightarrow> (\<exists>re dataPath fs. NewAgentsRunner re (boot_world dataPath fs) = (None, w))"

interpretation agents: transition_system booted "\<lambda>w e w'. world_next w e = Some w'" world_reachable
proof
  fix P :: "world \<Rightarrow> bool" and w
  assume "world_reachable w" and I: "\<forall>w. booted w \<longrightarrow> P w"
    and S: "\<forall>w e w'. world_reachable w \<longrightarrow> P w \<longrightarrow> world_next w e = Some w' \<longrightarrow> P w'"
  then show "P w"
  proof (induction rule: world_reachable.induct)
    case (boot re dataPath fs w)
    then show ?case by (auto simp: booted_def)
  next
    case (happens w e w')
    then show ?case by blast
  qed
qed

lemma load_runners_frame:
  "whandler (snd (load_runners re as w)) = whandler w \<and> run_of (snd (load_runners re as w)) = run_of w"
proof (induction re as w rule: load_runners.induct)
  case (2 re a as w)
  have f: "whandler (snd (runner_Load le a b w)) = whandler w" "run_of (snd (runner_Load le a b w)) = run_of w" for le b
    by (auto simp: runner_Load_def Telegraf_Load_def Let_def run_of_def fun_eq_iff
        split: AgentType.splits sum.splits prod.splits)
  show ?case
  proof (cases "runner_Load (rload re) a (agentBasePath w a) w")
    case (Pair err w1)
    with 2 f [of "rload re" "agentBasePath w a"] show ?thesis by (cases err) auto
  qed
qed simp

lemma booted_inv:
  assumes "booted w"
  shows "world_inv w"
proof -
  obtain re dp fs where n: "NewAgentsRunner re (boot_world dp fs) = (None, w)"
    using assms by (auto simp: booted_def)
  obtain err w1 where l: "load_runners re (range_agents re) (boot_world dp fs) = (err, w1)" by fastforce
  have "whandler w1 = initial_handler" "run_of w1 = (\<lambda>_. None)"
    using load_runners_frame [of re "range_agents re" "boot_world dp fs"] l
    by (auto simp: boot_world_def run_of_def fresh_runner_def fresh_telegraf_def fun_eq_iff split: AgentType.splits)
  moreover have "whandler w = whandler w1 \<and> run_of w = run_of w1"
    using n l PurgeAgentConfigs_frame [of "env_faults (renv re)" "range_agents re" w1]
    by (auto simp: NewAgentsRunner_def split: option.splits)
  ultimately show ?thesis using runners_inv_initial by (simp add: world_inv_def)
qed

lemma runners_inv_handler:
  assumes "runners_inv R h" and "handler_inv h'" and "agent_of h' = agent_of h"
    and "\<And>c. active h' c \<Longrightarrow> active h c"
  shows "runners_inv R h'"
  using assms unfolding runners_inv_def slots_ok_def by metis

lemma pop_restart_simps [simp]:
  "handler_inv (pop_restart a h) = handler_inv h" "agent_of (pop_restart a h) = agent_of h"
  "active (pop_restart a h) = active h" "ctxs (pop_restart a h) = ctxs h" "procs (pop_restart a h) = procs h"
  "waiters (pop_restart a h) = waiters h"
  by (auto simp: pop_restart_def handler_inv_def waiter_ok_def agent_of_def active_def fun_eq_iff)

lemma world_next_inv:
  assumes "world_inv w" and "world_next w e = Some w'"
  shows "world_inv w'"
proof -
  have up: "\<not> wdown w" using assms(2) by (auto split: if_splits)
  have inv: "handler_inv (whandler w)" using assms(1) by (simp add: world_inv_def runners_inv_def)
  show ?thesis
  proof (cases e)
    case (EvInstall re i)
    with assms up ProcessInstall_world [OF assms(1), of re i] show ?thesis by simp
  next
    case (EvConfigure env c)
    with assms up ProcessConfigure_world [OF assms(1), of env c] show ?thesis by simp
  next
    case (EvDetach re)
    let ?w = "stopAll (env_handler (renv re)) (range_agents re) w"
    have "world_inv ?w" using stopAll_world [OF assms(1)] by simp
    with EvDetach assms(2) up PurgeAgentConfigs_frame [of "env_faults (renv re)" "range_agents re" ?w]
    show ?thesis by (simp add: Start_detach_def Let_def world_inv_def)
  next
    case (EvDone re)
    with assms(2) up stopAll_world [OF assms(1), of "env_handler (renv re)" "range_agents re"]
    show ?thesis by (simp add: Start_done_def)
  next
    case (EvProcessEnds c st)
    then obtain h where h: "process_ends c st (whandler w) = Some h" and w': "w' = w\<lparr>whandler := h\<rparr>"
      using assms(2) up by (auto split: option.splits)
    note s = process_ends_spec [OF inv h]
    have "runners_inv (run_of w) h"
      using assms(1) s unfolding world_inv_def by - (rule runners_inv_handler [of "run_of w" "whandler w"]; simp)
    then show ?thesis by (simp add: w' world_inv_def)
  next
    case (EvWaitReturns c)
    then obtain h where h: "wait_returns c (whandler w) = Some h" and w': "w' = w\<lparr>whandler := h\<rparr>"
      using assms(2) up by (auto split: option.splits)
    note s = wait_returns_spec [OF inv h]
    have "runners_inv (run_of w) h"
      using assms(1) s unfolding world_inv_def by - (rule runners_inv_handler [of "run_of w" "whandler w"]; simp)
    then show ?thesis by (simp add: w' world_inv_def)
  next
    case (EvRestart env a)
    have "runners_inv (run_of w) (pop_restart a (whandler w))"
      using assms(1) inv unfolding world_inv_def
      by - (rule runners_inv_handler [of "run_of w" "whandler w"]; simp)
    then have "world_inv (w\<lparr>whandler := pop_restart a (whandler w)\<rparr>)"
      by (simp add: world_inv_def)
    from ensure_world [OF this, of env a False] EvRestart assms(2) up
    show ?thesis by (auto split: if_splits)
  qed
qed

lemma world_reachable_inv: "world_reachable w \<Longrightarrow> world_inv w"
  by (erule agents.invariant_rule) (auto intro: booted_inv world_next_inv simp del: world_next.simps)

section \<open>One process per agent\<close>


definition witness_env :: "string \<Rightarrow> router_env" where
  "witness_env line =
     \<lparr>renv = good_env line, http_downloads = (\<lambda>_. TarGz [\<lparr>te_Name = ''./telegraf'', te_content = ''exe'', te_readable = True\<rparr>] True),
      range_agents = [FILEBEAT, ORACLE, PACKAGES, TELEGRAF],
      rload = \<lparr>load_listeners = Map.empty, uuid_token = ''t'', uuid_server = ''s'', listen_port = Inr 9000,
               DefaultMonitoringInterval = duration_seconds 60, MaxFlushInterval = duration_seconds 60\<rparr>\<rparr>"

definition witness_boot :: world where
  "witness_boot = snd (NewAgentsRunner (witness_env []) (boot_world [''data''] []))"

lemma Join_data [simp]: "Join [''data''] agentsSubpath = [''data'', ''agents'']"
  by (simp add: agentsSubpath_def plain_name_def)

lemma Join_agent [simp]:
  "Join [''data'', ''agents''] ''TELEGRAF'' = [''data'', ''agents'', ''TELEGRAF'']"
  "Join [''data'', ''agents''] ''FILEBEAT'' = [''data'', ''agents'', ''FILEBEAT'']"
  "Join [''data'', ''agents''] ''ORACLE'' = [''data'', ''agents'', ''ORACLE'']"
  "Join [''data'', ''agents''] ''PACKAGES'' = [''data'', ''agents'', ''PACKAGES'']"
  by (simp_all add: plain_name_def)

lemma purge_empty: "purgeConfigsDirectory no_faults (c # p) [] = (None, [])"
  if "plain_name c" for c p
  using that
  by (simp add: purgeConfigsDirectory_def os_RemoveAll_def resolve_def lookup_def plain_name_def
      configsDirSubpath_def)

definition loaded_telegraf :: TelegrafRunner where
  "loaded_telegraf =
     \<lparr>basePath = [''data'', ''agents'', ''TELEGRAF''], running = None, ingestAddress = [],
      configServerURL = ''http://127.0.0.1:9000/s'', configServerToken = ''t'',
      tomlMainConfig = createMainConfig [] (duration_seconds 60) (duration_seconds 60), tomlConfigs = []\<rparr>"

lemma witness_boot_ok:
  "NewAgentsRunner (witness_env []) (boot_world [''data''] []) = (None, witness_boot)"
  "witness_boot = \<lparr>DataPath = [''data''], wfs = [], whandler = initial_handler, wtelegraf = loaded_telegraf,
     wfilebeat = idle_runner ''FILEBEAT'', woracle = idle_runner ''ORACLE'', wpackages = idle_runner ''PACKAGES'',
     wdown = False\<rparr>"
proof -
  have p: "''http://127.0.0.1:'' @ show_nat 9000 @ ''/'' @ ''s'' = ''http://127.0.0.1:9000/s''" by code_simp
  have e: "NewAgentsRunner (witness_env []) (boot_world [''data''] []) =
    (None, \<lparr>DataPath = [''data''], wfs = [], whandler = initial_handler, wtelegraf = loaded_telegraf,
     wfilebeat = idle_runner ''FILEBEAT'', woracle = idle_runner ''ORACLE'', wpackages = idle_runner ''PACKAGES'',
     wdown = False\<rparr>)"
    using p
    by (simp add: NewAgentsRunner_def witness_env_def boot_world_def runner_Load_def agentBasePath_def
        Telegraf_Load_def GetListenerAddress_def fresh_telegraf_def fresh_runner_def good_env_def
        runner_PurgeConfig_def Filebeat_PurgeConfig_def Oracle_PurgeConfig_def Packages_PurgeConfig_def
        purge_empty plain_name_def idle_runner_def loaded_telegraf_def Telegraf_PurgeConfig_def Let_def
        del: no_faults)
  show "NewAgentsRunner (witness_env []) (boot_world [''data''] []) = (None, witness_boot)"
    and "witness_boot = \<lparr>DataPath = [''data''], wfs = [], whandler = initial_handler, wtelegraf = loaded_telegraf,
     wfilebeat = idle_runner ''FILEBEAT'', woracle = idle_runner ''ORACLE'', wpackages = idle_runner ''PACKAGES'',
     wdown = False\<rparr>"
    using e by (simp_all add: witness_boot_def)
qed

lemma witness_boot_reachable: "world_reachable witness_boot"
  by (rule boot [OF witness_boot_ok(1)])

definition oracle_conf :: EnvoyInstructionConfigure where
  "oracle_conf = \<lparr>conf_agentType = ORACLE, conf_operations = [json_op_of CREATE ''{}'']\<rparr>"

definition oracle_up :: string where
  "oracle_up = ''Succeeded in reconnecting to Envoy''"

lemma starts_oracle: "starts_ok (env_handler (good_env oracle_up)) c oracle_up"
proof -
  have "start_outcome oracle_up [LineRead Stdout oracle_up, SendDone Stdout, Receive] = SawContent"
    by (simp add: start_outcome_def setupCommandLogging_def oracle_up_def HasPrefix_def chan_capacity_def)
  then show ?thesis by (simp add: starts_ok_def good_env_def good_start_def oracle_up_def)
qed

lemma config_ready_empty: "list_all plain_name p \<Longrightarrow> config_ready p []"
  by (auto simp: config_ready_def dir_path_def lookup_def split: option.splits)

lemma oracle_conf_files:
  "\<exists>fs. Oracle_ProcessConfig (good_env oracle_up) oracle_conf (idle_runner ''ORACLE'') [] = (Ret None, fs)"
proof -
  let ?r = "idle_runner ''ORACLE''" and ?enc = "Oracle_encode plain_libs"
  obtain result fs where r: "json_ProcessConfig ''oracle'' ?enc (good_env oracle_up) oracle_conf ?r [] = (result, fs)"
    by fastforce
  have f: "env_faults (good_env oracle_up) = no_faults" by (simp add: good_env_def)
  have ready: "config_ready (basePath ?r @ [configsDirSubpath]) []"
    by (rule config_ready_empty) (simp add: idle_runner_def configsDirSubpath_def plain_name_def)
  have ids: "list_all plain_id (conf_operations oracle_conf)"
    by (simp add: oracle_conf_def plain_id_def json_op_of_def)
  have ren: "list_all (renders ?enc) (conf_operations oracle_conf)"
    using Unmarshal_empty_object by (simp add: oracle_conf_def renders_def json_render_def json_op_of_def)
  have w: "\<exists>op \<in> set (conf_operations oracle_conf). is_write op"
    by (simp add: oracle_conf_def is_write_def json_op_of_def)
  have "result = Ret None" using json_ProcessConfig_files [OF f ready ids ren r] w by blast
  with r show ?thesis by (simp add: Oracle_ProcessConfig_def good_env_def)
qed

lemma Oracle_start_not_fatal:
  assumes "\<not> IsRunning h (running r)" and "starts_ok (env_handler env) (nextCtx h) oracle_up"
  shows "\<not> fst (Oracle_EnsureRunningState env fs b h r)"
proof -
  obtain c h1 where c: "CreateContext ORACLE (buildRelativeExePath ''salus-oracle-agent'') (basePath r)
      [''-configs'', configsDirSubpath] h = (c, h1)" by fastforce
  then have "c = nextCtx h" and "\<exists>a cmd. ctxs h1 c = Some a \<and> arc_cmd a = Some cmd"
    using CreateContext_cmd [OF c] by auto
  then obtain h2 where "StartAgentCommand (env_handler env) c ''Succeeded in reconnecting to Envoy'' h1 = (None, h2)"
    using StartAgentCommand_ok assms(2) unfolding oracle_up_def by metis
  with assms(1) c show ?thesis by (simp add: Oracle_EnsureRunningState_def)
qed

lemma one_oracle_running:
  "\<exists>w. world_reachable w \<and> world_next witness_boot (EvConfigure (good_env oracle_up) oracle_conf) = Some w \<and>
     \<not> wdown w \<and> (\<exists>c. active (whandler w) c \<and> agent_of (whandler w) c = Some ORACLE)"
proof -
  let ?env = "good_env oracle_up"
  obtain fs where fs: "Oracle_ProcessConfig ?env oracle_conf (idle_runner ''ORACLE'') [] = (Ret None, fs)"
    using oracle_conf_files by blast
  obtain fatal h r where e: "Oracle_EnsureRunningState ?env fs True initial_handler (idle_runner ''ORACLE'') = (fatal, h, r)"
    using prod_cases3 by blast
  have n: "\<not> IsRunning initial_handler (running (idle_runner ''ORACLE''))" by (simp add: IsRunning_def idle_runner_def)
  have nf: "\<not> fatal" using Oracle_start_not_fatal [OF n starts_oracle, of fs True] e by simp
  have r: "(None :: nat option) = running (idle_runner ''ORACLE'')" by (simp add: idle_runner_def)
  have act: "\<exists>c. active h c \<and> agent_of h c = Some ORACLE"
    using runners_inv_initial r e
  proof (cases rule: Oracle_ensure_cases)
    case (started c)
    then have "agent_of h c = Some ORACLE" by (simp add: runners_inv_def)
    with started show ?thesis by blast
  qed (use n nf in auto)
  define w where "w = witness_boot\<lparr>wfs := fs, whandler := h, woracle := r, wdown := False\<rparr>"
  have "world_next witness_boot (EvConfigure ?env oracle_conf) = Some w"
    using fs e nf
    by (simp add: w_def witness_boot_ok(2) ProcessConfigure_def oracle_conf_def registered_def
        runner_ProcessConfig_def runner_EnsureRunningState_def Let_def)
  then show ?thesis
    using happens [OF witness_boot_reachable] act by (intro exI [of _ w]) (auto simp: w_def)
qed


section \<open>Isolation\<close>

text \<open>
  C6 An instruction for one agent, be it an installation with its restart or a configuration,
  leaves the contexts and processes of every other agent exactly as they are: whatever else runs
  keeps running, with the signals it had.
\<close>

theorem instructions_isolated:
  assumes "world_reachable w"
    and "e = EvInstall re install \<and> a = inst_agentType install \<or> e = EvConfigure env conf \<and> a = conf_agentType conf"
    and "world_next w e = Some w'" and "agent_of (whandler w) c = Some b" and "b \<noteq> a"
  shows "ctxs (whandler w') c = ctxs (whandler w) c \<and> procs (whandler w') c = procs (whandler w) c \<and>
    (active (whandler w') c \<longleftrightarrow> active (whandler w) c)"
proof -
  have inv: "world_inv w" by (rule world_reachable_inv [OF assms(1)])
  have "\<not> wdown w" using assms(3) by (auto split: if_splits)
  then have "others_kept a (whandler w) (whandler w')"
    using assms(2,3) ProcessInstall_world [OF inv, of re install] ProcessConfigure_world [OF inv, of env conf]
    by auto
  with assms(4,5) show ?thesis by (auto simp: others_kept_def active_def)
qed

lemma instructions_isolated_witness:
  "\<exists>w w' c. world_reachable w \<and> active (whandler w) c \<and>
     world_next w (EvConfigure (good_env []) \<lparr>conf_agentType = FILEBEAT, conf_operations = []\<rparr>) = Some w' \<and>
     active (whandler w') c"
proof -
  let ?conf = "\<lparr>conf_agentType = FILEBEAT, conf_operations = []\<rparr>"
  obtain w c where w: "world_reachable w" "\<not> wdown w" "active (whandler w) c" "agent_of (whandler w) c = Some ORACLE"
    using one_oracle_running by blast
  have e: "world_next w (EvConfigure (good_env []) ?conf) = Some (ProcessConfigure (good_env []) ?conf w)"
    using w(2) by simp
  show ?thesis
    using instructions_isolated [OF w(1) _ e w(4), where a = FILEBEAT and re = "witness_env []"
        and env = "good_env []" and conf = ?conf and install = undefined] w e by auto
qed

section \<open>Detaching\<close>

definition base_of :: "world \<Rightarrow> AgentType \<Rightarrow> path" where
  "base_of w a =
     (case a of
        TELEGRAF \<Rightarrow> basePath (wtelegraf w)
      | FILEBEAT \<Rightarrow> basePath (wfilebeat w)
      | ORACLE \<Rightarrow> basePath (woracle w)
      | PACKAGES \<Rightarrow> basePath (wpackages w)
      | OtherAgent _ \<Rightarrow> [])"

definition keeps_files :: "AgentType \<Rightarrow> bool" where
  "keeps_files a = (a \<in> {FILEBEAT, ORACLE, PACKAGES})"

lemma purge_dir:
  assumes "wf_fs fs" and "dir_path fs base"
  obtains fs' where "purgeConfigsDirectory no_faults base fs = (None, fs')" and "wf_fs fs'"
    and "\<And>q. lookup fs' q = (if prefix (base @ [configsDirSubpath]) q then None else lookup fs q)"
proof -
  have p: "plain_name configsDirSubpath" by (simp add: plain_name_def configsDirSubpath_def)
  obtain fs' where r: "os_RemoveAll no_faults fs (base @ [configsDirSubpath]) = (None, fs')" "wf_fs fs'"
    "\<And>q. lookup fs' q = (if prefix (base @ [configsDirSubpath]) q then None else lookup fs q)"
    using os_RemoveAll_dir_path [OF assms p] by metis
  have "purgeConfigsDirectory no_faults base fs = (None, fs')"
    using r(1) p by (simp add: purgeConfigsDirectory_def del: no_faults)
  with r that show ?thesis by blast
qed

lemma runner_purge:
  assumes "wf_fs (wfs w)" and "keeps_files a \<longrightarrow> dir_path (wfs w) (base_of w a)"
  obtains w' where "runner_PurgeConfig no_faults a w = (None, w')" and "wf_fs (wfs w')"
    and "base_of w' = base_of w"
    and "\<And>q. lookup (wfs w') q =
       (if keeps_files a \<and> prefix (base_of w a @ [configsDirSubpath]) q then None else lookup (wfs w) q)"
    and "tomlConfigs (wtelegraf w') = (if a = TELEGRAF then [] else tomlConfigs (wtelegraf w))"
proof (cases "keeps_files a")
  case True
  obtain fs where p: "purgeConfigsDirectory no_faults (base_of w a) (wfs w) = (None, fs)" "wf_fs fs"
    "\<And>q. lookup fs q = (if prefix (base_of w a @ [configsDirSubpath]) q then None else lookup (wfs w) q)"
    using purge_dir [OF assms(1)] assms(2) True by metis
  have r: "runner_PurgeConfig no_faults a w = (None, w\<lparr>wfs := fs\<rparr>)" and t: "a \<noteq> TELEGRAF"
    using True p(1) by (auto simp: keeps_files_def runner_PurgeConfig_def Filebeat_PurgeConfig_def
        Oracle_PurgeConfig_def Packages_PurgeConfig_def base_of_def simp del: no_faults)
  show ?thesis
    by (rule that [OF r]) (use p True t in \<open>auto simp: base_of_def fun_eq_iff split: AgentType.split\<close>)
next
  case False
  then have "a = TELEGRAF \<or> (\<exists>n. a = OtherAgent n)" by (cases a) (auto simp: keeps_files_def)
  then show ?thesis
    using that assms(1) False
    by (auto simp: runner_PurgeConfig_def Telegraf_PurgeConfig_def base_of_def fun_eq_iff split: AgentType.split)
qed

lemma PurgeAgentConfigs_all:
  assumes "wf_fs (wfs w)" and "\<forall>a \<in> set order. keeps_files a \<longrightarrow> dir_path (wfs w) (base_of w a)"
  shows "\<exists>w'. PurgeAgentConfigs no_faults order w = (None, w') \<and> base_of w' = base_of w \<and>
    (\<forall>q. lookup (wfs w') q =
       (if \<exists>a \<in> set order. keeps_files a \<and> prefix (base_of w a @ [configsDirSubpath]) q
        then None else lookup (wfs w) q)) \<and>
    tomlConfigs (wtelegraf w') = (if TELEGRAF \<in> set order then [] else tomlConfigs (wtelegraf w))"
  using assms
proof (induction order arbitrary: w)
  case (Cons a order)
  obtain w1 where w1: "runner_PurgeConfig no_faults a w = (None, w1)" "wf_fs (wfs w1)" "base_of w1 = base_of w"
    and l1: "\<And>q. lookup (wfs w1) q =
       (if keeps_files a \<and> prefix (base_of w a @ [configsDirSubpath]) q then None else lookup (wfs w) q)"
    and t1: "tomlConfigs (wtelegraf w1) = (if a = TELEGRAF then [] else tomlConfigs (wtelegraf w))"
    using runner_purge [OF Cons.prems(1), of a] Cons.prems(2) by auto
  have "\<forall>a \<in> set order. keeps_files a \<longrightarrow> dir_path (wfs w1) (base_of w1 a)"
    using Cons.prems(2) w1(3) l1 dir_path_mono [of "wfs w" _ "wfs w1"] by auto
  from Cons.IH [OF w1(2) this] obtain w' where
    "PurgeAgentConfigs no_faults order w1 = (None, w')" "base_of w' = base_of w1"
    "\<forall>q. lookup (wfs w') q =
       (if \<exists>a \<in> set order. keeps_files a \<and> prefix (base_of w1 a @ [configsDirSubpath]) q
        then None else lookup (wfs w1) q)"
    "tomlConfigs (wtelegraf w') = (if TELEGRAF \<in> set order then [] else tomlConfigs (wtelegraf w1))"
    by blast
  with w1 l1 t1 show ?case by (intro exI [of _ w']) (auto simp del: no_faults)
qed simp

lemma runner_Stop_frame:
  "base_of (runner_Stop henv a w) = base_of w"
  "tomlConfigs (wtelegraf (runner_Stop henv a w)) = tomlConfigs (wtelegraf w)"
  "wfs (runner_Stop henv a w) = wfs w"
  by (auto simp: runner_Stop_def Telegraf_Stop_def Filebeat_Stop_def Oracle_Stop_def Packages_Stop_def
      base_of_def fun_eq_iff split: AgentType.splits)

lemma stopAll_frame: "base_of (stopAll henv order w) = base_of w \<and> wfs (stopAll henv order w) = wfs w"
proof (induction order arbitrary: w)
  case (Cons a order)
  show ?case using Cons [of "runner_Stop henv a w"] runner_Stop_frame [of henv a w] by (simp add: stopAll_def)
qed (simp add: stopAll_def)

lemma detach_spec:
  assumes "world_reachable w" and "set (range_agents re) = set SupportedAgents"
    and "env_faults (renv re) = no_faults" and "wf_fs (wfs w)"
    and "\<forall>r \<in> {wfilebeat w, woracle w, wpackages w}. dir_path (wfs w) (basePath r)"
  shows "(\<forall>a. registered a \<longrightarrow> (\<forall>c. active (whandler (Start_detach re w)) c \<longrightarrow>
             agent_of (whandler (Start_detach re w)) c \<noteq> Some a)) \<and>
    tomlConfigs (wtelegraf (Start_detach re w)) = [] \<and>
    (\<forall>q. lookup (wfs (Start_detach re w)) q =
       (if \<exists>r \<in> {wfilebeat w, woracle w, wpackages w}. prefix (basePath r @ [''config.d'']) q
        then None else lookup (wfs w) q))"
proof -
  let ?s = "stopAll (env_handler (renv re)) (range_agents re) w"
  have inv: "world_inv w" by (rule world_reachable_inv [OF assms(1)])
  note st = stopAll_world [OF inv, of "env_handler (renv re)" "range_agents re"]
  have fr: "base_of ?s = base_of w" "wfs ?s = wfs w" using stopAll_frame by auto
  have sup: "set (range_agents re) = {TELEGRAF, FILEBEAT, ORACLE, PACKAGES}"
    using assms(2) by (simp add: SupportedAgents_def)
  have "\<forall>a \<in> set (range_agents re). keeps_files a \<longrightarrow> dir_path (wfs ?s) (base_of ?s a)"
    using assms(5) fr sup by (auto simp: base_of_def keeps_files_def)
  then obtain w' where p: "PurgeAgentConfigs no_faults (range_agents re) ?s = (None, w')"
    and l: "\<forall>q. lookup (wfs w') q =
       (if \<exists>a \<in> set (range_agents re). keeps_files a \<and> prefix (base_of ?s a @ [configsDirSubpath]) q
        then None else lookup (wfs ?s) q)"
    and t: "tomlConfigs (wtelegraf w') = (if TELEGRAF \<in> set (range_agents re) then [] else tomlConfigs (wtelegraf ?s))"
    using PurgeAgentConfigs_all [of ?s "range_agents re"] assms(4) fr by auto
  have d: "Start_detach re w = w'" using p by (simp add: Start_detach_def Let_def assms(3) del: no_faults)
  have h: "whandler w' = whandler ?s"
    using PurgeAgentConfigs_frame [of no_faults "range_agents re" ?s] p by simp
  have "no_active a (whandler w')" if "registered a" for a
    using st that sup h by (auto simp: registered_def)
  moreover have "lookup (wfs w') q =
       (if \<exists>r \<in> {wfilebeat w, woracle w, wpackages w}. prefix (basePath r @ [''config.d'']) q
        then None else lookup (wfs w) q)" for q
    using l fr sup by (auto simp: base_of_def keeps_files_def configsDirSubpath_def)
  ultimately show ?thesis using t sup unfolding d no_active_def by auto
qed

text \<open>
  C7 When the attachment to an Ambassador ends, the system calls succeeding, no agent's process is
  kept alive any more and no configuration is left: telegraf's are forgotten, and the directories
  of the others are gone with everything below them, whether they existed or not; every other file
  is as it was.
\<close>

theorem detach_clears_everything:
  assumes "world_reachable w" and "set (range_agents re) = set SupportedAgents"
    and "env_faults (renv re) = no_faults" and "wf_fs (wfs w)"
    and "\<forall>r \<in> {wfilebeat w, woracle w, wpackages w}. dir_path (wfs w) (basePath r)"
  shows "(\<forall>a. registered a \<longrightarrow> (\<forall>c. active (whandler (Start_detach re w)) c \<longrightarrow>
             agent_of (whandler (Start_detach re w)) c \<noteq> Some a)) \<and>
    tomlConfigs (wtelegraf (Start_detach re w)) = [] \<and>
    (\<forall>q. lookup (wfs (Start_detach re w)) q =
       (if \<exists>r \<in> {wfilebeat w, woracle w, wpackages w}. prefix (basePath r @ [''config.d'']) q
        then None else lookup (wfs w) q))"
  using detach_spec [OF assms] .

definition filebeat_conf :: EnvoyInstructionConfigure where
  "filebeat_conf = \<lparr>conf_agentType = FILEBEAT, conf_operations = [yml_op ''a'' CREATE ''x'']\<rparr>"

definition filebeat_fs :: fs where
  "filebeat_fs =
     [([''data''], Dir), ([''data'', ''agents''], Dir), ([''data'', ''agents'', ''FILEBEAT''], Dir),
      ([''data'', ''agents'', ''FILEBEAT'', ''config.d''], Dir),
      ([''data'', ''agents'', ''FILEBEAT'', ''filebeat.yml''], File (filebeatMainConfig ''config.d'' [])),
      ([''data'', ''agents'', ''FILEBEAT'', ''config.d'', ''a.yml''], File ''x'')]"

lemma filebeat_conf_run:
  "Filebeat_ProcessConfig (good_env []) filebeat_conf (idle_runner ''FILEBEAT'') [] = (None, filebeat_fs)"
  unfolding filebeat_conf_def filebeat_fs_def by code_simp

lemma filebeat_world:
  "world_next witness_boot (EvConfigure (good_env []) filebeat_conf) = Some (witness_boot\<lparr>wfs := filebeat_fs\<rparr>)"
proof -
  have r: "Filebeat_ProcessConfig (good_env []) filebeat_conf (idle_runner ''FILEBEAT'') [] = (None, filebeat_fs)"
    by (rule filebeat_conf_run)
  have "\<not> hasConfigsAndExeReady no_faults filebeat_fs [''data'', ''agents'', ''FILEBEAT''] filebeatExeName ''.yml''"
    unfolding filebeat_fs_def by code_simp
  then have "Filebeat_EnsureRunningState (good_env []) filebeat_fs True initial_handler (idle_runner ''FILEBEAT'') =
      (False, initial_handler, idle_runner ''FILEBEAT'')"
    by (simp add: Filebeat_EnsureRunningState_def good_env_def idle_runner_def Stop_def del: no_faults)
  with r show ?thesis
    by (simp add: witness_boot_ok(2) ProcessConfigure_def filebeat_conf_def registered_def
        runner_ProcessConfig_def runner_EnsureRunningState_def Let_def)
qed

lemma filebeat_fs_lookup:
  "lookup filebeat_fs p =
    (if p = [] \<or> p \<in> {[''data''], [''data'', ''agents''], [''data'', ''agents'', ''FILEBEAT''],
          [''data'', ''agents'', ''FILEBEAT'', ''config.d'']} then Some Dir
     else if p = [''data'', ''agents'', ''FILEBEAT'', ''filebeat.yml''] then Some (File (filebeatMainConfig ''config.d'' []))
     else if p = [''data'', ''agents'', ''FILEBEAT'', ''config.d'', ''a.yml''] then Some (File ''x'') else None)"
  by (auto simp: lookup_def filebeat_fs_def)

lemma filebeat_fs_ok:
  "wf_fs filebeat_fs" "dir_path filebeat_fs [''data'', ''agents'', ''FILEBEAT'']"
  "dir_path filebeat_fs [''data'', ''agents'', ''ORACLE'']" "dir_path filebeat_fs [''data'', ''agents'', ''PACKAGES'']"
  by (auto simp: wf_fs_def dir_path_def filebeat_fs_lookup plain_name_def prefix_Cons split: if_splits)

lemma filebeat_reachable: "world_reachable (witness_boot\<lparr>wfs := filebeat_fs\<rparr>)"
  by (rule happens [OF witness_boot_reachable filebeat_world])

lemma detach_clears_everything_witness:
  "\<exists>w. world_reachable w \<and>
     lookup (wfs w) [''data'', ''agents'', ''FILEBEAT'', ''config.d'', ''a.yml''] = Some (File ''x'') \<and>
     lookup (wfs (Start_detach (witness_env []) w)) [''data'', ''agents'', ''FILEBEAT'', ''config.d'', ''a.yml''] = None \<and>
     lookup (wfs (Start_detach (witness_env []) w)) [''data'', ''agents'', ''FILEBEAT''] = Some Dir"
  using detach_clears_everything [OF filebeat_reachable, of "witness_env []"] filebeat_reachable filebeat_fs_ok
  by (intro exI [of _ "witness_boot\<lparr>wfs := filebeat_fs\<rparr>"])
     (simp add: witness_env_def SupportedAgents_def good_env_def witness_boot_ok(2) idle_runner_def filebeat_fs_lookup
       insert_commute)

section \<open>Test monitors\<close>

text \<open>
  A test monitor of an agent type that is not registered is not answered; every other one is,
  under the identifier of the request, and an answer with metrics holds no errors but those of the
  temporary configuration server.
\<close>

lemma ProcessTestMonitor_answer:
  "case ProcessTestMonitor me tm w of
     None \<Rightarrow> \<not> registered (tm_agentType tm)
   | Some res \<Rightarrow> registered (tm_agentType tm) \<and> res_correlationId res = tm_correlationId tm \<and>
       (res_metrics res = [] \<or> list_all (\<lambda>e. HasPrefix e ''ConfigServer: '') (res_errors res))"
proof -
  have "res_correlationId res = cid \<and>
       (res_metrics res = [] \<or> list_all (\<lambda>e. HasPrefix e ''ConfigServer: '') (res_errors res))"
    if "runner_ProcessTestMonitor me a cid content timeout w = Inr res" for a cid content timeout res
    using that
    by (auto simp: runner_ProcessTestMonitor_def Telegraf_ProcessTestMonitor_def Packages_ProcessTestMonitor_def
        Filebeat_ProcessTestMonitor_def Oracle_ProcessTestMonitor_def Let_def
        HasPrefix_def list_all_iff
        split: AgentType.splits sum.splits option.splits prod.splits if_splits)
  then show ?thesis by (auto simp: ProcessTestMonitor_def Let_def split: sum.split)
qed

end
