(* ===== verification/Egress_Connection.thy ===== *)
theory Egress_Connection
  imports Agents_Router
begin

text \<open>
  The connection to an Ambassador (\<^verbatim>\<open>ambassador/connection.go\<close>): the loop that dials, attaches
  and supervises one connection after the other, and for each of them the goroutine that receives
  instructions and those that send keep-alives. The goroutines of a closed connection may outlive
  it. A step is one channel operation, one call or one assignment of one goroutine; their order is
  not determined. What gRPC answers is part of the event.
\<close>

section \<open>State\<close>

text \<open>The goroutine in \<^verbatim>\<open>watchForInstructions\<close>: at its select, in \<^verbatim>\<open>Recv\<close>, with an
  instruction at hand, at the send of an error, returned.\<close>

datatype watch_pc = WTop | WRecv | WHandle EnvoyInstruction | WSend go_error | WReturned

text \<open>A goroutine in \<^verbatim>\<open>sendKeepAlives\<close>.\<close>

datatype keep_pc = KSelect | KCall | KSend go_error | KReturned

text \<open>What belongs to one attachment. \<open>received\<close>, \<open>handled\<close> and \<open>notified\<close> record what has
  happened: the instructions \<^verbatim>\<open>Recv\<close> returned, those dealt with, and how often the agents'
  router was told of the end of the connection.\<close>

record connection =
  errChan :: "go_error list"
  conn_cancelled :: bool
  watch :: watch_pc
  keepAlives :: "keep_pc list"
  received :: "EnvoyInstruction list"
  handled :: "EnvoyInstruction list"
  notified :: nat

text \<open>The goroutine in \<^verbatim>\<open>Start\<close>, with the connection it supervises. \<open>has_detachChan\<close>:
  whether there is a channel to the agents' router, which is so but for simulated connections.\<close>

datatype loop_pc = Between | Dialing | Selecting nat | Notifying nat | Cancelling nat | LoopStopped

record egress =
  app_done :: bool
  attached :: bool
  loop :: loop_pc
  conns :: "connection list"
  detachChan :: nat
  has_detachChan :: bool

definition new_connection :: connection where
  "new_connection =
     \<lparr>errChan = [], conn_cancelled = False, watch = WTop, keepAlives = [], received = [], handled = [],
      notified = 0\<rparr>"

definition errChan_capacity :: nat where "errChan_capacity = 10"
definition detachChan_capacity :: nat where "detachChan_capacity = 1"

definition started_egress :: "bool \<Rightarrow> egress" where
  "started_egress b =
     \<lparr>app_done = False, attached = False, loop = Between, conns = [], detachChan = 0, has_detachChan = b\<rparr>"

section \<open>Steps\<close>

text \<open>Both contexts of a connection derive from the application's.\<close>

definition ctx_done :: "egress \<Rightarrow> nat \<Rightarrow> bool" where
  "ctx_done s k \<longleftrightarrow> app_done s \<or> conn_cancelled (conns s ! k)"

definition upd_conn :: "nat \<Rightarrow> (connection \<Rightarrow> connection) \<Rightarrow> egress \<Rightarrow> egress" where
  "upd_conn k f s = s\<lparr>conns := (conns s)[k := f (conns s ! k)]\<rparr>"

text \<open>The loop of \<^verbatim>\<open>Start\<close> around \<^verbatim>\<open>attach\<close>.\<close>

datatype loop_event =
    Stops              \<comment> \<open>the context is done\<close>
  | Attaches           \<comment> \<open>\<^verbatim>\<open>attach\<close> is called, a first time or again\<close>
  | AttachFails        \<comment> \<open>\<^verbatim>\<open>dialNetwork\<close> or \<^verbatim>\<open>AttachEnvoy\<close> fails\<close>
  | AttachSucceeds
  | TakesDone          \<comment> \<open>\<^verbatim>\<open>outgoingCtx.Done()\<close>\<close>
  | TakesError         \<comment> \<open>\<^verbatim>\<open>err := <-errChan\<close>\<close>
  | Notifies           \<comment> \<open>\<^verbatim>\<open>c.detachChan <- struct{}{}\<close>\<close>
  | Cancels            \<comment> \<open>\<^verbatim>\<open>cancelFunc()\<close>\<close>

fun attach_step :: "loop_event \<Rightarrow> egress \<Rightarrow> egress option" where
  "attach_step Stops s =
     (if loop s = Between \<and> app_done s then Some (s\<lparr>loop := LoopStopped\<rparr>) else None)"
| "attach_step Attaches s = (if loop s = Between then Some (s\<lparr>loop := Dialing\<rparr>) else None)"
| "attach_step AttachFails s = (if loop s = Dialing then Some (s\<lparr>loop := Between\<rparr>) else None)"
| "attach_step AttachSucceeds s =
     (if loop s = Dialing
      then Some (s\<lparr>conns := conns s @ [new_connection], loop := Selecting (length (conns s))\<rparr>) else None)"
| "attach_step TakesDone s =
     (case loop s of
        Selecting k \<Rightarrow> (if ctx_done s k then Some (s\<lparr>attached := False, loop := Between\<rparr>) else None)
      | _ \<Rightarrow> None)"
| "attach_step TakesError s =
     (case loop s of
        Selecting k \<Rightarrow>
          (case errChan (conns s ! k) of
             [] \<Rightarrow> None
           | err # errs \<Rightarrow>
               Some (upd_conn k (\<lambda>c. c\<lparr>errChan := errs\<rparr>) (s\<lparr>attached := False, loop := Notifying k\<rparr>)))
      | _ \<Rightarrow> None)"
| "attach_step Notifies s =
     (case loop s of
        Notifying k \<Rightarrow>
          (if \<not> has_detachChan s then Some (s\<lparr>loop := Cancelling k\<rparr>)
           else if detachChan s < detachChan_capacity
           then Some (upd_conn k (\<lambda>c. c\<lparr>notified := Suc (notified c)\<rparr>)
                       (s\<lparr>detachChan := Suc (detachChan s), loop := Cancelling k\<rparr>))
           else None)
      | _ \<Rightarrow> None)"
| "attach_step Cancels s =
     (case loop s of
        Cancelling k \<Rightarrow> Some (upd_conn k (\<lambda>c. c\<lparr>conn_cancelled := True\<rparr>) (s\<lparr>loop := Selecting k\<rparr>))
      | _ \<Rightarrow> None)"

text \<open>A step of the goroutine that watches the connection; \<open>closed\<close> tells whether its context
  is done, \<open>answer\<close> is what \<^verbatim>\<open>Recv\<close> returns when it is called. A full channel makes the
  goroutine wait.\<close>

definition watch_conn :: "bool \<Rightarrow> EnvoyInstruction result \<Rightarrow> connection \<Rightarrow> connection option" where
  "watch_conn closed answer c =
     (case watch c of
        WTop \<Rightarrow> Some (c\<lparr>watch := if closed then WReturned else WRecv\<rparr>)
      | WRecv \<Rightarrow>
          (case answer of
             Inl err \<Rightarrow> Some (c\<lparr>watch := WSend (Wrapped ''failed to receive instruction'' err)\<rparr>)
           | Inr i \<Rightarrow> Some (c\<lparr>received := received c @ [i], watch := WHandle i\<rparr>))
      | WHandle i \<Rightarrow>
          (case i of
             Ready \<Rightarrow> Some (c\<lparr>keepAlives := keepAlives c @ [KSelect], handled := handled c @ [i], watch := WTop\<rparr>)
           | _ \<Rightarrow> Some (c\<lparr>handled := handled c @ [i], watch := WTop\<rparr>))
      | WSend err \<Rightarrow>
          (if length (errChan c) < errChan_capacity
           then Some (c\<lparr>errChan := errChan c @ [err], watch := WReturned\<rparr>) else None)
      | WReturned \<Rightarrow> None)"

text \<open>A \<open>Ready\<close> also sets \<^verbatim>\<open>c.attached\<close>, whichever connection it came from.\<close>

definition watch_step :: "nat \<Rightarrow> EnvoyInstruction result \<Rightarrow> egress \<Rightarrow> egress option" where
  "watch_step k answer s =
     (case watch_conn (ctx_done s k) answer (conns s ! k) of
        None \<Rightarrow> None
      | Some c \<Rightarrow>
          Some (s\<lparr>conns := (conns s)[k := c],
                  attached := (if watch (conns s ! k) = WHandle Ready then True else attached s)\<rparr>))"

text \<open>A step of keep-alive goroutine \<open>j\<close>. At its select, \<open>takes_done\<close> tells which ready case
  is taken; \<open>failure\<close> is the error of the call, if any.\<close>

definition keep_conn :: "bool \<Rightarrow> nat \<Rightarrow> bool \<Rightarrow> go_error option \<Rightarrow> connection \<Rightarrow> connection option" where
  "keep_conn closed j takes_done failure c =
     (let goto = (\<lambda>pc. c\<lparr>keepAlives := (keepAlives c)[j := pc]\<rparr>)
      in case keepAlives c ! j of
           KSelect \<Rightarrow>
             (if takes_done then (if closed then Some (goto KReturned) else None) else Some (goto KCall))
         | KCall \<Rightarrow>
             (case failure of
                None \<Rightarrow> Some (goto KSelect)
              | Some err \<Rightarrow> Some (goto (KSend (Wrapped ''failed to send keep alive'' err))))
         | KSend err \<Rightarrow>
             (if length (errChan c) < errChan_capacity
              then Some ((goto KReturned)\<lparr>errChan := errChan c @ [err]\<rparr>) else None)
         | KReturned \<Rightarrow> None)"

definition keep_step :: "nat \<Rightarrow> nat \<Rightarrow> bool \<Rightarrow> go_error option \<Rightarrow> egress \<Rightarrow> egress option" where
  "keep_step k j takes_done failure s =
     (case keep_conn (ctx_done s k) j takes_done failure (conns s ! k) of
        None \<Rightarrow> None
      | Some c \<Rightarrow> Some (s\<lparr>conns := (conns s)[k := c]\<rparr>))"

datatype egress_event =
    Loop loop_event
  | Watch nat "EnvoyInstruction result"
  | Keep nat nat bool "go_error option"
  | RouterTakesDetach
  | Shutdown

fun egress_next :: "egress \<Rightarrow> egress_event \<Rightarrow> egress option" where
  "egress_next s (Loop e) = attach_step e s"
| "egress_next s (Watch k answer) = (if k < length (conns s) then watch_step k answer s else None)"
| "egress_next s (Keep k j takes_done failure) =
     (if k < length (conns s) \<and> j < length (keepAlives (conns s ! k)) then keep_step k j takes_done failure s else None)"
| "egress_next s RouterTakesDetach =
     (if 0 < detachChan s then Some (s\<lparr>detachChan := detachChan s - 1\<rparr>) else None)"
| "egress_next s Shutdown = Some (s\<lparr>app_done := True\<rparr>)"

fun egress_run :: "egress \<Rightarrow> egress_event list \<Rightarrow> egress option" where
  "egress_run s [] = Some s"
| "egress_run s (e # es) = (case egress_next s e of None \<Rightarrow> None | Some t \<Rightarrow> egress_run t es)"

inductive egress_reachable :: "egress \<Rightarrow> bool" where
  start: "egress_reachable (started_egress b)"
| step: "egress_reachable s \<Longrightarrow> egress_next s e = Some t \<Longrightarrow> egress_reachable t"

interpretation egress: transition_system "\<lambda>s. \<exists>b. s = started_egress b" "\<lambda>s e t. egress_next s e = Some t" egress_reachable
proof
  fix s :: egress and P :: "egress \<Rightarrow> bool"
  assume "egress_reachable s" and "\<forall>s. (\<exists>b. s = started_egress b) \<longrightarrow> P s"
    and "\<forall>s e t. egress_reachable s \<longrightarrow> P s \<longrightarrow> egress_next s e = Some t \<longrightarrow> P t"
  then show "P s" by (induction rule: egress_reachable.induct) blast+
qed

lemma egress_run_reachable: "egress_run s es = Some t \<Longrightarrow> egress_reachable s \<Longrightarrow> egress_reachable t"
  by (induction es arbitrary: s) (auto split: option.splits intro: egress_reachable.step)

section \<open>Invariants\<close>

lemma upd_conn_simps [simp]:
  "app_done (upd_conn k f s) = app_done s" "attached (upd_conn k f s) = attached s"
  "loop (upd_conn k f s) = loop s" "detachChan (upd_conn k f s) = detachChan s"
  "has_detachChan (upd_conn k f s) = has_detachChan s"
  "conns (upd_conn k f s) = (conns s)[k := f (conns s ! k)]"
  by (simp_all add: upd_conn_def)

definition readies :: "EnvoyInstruction list \<Rightarrow> nat" where
  "readies is = length (filter (\<lambda>i. i = Ready) is)"

definition returned_keepers :: "connection \<Rightarrow> nat" where
  "returned_keepers c = length (filter (\<lambda>pc. pc = KReturned) (keepAlives c))"

text \<open>Some goroutine of the connection may have reported an error.\<close>

definition may_have_failed :: "connection \<Rightarrow> bool" where
  "may_have_failed c \<longleftrightarrow> watch c = WReturned \<or> keepAlives c \<noteq> []"

definition at_hand :: "watch_pc \<Rightarrow> EnvoyInstruction list" where
  "at_hand pc = (case pc of WHandle i \<Rightarrow> [i] | _ \<Rightarrow> [])"

definition conn_inv :: "connection \<Rightarrow> bool" where
  "conn_inv c \<longleftrightarrow>
     received c = handled c @ at_hand (watch c) \<and>
     length (keepAlives c) = readies (handled c) \<and>
     length (errChan c) \<le> (if watch c = WReturned then 1 else 0) + returned_keepers c \<and>
     (conn_cancelled c \<longrightarrow> may_have_failed c)"

definition index_inv :: "egress \<Rightarrow> bool" where
  "index_inv s \<longleftrightarrow>
     (\<forall>k. loop s \<in> {Selecting k, Notifying k, Cancelling k} \<longrightarrow> Suc k = length (conns s)) \<and>
     detachChan s \<le> 1"

text \<open>Only the connection the loop supervises can be open.\<close>

definition open_inv :: "egress \<Rightarrow> bool" where
  "open_inv s \<longleftrightarrow>
     (\<forall>k < length (conns s). app_done s \<or> conn_cancelled (conns s ! k) \<or>
        loop s \<in> {Selecting k, Notifying k, Cancelling k})"

definition conns_inv :: "egress \<Rightarrow> bool" where
  "conns_inv s \<longleftrightarrow>
     (\<forall>k < length (conns s). conn_inv (conns s ! k)) \<and>
     (\<forall>k. loop s = Notifying k \<longrightarrow> may_have_failed (conns s ! k)) \<and>
     (\<forall>k. loop s = Cancelling k \<longrightarrow>
        may_have_failed (conns s ! k) \<and> (has_detachChan s \<longrightarrow> 0 < notified (conns s ! k))) \<and>
     (\<forall>k < length (conns s). has_detachChan s \<and> conn_cancelled (conns s ! k) \<longrightarrow> 0 < notified (conns s ! k))"

lemma at_hand_simps [simp]:
  "at_hand WTop = []" "at_hand WRecv = []" "at_hand (WHandle i) = [i]" "at_hand (WSend e) = []"
  "at_hand WReturned = []"
  by (simp_all add: at_hand_def)

lemma readies_simps [simp]:
  "readies [] = 0" "readies (xs @ ys) = readies xs + readies ys"
  "readies (i # is) = (if i = Ready then 1 else 0) + readies is"
  by (simp_all add: readies_def)

lemma watch_conn_inv:
  assumes "watch_conn closed answer c = Some c'" and "conn_inv c"
  shows "conn_inv c'"
  using assms
  by (auto simp: watch_conn_def conn_inv_def returned_keepers_def may_have_failed_def
      split: watch_pc.splits sum.splits EnvoyInstruction.splits if_splits)

lemma watch_conn_keeps:
  assumes "watch_conn closed answer c = Some c'"
  shows "conn_cancelled c' = conn_cancelled c" "notified c' = notified c"
    "may_have_failed c \<Longrightarrow> may_have_failed c'" "readies (received c) \<le> readies (received c')"
  using assms
  by (auto simp: watch_conn_def may_have_failed_def split: watch_pc.splits sum.splits EnvoyInstruction.splits if_splits)

lemma filter_update_length:
  assumes "j < length xs" and "\<not> P (xs ! j)"
  shows "length (filter P (xs[j := x])) = (if P x then 1 else 0) + length (filter P xs)"
  using assms by (induction xs arbitrary: j) (auto split: nat.split simp: nth_Cons)

lemma keep_conn_inv:
  assumes "keep_conn closed j takes_done failure c = Some c'" and "j < length (keepAlives c)" and "conn_inv c"
  shows "conn_inv c'"
  using assms
  by (auto simp: keep_conn_def Let_def conn_inv_def returned_keepers_def may_have_failed_def filter_update_length
      split: keep_pc.splits option.splits if_splits)

lemma keep_conn_keeps:
  assumes "keep_conn closed j takes_done failure c = Some c'"
  shows "conn_cancelled c' = conn_cancelled c" "notified c' = notified c" "received c' = received c"
    "may_have_failed c \<Longrightarrow> may_have_failed c'" "watch c' = watch c"
  using assms
  by (auto simp: keep_conn_def Let_def may_have_failed_def split: keep_pc.splits option.splits if_splits)

lemma index_inv_reachable: "egress_reachable s \<Longrightarrow> index_inv s"
proof (erule egress.invariant_rule)
  fix s assume "\<exists>b. s = started_egress b" then show "index_inv s" by (auto simp: index_inv_def started_egress_def)
next
  fix s e t assume i: "index_inv s" and e: "egress_next s e = Some t"
  show "index_inv t"
  proof (cases e)
    case (Loop l)
    then show ?thesis
      using i e by (cases l) (auto simp: index_inv_def detachChan_capacity_def split: if_splits loop_pc.splits list.splits)
  qed (use i e in \<open>auto simp: index_inv_def watch_step_def keep_step_def split: if_splits option.splits\<close>)
qed

lemma nth_update_all:
  "(\<And>k. k < length xs \<Longrightarrow> P k (xs ! k)) \<Longrightarrow> (j < length xs \<Longrightarrow> P j x) \<Longrightarrow> k < length xs \<Longrightarrow> P k (xs[j := x] ! k)"
  by (cases "k = j") simp_all

lemma nth_update_same: "g x = g (xs ! k) \<Longrightarrow> g (xs[k := x] ! j) = g (xs ! j)"
  by (cases "k < length xs \<and> j = k") (auto simp: nth_list_update list_update_beyond)

lemmas received_update = nth_update_same [where g = received]

lemma open_inv_reachable: "egress_reachable s \<Longrightarrow> open_inv s"
proof (erule egress.invariant_rule_with [where J = index_inv])
  fix s assume "egress_reachable s" then show "index_inv s" by (rule index_inv_reachable)
next
  fix s assume "\<exists>b. s = started_egress b" then show "open_inv s" by (auto simp: open_inv_def started_egress_def)
next
  fix s e t assume i: "open_inv s" and x: "index_inv s" and e: "egress_next s e = Some t"
  show "open_inv t"
  proof (cases e)
    case (Loop l)
    then show ?thesis
      using i x e
      by (cases l)
         (auto simp: open_inv_def index_inv_def ctx_done_def nth_append nth_list_update new_connection_def less_Suc_eq
           split: if_splits loop_pc.splits list.splits)
  next
    case (Watch k answer)
    then show ?thesis
      using i e watch_conn_keeps(1)
      by (auto simp: open_inv_def watch_step_def nth_list_update split: if_splits option.splits)
  next
    case (Keep k j d f)
    then show ?thesis
      using i e keep_conn_keeps(1)
      by (auto simp: open_inv_def keep_step_def nth_list_update split: if_splits option.splits)
  qed (use i e in \<open>auto simp: open_inv_def split: if_splits\<close>)
qed

lemma pending_error_failed:
  assumes "conn_inv c" and "errChan c \<noteq> []"
  shows "may_have_failed c"
proof -
  have "0 < (if watch c = WReturned then 1 else 0) + returned_keepers c"
    using assms by (cases "errChan c") (auto simp: conn_inv_def)
  then show ?thesis by (auto simp: may_have_failed_def returned_keepers_def split: if_splits)
qed

lemma new_connection_inv: "conn_inv new_connection" "\<not> conn_cancelled new_connection"
  by (simp_all add: conn_inv_def new_connection_def returned_keepers_def)

lemma conns_inv_update:
  assumes "conns_inv s" and "loop t = loop s" and "conns t = (conns s)[k := c]" and "conn_inv c"
    and "may_have_failed (conns s ! k) \<Longrightarrow> may_have_failed c" and "notified c = notified (conns s ! k)"
    and "conn_cancelled c = conn_cancelled (conns s ! k)" and "has_detachChan t = has_detachChan s"
  shows "conns_inv t"
proof -
  have nth: "conns t ! j = (if j = k \<and> k < length (conns s) then c else conns s ! j)" for j
    using assms(3) by (cases "k < length (conns s)") (auto simp: nth_list_update list_update_beyond)
  have "conn_inv (conns t ! j)" if "j < length (conns t)" for j
    using that assms(1,3,4) by (cases "j = k") (auto simp: conns_inv_def)
  moreover have "may_have_failed (conns s ! j) \<Longrightarrow> may_have_failed (conns t ! j)" for j
    using assms(5) by (auto simp: nth)
  moreover have "notified (conns t ! j) = notified (conns s ! j)" for j using assms(6) by (simp add: nth)
  moreover have "conn_cancelled (conns t ! j) = conn_cancelled (conns s ! j)" for j using assms(7) by (simp add: nth)
  moreover have "length (conns t) = length (conns s)" using assms(3) by simp
  ultimately show ?thesis using assms(1,2,8) by (simp add: conns_inv_def)
qed

lemma conns_inv_reachable: "egress_reachable s \<Longrightarrow> conns_inv s"
proof (erule egress.invariant_rule_with [where J = index_inv])
  fix s assume "egress_reachable s" then show "index_inv s" by (rule index_inv_reachable)
next
  fix s assume "\<exists>b. s = started_egress b" then show "conns_inv s" by (auto simp: conns_inv_def started_egress_def)
next
  fix s e t assume i: "conns_inv s" and x: "index_inv s" and e: "egress_next s e = Some t"
  have c: "conn_inv (conns s ! k)" if "k < length (conns s)" for k using i that by (simp add: conns_inv_def)
  show "conns_inv t"
  proof (cases e)
    case (Loop l)
    then show ?thesis
    proof (cases l)
      case TakesError
      then obtain k err errs where l: "loop s = Selecting k" "errChan (conns s ! k) = err # errs"
        "t = upd_conn k (\<lambda>c. c\<lparr>errChan := errs\<rparr>) (s\<lparr>attached := False, loop := Notifying k\<rparr>)"
        using e Loop by (auto split: loop_pc.splits list.splits)
      have k: "k < length (conns s)" using x l(1) by (auto simp: index_inv_def)
      have "conn_inv ((conns s ! k)\<lparr>errChan := errs\<rparr>)"
        using c [OF k] l(2) by (simp add: conn_inv_def returned_keepers_def may_have_failed_def)
      moreover have "may_have_failed (conns s ! k)" using pending_error_failed [OF c [OF k]] l(2) by simp
      ultimately show ?thesis
        using i k l(3) by (simp add: conns_inv_def nth_list_update may_have_failed_def)
    next
      case Notifies
      then obtain k where l: "loop s = Notifying k" using e Loop by (auto split: loop_pc.splits)
      have k: "k < length (conns s)" using x l by (auto simp: index_inv_def)
      show ?thesis
      proof (cases "has_detachChan s")
        case False
        then have "t = s\<lparr>loop := Cancelling k\<rparr>" using e Loop Notifies l by simp
        then show ?thesis using False i l by (simp add: conns_inv_def)
      next
        case True
        then have t: "t = upd_conn k (\<lambda>c. c\<lparr>notified := Suc (notified c)\<rparr>)
            (s\<lparr>detachChan := Suc (detachChan s), loop := Cancelling k\<rparr>)"
          using e Loop Notifies l by (auto split: if_splits)
        have "conn_inv ((conns s ! k)\<lparr>notified := Suc (notified (conns s ! k))\<rparr>)"
          using c [OF k] by (simp add: conn_inv_def returned_keepers_def may_have_failed_def)
        then show ?thesis
          using i k l t by (simp add: conns_inv_def nth_list_update may_have_failed_def)
      qed
    next
      case Cancels
      then obtain k where l: "loop s = Cancelling k"
        "t = upd_conn k (\<lambda>c. c\<lparr>conn_cancelled := True\<rparr>) (s\<lparr>loop := Selecting k\<rparr>)"
        using e Loop by (auto split: loop_pc.splits)
      have k: "k < length (conns s)" using x l(1) by (auto simp: index_inv_def)
      have "conn_inv ((conns s ! k)\<lparr>conn_cancelled := True\<rparr>)"
        using c [OF k] i l(1) by (simp add: conns_inv_def conn_inv_def returned_keepers_def may_have_failed_def)
      then show ?thesis using i k l by (simp add: conns_inv_def nth_list_update)
    qed (use i e in \<open>auto simp: conns_inv_def nth_append less_Suc_eq new_connection_inv
           split: if_splits loop_pc.splits\<close>)
  next
    case (Watch k answer)
    then obtain c' where w: "watch_conn (ctx_done s k) answer (conns s ! k) = Some c'" "k < length (conns s)"
      "conns t = (conns s)[k := c']" "loop t = loop s" "has_detachChan t = has_detachChan s"
      using e by (auto simp: watch_step_def split: if_splits option.splits)
    show ?thesis
      using w(5) watch_conn_inv [OF w(1) c [OF w(2)]] watch_conn_keeps [OF w(1)]
      by (intro conns_inv_update [OF i w(4,3)])
  next
    case (Keep k j d f)
    then obtain c' where w: "keep_conn (ctx_done s k) j d f (conns s ! k) = Some c'" "k < length (conns s)"
      "j < length (keepAlives (conns s ! k))" "conns t = (conns s)[k := c']" "loop t = loop s"
      "has_detachChan t = has_detachChan s"
      using e by (auto simp: keep_step_def split: if_splits option.splits)
    show ?thesis
      using w(6) keep_conn_inv [OF w(1,3) c [OF w(2)]] keep_conn_keeps [OF w(1)]
      by (intro conns_inv_update [OF i w(5,4)])
  qed (use i e in \<open>auto simp: conns_inv_def split: if_splits\<close>)
qed

section \<open>Guarantees\<close>


text \<open>
  Each connection's instructions are dealt with one at a time, in the order they were received,
  each exactly once, whatever happens to the connection in the meantime; at most the last one is
  still being dealt with.
\<close>

lemma instructions_in_order:
  assumes "egress_reachable s" and "k < length (conns s)"
  shows "received (conns s ! k) = handled (conns s ! k) @ at_hand (watch (conns s ! k))"
  using conns_inv_reachable [OF assms(1)] assms(2) by (simp add: conns_inv_def conn_inv_def)

text \<open>
  C31 No goroutine of a connection is ever stuck at reporting an error, even long after the loop
  has stopped reading, as long as the Ambassador sent at most nine \<^verbatim>\<open>Ready\<close> on the
  connection: the channel then has room for all the errors there can be.
\<close>

theorem errors_never_block:
  assumes "egress_reachable s" and "k < length (conns s)" and "readies (received (conns s ! k)) \<le> 9"
  shows "(\<forall>err answer. watch (conns s ! k) = WSend err \<longrightarrow> egress_next s (Watch k answer) \<noteq> None) \<and>
     (\<forall>err j d f. j < length (keepAlives (conns s ! k)) \<and> keepAlives (conns s ! k) ! j = KSend err \<longrightarrow>
        egress_next s (Keep k j d f) \<noteq> None)"
proof -
  let ?c = "conns s ! k"
  have c: "conn_inv ?c" using conns_inv_reachable [OF assms(1)] assms(2) by (simp add: conns_inv_def)
  have n: "length (keepAlives ?c) \<le> 9" using c assms(3) by (simp add: conn_inv_def)
  have le: "returned_keepers ?c \<le> length (keepAlives ?c)" by (simp add: returned_keepers_def)
  have "length (errChan ?c) < errChan_capacity" if "watch ?c = WSend err" for err
    using c n le that by (simp add: conn_inv_def errChan_capacity_def)
  moreover have "length (errChan ?c) < errChan_capacity"
    if "j < length (keepAlives ?c)" "keepAlives ?c ! j = KSend err" for j err
  proof -
    have "returned_keepers ?c < length (keepAlives ?c)"
      unfolding returned_keepers_def using that by (intro length_filter_less [of "keepAlives ?c ! j"] nth_mem) simp_all
    then show ?thesis using c n by (simp add: conn_inv_def errChan_capacity_def split: if_splits)
  qed
  ultimately show ?thesis using assms(2) by (auto simp: watch_step_def watch_conn_def keep_step_def keep_conn_def Let_def)
qed

definition attached_inv :: "egress \<Rightarrow> bool" where
  "attached_inv s \<longleftrightarrow>
     ((\<forall>k < length (conns s). readies (received (conns s ! k)) \<le> 1) \<longrightarrow> attached s \<longrightarrow> app_done s \<or>
        (\<exists>k. loop s = Selecting k \<and> \<not> conn_cancelled (conns s ! k)))"

lemma attached_inv_reachable: "egress_reachable s \<Longrightarrow> attached_inv s"
proof (erule egress.invariant_rule_with [where J = "\<lambda>s. conns_inv s \<and> open_inv s \<and> index_inv s"])
  fix s assume "egress_reachable s"
  then show "conns_inv s \<and> open_inv s \<and> index_inv s"
    using conns_inv_reachable open_inv_reachable index_inv_reachable by blast
next
  fix s assume "\<exists>b. s = started_egress b" then show "attached_inv s" by (auto simp: attached_inv_def started_egress_def)
next
  fix s e t assume i: "attached_inv s" and j: "conns_inv s \<and> open_inv s \<and> index_inv s"
    and e: "egress_next s e = Some t"
  show "attached_inv t"
  proof (cases e)
    case (Loop l)
    then show ?thesis
      using i e by (cases l)
        (auto simp: attached_inv_def nth_append received_update split: if_splits loop_pc.splits list.splits)
  next
    case (Watch k answer)
    then obtain c' where w: "watch_conn (ctx_done s k) answer (conns s ! k) = Some c'" "k < length (conns s)"
      "conns t = (conns s)[k := c']" "loop t = loop s" "app_done t = app_done s"
      "attached t \<longleftrightarrow> watch (conns s ! k) = WHandle Ready \<or> attached s"
      using e by (auto simp: watch_step_def split: if_splits option.splits)
    show ?thesis
      unfolding attached_inv_def
    proof (intro impI)
      assume r: "\<forall>k < length (conns t). readies (received (conns t ! k)) \<le> 1" and "attached t"
      have "readies (received (conns s ! m)) \<le> 1" if "m < length (conns s)" for m
        using r [rule_format, of m] that w(3) watch_conn_keeps(4) [OF w(1)] by (cases "m = k") auto
      then have rs: "\<forall>m < length (conns s). readies (received (conns s ! m)) \<le> 1" by blast
      have same: "conn_cancelled (conns t ! m) = conn_cancelled (conns s ! m)" for m
        using w(2,3) watch_conn_keeps(1) [OF w(1)] by (cases "m = k") simp_all
      have "app_done s \<or> (\<exists>k. loop s = Selecting k \<and> \<not> conn_cancelled (conns s ! k))"
      proof (cases "watch (conns s ! k) = WHandle Ready")
        case True
        have c: "conn_inv (conns s ! k)" using j w(2) by (simp add: conns_inv_def)
        then have "\<not> may_have_failed (conns s ! k)"
          using rs [rule_format, OF w(2)] True by (simp add: conn_inv_def may_have_failed_def)
        then show ?thesis using j w(2) c by (auto simp: open_inv_def conns_inv_def conn_inv_def)
      next
        case False
        then show ?thesis using i rs \<open>attached t\<close> w(6) by (simp add: attached_inv_def)
      qed
      then show "app_done t \<or> (\<exists>k. loop t = Selecting k \<and> \<not> conn_cancelled (conns t ! k))"
        by (simp add: w(4,5) same)
    qed
  next
    case (Keep k m d f)
    then obtain c' where w: "keep_conn (ctx_done s k) m d f (conns s ! k) = Some c'" "k < length (conns s)"
      "t = s\<lparr>conns := (conns s)[k := c']\<rparr>"
      using e by (auto simp: keep_step_def split: if_splits option.splits)
    have "conn_cancelled (conns t ! n) = conn_cancelled (conns s ! n)" "received (conns t ! n) = received (conns s ! n)" for n
      using w(2,3) keep_conn_keeps(1,3) [OF w(1)] by (cases "n = k"; simp)+
    then show ?thesis using i w(3) by (simp add: attached_inv_def)
  qed (use i e in \<open>auto simp: attached_inv_def split: if_splits\<close>)
qed

text \<open>
  The flag that lets metrics and log events through is right when the Ambassador announces
  itself ready at most once per connection: it is set only while the loop supervises a connection
  that has not been cancelled, or the Envoy is shutting down.
\<close>

lemma attached_only_when_connected:
  assumes "egress_reachable s" and "\<forall>k < length (conns s). readies (received (conns s ! k)) \<le> 1"
    and "attached s" and "\<not> app_done s"
  shows "\<exists>k. loop s = Selecting k \<and> \<not> conn_cancelled (conns s ! k)"
  using attached_inv_reachable [OF assms(1)] assms(2-4) by (simp add: attached_inv_def)

definition egress_steps :: "egress_event list" where
  "egress_steps =
     [Loop Attaches, Loop AttachSucceeds, Watch 0 (Inr Ready), Watch 0 (Inr Ready), Watch 0 (Inr Ready),
      Watch 0 (Inr Ready)]"

definition keepalive_failure :: "egress_event list" where
  "keepalive_failure =
     [Keep 0 0 False None, Keep 0 0 False (Some io_error), Keep 0 0 False None, Loop TakesError,
      Loop Notifies, Loop Cancels, Loop TakesDone]"

lemmas egress_run_defs =
  egress_steps_def keepalive_failure_def started_egress_def new_connection_def upd_conn_def watch_step_def
  watch_conn_def keep_step_def keep_conn_def errChan_capacity_def detachChan_capacity_def ctx_done_def Let_def

text \<open>One \<^verbatim>\<open>Ready\<close>, and the connection is up.\<close>

lemma egress_up:
  "\<exists>s. egress_run (started_egress True) egress_steps = Some s \<and> attached s \<and> \<not> app_done s \<and> loop s = Selecting 0 \<and>
     length (conns s) = 1 \<and> received (conns s ! 0) = [Ready] \<and> watch (conns s ! 0) = WRecv"
  by (simp add: egress_run_defs)

lemma egress_reached: "egress_run (started_egress True) es = Some t \<Longrightarrow> egress_reachable t"
  using egress_run_reachable egress_reachable.start by blast

lemma attached_only_when_connected_witness:
  "\<exists>s k. egress_run (started_egress True) egress_steps = Some s \<and> attached s \<and> loop s = Selecting k \<and>
     \<not> conn_cancelled (conns s ! k)"
proof -
  obtain s where s: "egress_run (started_egress True) egress_steps = Some s" "attached s" "\<not> app_done s"
    "length (conns s) = 1" "received (conns s ! 0) = [Ready]" using egress_up by blast
  then have "\<forall>k < length (conns s). readies (received (conns s ! k)) \<le> 1" by simp
  then show ?thesis using attached_only_when_connected [OF egress_reached [OF s(1)]] s by blast
qed

lemma instructions_in_order_witness:
  "\<exists>s. egress_run (started_egress True) egress_steps = Some s \<and> received (conns s ! 0) = [Ready] \<and>
     handled (conns s ! 0) = [Ready]"
proof -
  obtain s where s: "egress_run (started_egress True) egress_steps = Some s" "length (conns s) = 1"
    "received (conns s ! 0) = [Ready]" "watch (conns s ! 0) = WRecv" using egress_up by blast
  then show ?thesis using instructions_in_order [OF egress_reached [OF s(1)], of 0] by auto
qed

lemma egress_failed:
  "\<exists>s. egress_run (started_egress True) (egress_steps @ keepalive_failure) = Some s \<and> has_detachChan s \<and> \<not> app_done s \<and>
     loop s = Between \<and> length (conns s) = 1 \<and> \<not> attached s"
  by (simp add: egress_run_defs)


lemma errors_never_block_witness:
  "\<exists>s. egress_run (started_egress True) (egress_steps @ [Watch 0 (Inl io_error)]) = Some s \<and>
     egress_next s (Watch 0 (Inl io_error)) \<noteq> None"
proof -
  have "\<exists>s err. egress_run (started_egress True) (egress_steps @ [Watch 0 (Inl io_error)]) = Some s \<and>
      length (conns s) = 1 \<and> readies (received (conns s ! 0)) \<le> 9 \<and> watch (conns s ! 0) = WSend err"
    by (simp add: egress_run_defs)
  then obtain s err where s: "egress_run (started_egress True) (egress_steps @ [Watch 0 (Inl io_error)]) = Some s"
    "length (conns s) = 1" "readies (received (conns s ! 0)) \<le> 9" "watch (conns s ! 0) = WSend err" by blast
  then show ?thesis using errors_never_block [OF egress_reached [OF s(1)], of 0] by auto
qed

text \<open>
  With a second \<^verbatim>\<open>Ready\<close> on a connection that is not so: the goroutine that received it sets
  the flag after the loop has given the connection up, and metrics and log events pass the check
  while there is no connection to send them on.
\<close>

lemma attached_without_connection:
  "\<exists>s. egress_run (started_egress True)
        (egress_steps @ [Watch 0 (Inr Ready)] @ keepalive_failure @ [Watch 0 (Inr Ready)]) = Some s \<and>
     attached s \<and> loop s = Between \<and> \<not> app_done s"
  by (simp add: egress_run_defs)

end
