(* ===== verification/Go_Url.thy ===== *)
theory Go_Url
  imports Go_Strings
begin

text \<open>
  What the program uses of Go's package \<^verbatim>\<open>net/url\<close> (release 1.13, the one it is built with):
  \<^verbatim>\<open>url.Parse\<close>, \<^verbatim>\<open>ResolveReference\<close> and \<^verbatim>\<open>String\<close>, with the escaping of hosts, user information,
  paths and fragments. Of an error only the fact is kept, in one message for each kind.
\<close>

section \<open>Escaping\<close>

datatype url_encoding = EncodePath | EncodeHost | EncodeZone | EncodeUserPassword | EncodeFragment

definition is_lower :: "char \<Rightarrow> bool" where
  "is_lower c \<longleftrightarrow> 97 \<le> (of_char c :: nat) \<and> (of_char c :: nat) \<le> 122"

definition is_alpha :: "char \<Rightarrow> bool" where
  "is_alpha c \<longleftrightarrow> is_lower c \<or> (65 \<le> (of_char c :: nat) \<and> (of_char c :: nat) \<le> 90)"

definition shouldEscape :: "url_encoding \<Rightarrow> char \<Rightarrow> bool" where
  "shouldEscape mode c =
     (if is_alpha c \<or> is_digit c then False
      else if mode \<in> {EncodeHost, EncodeZone} \<and> c \<in> set (''!$&()*+,;=:[]<>'' @ [CHR 0x27, CHR 0x22]) then False
      else if c \<in> set ''-_.~'' then False
      else if c \<in> set ''$&+,/:;=?@'' then
        (case mode of
           EncodePath \<Rightarrow> c = CHR ''?''
         | EncodeUserPassword \<Rightarrow> c \<in> set ''@/?:''
         | EncodeFragment \<Rightarrow> False
         | _ \<Rightarrow> True)
      else if mode = EncodeFragment \<and> c \<in> set ''!()*'' then False
      else True)"

definition hex_digits :: string where "hex_digits = ''0123456789ABCDEF''"

definition escape_char :: "char \<Rightarrow> string" where
  "escape_char c = [CHR ''%'', hex_digits ! ((of_char c :: nat) div 16), hex_digits ! ((of_char c :: nat) mod 16)]"

definition escape :: "url_encoding \<Rightarrow> string \<Rightarrow> string" where
  "escape mode s = concat (map (\<lambda>c. if shouldEscape mode c then escape_char c else [c]) s)"

definition unhex :: "char \<Rightarrow> nat option" where
  "unhex c =
     (if is_digit c then Some (digit_val c)
      else if 97 \<le> (of_char c :: nat) \<and> (of_char c :: nat) \<le> 102 then Some (of_char c - 87)
      else if 65 \<le> (of_char c :: nat) \<and> (of_char c :: nat) \<le> 70 then Some (of_char c - 55)
      else None)"

definition escape_error :: go_error where "escape_error = ErrorString ''invalid URL escape''"

definition host_error :: go_error where "host_error = ErrorString ''invalid character in host name''"

fun unescape :: "url_encoding \<Rightarrow> string \<Rightarrow> string result" where
  "unescape mode [] = Inr []"
| "unescape mode (c # s) =
     (if c = CHR ''%'' then
        (case s of
           a # b # rest \<Rightarrow>
             (case (unhex a, unhex b) of
                (Some x, Some y) \<Rightarrow>
                  (let v = char_of (16 * x + y) in
                   if mode = EncodeHost \<and> x < 8 \<and> [a, b] \<noteq> ''25'' then Inl escape_error
                   else if mode = EncodeZone \<and> [a, b] \<noteq> ''25'' \<and> v \<noteq> CHR '' '' \<and> shouldEscape EncodeHost v
                   then Inl escape_error
                   else map_sum id (Cons v) (unescape mode rest))
              | _ \<Rightarrow> Inl escape_error)
         | _ \<Rightarrow> Inl escape_error)
      else if mode \<in> {EncodeHost, EncodeZone} \<and> (of_char c :: nat) < 128 \<and> shouldEscape mode c then Inl host_error
      else map_sum id (Cons c) (unescape mode s))"

section \<open>Cutting texts\<close>

text \<open>\<^verbatim>\<open>split\<close>: at the first \<open>c\<close>, which stays with the second part unless it is cut.\<close>

definition url_split :: "char \<Rightarrow> bool \<Rightarrow> string \<Rightarrow> string \<times> string" where
  "url_split c cutc s =
     (takeWhile (\<lambda>x. x \<noteq> c) s, (if cutc then tl else id) (dropWhile (\<lambda>x. x \<noteq> c) s))"

text \<open>What comes before the last \<open>c\<close>, and what from it on, if there is one.\<close>

definition split_last :: "char \<Rightarrow> string \<Rightarrow> (string \<times> string) option" where
  "split_last c s =
     (if c \<notin> set s then None
      else let tail = rev (takeWhile (\<lambda>x. x \<noteq> c) (rev s))
           in Some (take (length s - length tail - 1) s, c # tail))"

fun split_on :: "char \<Rightarrow> string \<Rightarrow> string list" where
  "split_on c [] = [[]]"
| "split_on c (x # s) = (if x = c then [] # split_on c s else (x # hd (split_on c s)) # tl (split_on c s))"

fun join :: "string \<Rightarrow> string list \<Rightarrow> string" where
  "join sep [] = []"
| "join sep [s] = s"
| "join sep (s # t # ss) = s @ sep @ join sep (t # ss)"

section \<open>URLs\<close>

record userinfo =
  username :: string
  password :: "string option"

record URL =
  Scheme :: string
  Opaque :: string
  User :: "userinfo option"
  Host :: string
  Path :: string
  RawPath :: string
  ForceQuery :: bool
  RawQuery :: string
  Fragment :: string

definition empty_URL :: URL where
  "empty_URL =
     \<lparr>Scheme = [], Opaque = [], User = None, Host = [], Path = [], RawPath = [], ForceQuery = False, RawQuery = [],
      Fragment = []\<rparr>"

subsection \<open>Parts\<close>

text \<open>\<^verbatim>\<open>getscheme\<close>: the scheme and the rest; the first character is not the one of \<open>seen\<close>.\<close>

fun getscheme_from :: "string \<Rightarrow> string \<Rightarrow> (string \<times> string) result" where
  "getscheme_from seen [] = Inr ([], seen)"
| "getscheme_from seen (c # s) =
     (if is_alpha c then getscheme_from (seen @ [c]) s
      else if is_digit c \<or> c \<in> set ''+-.'' then
        (if seen = [] then Inr ([], seen @ c # s) else getscheme_from (seen @ [c]) s)
      else if c = CHR '':'' then
        (if seen = [] then Inl (ErrorString ''missing protocol scheme'') else Inr (seen, s))
      else Inr ([], seen @ c # s))"

definition validOptionalPort :: "string \<Rightarrow> bool" where
  "validOptionalPort port \<longleftrightarrow> port = [] \<or> (hd port = CHR '':'' \<and> list_all is_digit (tl port))"

definition validUserinfo :: "string \<Rightarrow> bool" where
  "validUserinfo s \<longleftrightarrow>
     list_all (\<lambda>c. is_alpha c \<or> is_digit c \<or> c \<in> set (''-._:~!$&()*+,;=%@'' @ [CHR 0x27])) s"

definition port_error :: go_error where "port_error = ErrorString ''invalid port after host''"

text \<open>The parts of a host in brackets around the mark of a zone.\<close>

fun zone_split :: "string \<Rightarrow> (string \<times> string) option" where
  "zone_split [] = None"
| "zone_split (c # s) =
     (if HasPrefix (c # s) ''%25'' then Some ([], c # s) else map_option (map_prod (Cons c) id) (zone_split s))"

definition parseHost :: "string \<Rightarrow> string result" where
  "parseHost host =
     (if HasPrefix host ''['' then
        (case split_last (CHR '']'') host of
           None \<Rightarrow> Inl (ErrorString ''missing ']' in host'')
         | Some (front, from) \<Rightarrow>
             if \<not> validOptionalPort (tl from) then Inl port_error
             else
               (case zone_split front of
                  None \<Rightarrow> unescape EncodeHost host
                | Some (addr, zone) \<Rightarrow>
                    (case unescape EncodeHost addr of
                       Inl err \<Rightarrow> Inl err
                     | Inr host1 \<Rightarrow>
                         (case unescape EncodeZone zone of
                            Inl err \<Rightarrow> Inl err
                          | Inr host2 \<Rightarrow> map_sum id (\<lambda>host3. host1 @ host2 @ host3) (unescape EncodeHost from)))))
      else
        (case split_last (CHR '':'') host of
           None \<Rightarrow> unescape EncodeHost host
         | Some (_, colonPort) \<Rightarrow> if validOptionalPort colonPort then unescape EncodeHost host else Inl port_error))"

definition parse_userinfo :: "string \<Rightarrow> userinfo result" where
  "parse_userinfo s =
     (if \<not> validUserinfo s then Inl (ErrorString ''net/url: invalid userinfo'')
      else if CHR '':'' \<notin> set s then
        map_sum id (\<lambda>name. \<lparr>username = name, password = None\<rparr>) (unescape EncodeUserPassword s)
      else
        (let (name, pass) = url_split (CHR '':'') True s in
         case unescape EncodeUserPassword name of
           Inl err \<Rightarrow> Inl err
         | Inr name \<Rightarrow> map_sum id (\<lambda>pass. \<lparr>username = name, password = Some pass\<rparr>) (unescape EncodeUserPassword pass)))"

definition parseAuthority :: "string \<Rightarrow> (userinfo option \<times> string) result" where
  "parseAuthority authority =
     (case split_last (CHR ''@'') authority of
        None \<Rightarrow> map_sum id (Pair None) (parseHost authority)
      | Some (front, from) \<Rightarrow>
          (case parseHost (tl from) of
             Inl err \<Rightarrow> Inl err
           | Inr host \<Rightarrow> map_sum id (\<lambda>user. (Some user, host)) (parse_userinfo front)))"

definition setPath :: "string \<Rightarrow> URL \<Rightarrow> URL result" where
  "setPath p u =
     map_sum id (\<lambda>path. u\<lparr>Path := path, RawPath := (if p = escape EncodePath path then [] else p)\<rparr>)
       (unescape EncodePath p)"

definition validEncodedPath :: "string \<Rightarrow> bool" where
  "validEncodedPath s \<longleftrightarrow>
     list_all (\<lambda>c. c \<in> set (''!$&()*+,;=:@[]%'' @ [CHR 0x27]) \<or> \<not> shouldEscape EncodePath c) s"

definition EscapedPath :: "URL \<Rightarrow> string" where
  "EscapedPath u =
     (if RawPath u \<noteq> [] \<and> validEncodedPath (RawPath u) \<and> unescape EncodePath (RawPath u) = Inr (Path u) then RawPath u
      else if Path u = ''*'' then ''*''
      else escape EncodePath (Path u))"

subsection \<open>Parsing\<close>

definition has_ctl_byte :: "string \<Rightarrow> bool" where
  "has_ctl_byte s \<longleftrightarrow> list_ex (\<lambda>c. (of_char c :: nat) < 32 \<or> of_char c = (127 :: nat)) s"

definition colon_before_slash :: "string \<Rightarrow> bool" where
  "colon_before_slash s \<longleftrightarrow> (let seg = takeWhile (\<lambda>c. c \<noteq> CHR ''/'') s in CHR '':'' \<in> set seg)"

text \<open>\<^verbatim>\<open>parse\<close> without the fragment.\<close>

definition parse_url :: "string \<Rightarrow> URL result" where
  "parse_url rawurl =
     (if has_ctl_byte rawurl then Inl (ErrorString ''net/url: invalid control character in URL'')
      else if rawurl = ''*'' then Inr (empty_URL\<lparr>Path := ''*''\<rparr>)
      else case getscheme_from [] rawurl of
          Inl err \<Rightarrow> Inl err
        | Inr (scheme, rest) \<Rightarrow>
            (let scheme = ToLower scheme;
                 force = HasSuffix rest ''?'' \<and> count_list rest (CHR ''?'') = 1;
                 (rest, query) = (if force then (butlast rest, []) else url_split (CHR ''?'') True rest);
                 u = empty_URL\<lparr>Scheme := scheme, ForceQuery := force, RawQuery := query\<rparr>
             in if \<not> HasPrefix rest ''/'' \<and> scheme \<noteq> [] then Inr (u\<lparr>Opaque := rest\<rparr>)
                else if \<not> HasPrefix rest ''/'' \<and> colon_before_slash rest
                then Inl (ErrorString ''first path segment in URL cannot contain colon'')
                else if (scheme \<noteq> [] \<or> \<not> HasPrefix rest ''///'') \<and> HasPrefix rest ''//'' then
                  (let (authority, rest) = url_split (CHR ''/'') False (drop 2 rest) in
                   case parseAuthority authority of
                     Inl err \<Rightarrow> Inl err
                   | Inr (user, host) \<Rightarrow> setPath rest (u\<lparr>User := user, Host := host\<rparr>))
                else setPath rest u))"

definition url_Parse :: "string \<Rightarrow> URL result" where
  "url_Parse rawurl =
     (let (u, frag) = url_split (CHR ''#'') True rawurl in
      case parse_url u of
        Inl err \<Rightarrow> Inl (Wrapped ''parse'' err)
      | Inr url \<Rightarrow>
          if frag = [] then Inr url
          else wrap_result ''parse'' (map_sum id (\<lambda>f. url\<lparr>Fragment := f\<rparr>) (unescape EncodeFragment frag)))"

subsection \<open>Printing\<close>

definition Userinfo_String :: "userinfo \<Rightarrow> string" where
  "Userinfo_String ui =
     escape EncodeUserPassword (username ui) @
     (case password ui of None \<Rightarrow> [] | Some pass \<Rightarrow> '':'' @ escape EncodeUserPassword pass)"

definition authority_text :: "URL \<Rightarrow> string" where
  "authority_text u =
     (if Scheme u \<noteq> [] \<or> Host u \<noteq> [] \<or> User u \<noteq> None
      then (if Host u \<noteq> [] \<or> Path u \<noteq> [] \<or> User u \<noteq> None then ''//'' else []) @
           (case User u of None \<Rightarrow> [] | Some ui \<Rightarrow> Userinfo_String ui @ ''@'') @
           escape EncodeHost (Host u)
      else [])"

definition URL_String :: "URL \<Rightarrow> string" where
  "URL_String u =
     (let scheme = (if Scheme u = [] then [] else Scheme u @ '':'');
          path = EscapedPath u;
          start = scheme @ authority_text u @ (if path \<noteq> [] \<and> hd path \<noteq> CHR ''/'' \<and> Host u \<noteq> [] then ''/'' else [])
      in (if Opaque u \<noteq> [] then scheme @ Opaque u
          else start @ (if start = [] \<and> colon_before_slash path then ''./'' else []) @ path) @
         (if ForceQuery u \<or> RawQuery u \<noteq> [] then ''?'' @ RawQuery u else []) @
         (if Fragment u \<noteq> [] then ''#'' @ escape EncodeFragment (Fragment u) else []))"

subsection \<open>References\<close>

fun drop_dots :: "string list \<Rightarrow> string list \<Rightarrow> string list" where
  "drop_dots dst [] = dst"
| "drop_dots dst (elem # src) =
     (if elem = ''.'' then drop_dots dst src
      else if elem = ''..'' then drop_dots (butlast dst) src
      else drop_dots (dst @ [elem]) src)"

definition resolvePath :: "string \<Rightarrow> string \<Rightarrow> string" where
  "resolvePath base ref =
     (let full =
            (if ref = [] then base
             else if hd ref \<noteq> CHR ''/'' then (case split_last (CHR ''/'') base of None \<Rightarrow> [] | Some (dir, _) \<Rightarrow> dir @ ''/'') @ ref
             else ref)
      in if full = [] then []
         else
           (let src = split_on (CHR ''/'') full;
                dst = drop_dots [] src @ (if last src \<in> {''.'', ''..''} then [[]] else []);
                joined = join ''/'' dst
            in ''/'' @ (if HasPrefix joined ''/'' then tl joined else joined)))"

text \<open>\<^verbatim>\<open>setPath\<close> as a statement; its error is ignored, and leaves the URL as it was.\<close>

definition put_path :: "string \<Rightarrow> URL \<Rightarrow> URL" where
  "put_path p u = (case setPath p u of Inl _ \<Rightarrow> u | Inr u \<Rightarrow> u)"

definition ResolveReference :: "URL \<Rightarrow> URL \<Rightarrow> URL" where
  "ResolveReference u ref =
     (let url = (if Scheme ref = [] then ref\<lparr>Scheme := Scheme u\<rparr> else ref) in
      if Scheme ref \<noteq> [] \<or> Host ref \<noteq> [] \<or> User ref \<noteq> None then put_path (resolvePath (EscapedPath ref) []) url
      else if Opaque ref \<noteq> [] then url\<lparr>User := None, Host := [], Path := []\<rparr>
      else
        (let url =
               (if Path ref = [] \<and> RawQuery ref = []
                then url\<lparr>RawQuery := RawQuery u, Fragment := (if Fragment ref = [] then Fragment u else Fragment url)\<rparr>
                else url)
         in put_path (resolvePath (EscapedPath u) (EscapedPath ref)) (url\<lparr>Host := Host u, User := User u\<rparr>)))"

section \<open>Plain URLs\<close>

text \<open>Texts that are neither escaped nor taken apart.\<close>

definition host_char :: "char \<Rightarrow> bool" where
  "host_char c \<longleftrightarrow> is_alpha c \<or> is_digit c \<or> c \<in> set ''-.''"

definition path_char :: "char \<Rightarrow> bool" where
  "path_char c \<longleftrightarrow> is_alpha c \<or> is_digit c \<or> c \<in> set ''-_.~/''"

definition plain_url :: "string \<Rightarrow> string \<Rightarrow> string \<Rightarrow> string \<Rightarrow> bool" where
  "plain_url scheme host port path \<longleftrightarrow>
     scheme \<noteq> [] \<and> list_all is_lower scheme \<and> host \<noteq> [] \<and> list_all host_char host \<and>
     (port = [] \<or> (\<exists>ds. port = CHR '':'' # ds \<and> list_all is_digit ds)) \<and>
     (path = [] \<or> hd path = CHR ''/'') \<and> list_all path_char path"

lemma plain_chars:
  "is_lower c \<Longrightarrow> is_alpha c" "is_lower c \<Longrightarrow> lower_char c = c" "\<not> is_alpha (CHR '':'')"
  by (auto simp: is_lower_def is_alpha_def lower_char_def Let_def)

lemma url_split_absent: "c \<notin> set s \<Longrightarrow> url_split c cutc s = (s, [])"
proof -
  assume "c \<notin> set s"
  then have t: "takeWhile (\<lambda>x. x \<noteq> c) s = s" and d: "dropWhile (\<lambda>x. x \<noteq> c) s = []"
    by (auto simp: takeWhile_eq_all_conv dropWhile_eq_Nil_conv)
  show ?thesis by (simp only: url_split_def t d) simp
qed

lemma url_split_at:
  "c \<notin> set s \<Longrightarrow> r = [] \<or> hd r = c \<Longrightarrow> url_split c False (s @ r) = (s, r)"
  by (cases r) (auto simp: url_split_def takeWhile_append dropWhile_append)

lemma HasSuffix_absent: "c \<notin> set s \<Longrightarrow> \<not> HasSuffix s [c]"
  by (auto simp: HasSuffix_iff suffix_def)

lemma split_last_absent: "c \<notin> set s \<Longrightarrow> split_last c s = None"
  by (simp add: split_last_def)

lemma split_last_at: "c \<notin> set t \<Longrightarrow> split_last c (s @ c # t) = Some (s, c # t)"
  by (simp add: split_last_def Let_def takeWhile_append)

lemma getscheme_alpha:
  "list_all is_alpha s \<Longrightarrow> seen @ s \<noteq> [] \<Longrightarrow> getscheme_from seen (s @ CHR '':'' # r) = Inr (seen @ s, r)"
  by (induction s arbitrary: seen) (auto simp: plain_chars is_digit_def)

lemma unescape_id:
  "list_all (\<lambda>c. c \<noteq> CHR ''%'' \<and> \<not> shouldEscape mode c) s \<Longrightarrow> unescape mode s = Inr s"
  by (induction s) auto

lemma escape_id: "list_all (\<lambda>c. \<not> shouldEscape mode c) s \<Longrightarrow> escape mode s = s"
  by (induction s) (auto simp: escape_def)

lemma alpha_digit_not:
  "is_alpha c \<or> is_digit c \<Longrightarrow> c \<noteq> CHR ''%''" "is_alpha c \<or> is_digit c \<Longrightarrow> c \<noteq> CHR ''/''"
  "is_alpha c \<or> is_digit c \<Longrightarrow> c \<noteq> CHR '':''" "is_alpha c \<or> is_digit c \<Longrightarrow> c \<noteq> CHR ''@''"
  "is_alpha c \<or> is_digit c \<Longrightarrow> c \<noteq> CHR ''['' " "is_alpha c \<or> is_digit c \<Longrightarrow> c \<noteq> CHR ''?''"
  "is_alpha c \<or> is_digit c \<Longrightarrow> c \<noteq> CHR ''#''"
  by (auto simp: is_alpha_def is_lower_def is_digit_def)

lemma host_char_plain:
  assumes "host_char c"
  shows "c \<notin> set ''%/:@[?#''" and "\<not> shouldEscape EncodeHost c"
  using assms alpha_digit_not [of c] by (auto simp: host_char_def shouldEscape_def)

lemma host_port_chars:
  assumes "list_all host_char host" and "port = [] \<or> (\<exists>ds. port = CHR '':'' # ds \<and> list_all is_digit ds)"
    and "c \<in> set (host @ port)"
  shows "c \<notin> set ''%/@[?#''" and "\<not> shouldEscape EncodeHost c" and "host_char c \<or> c = CHR '':''"
proof -
  show c: "host_char c \<or> c = CHR '':''" using assms by (auto simp: list_all_iff host_char_def)
  then show "c \<notin> set ''%/@[?#''" using host_char_plain(1) [of c] by auto
  have "\<not> shouldEscape EncodeHost (CHR '':'')" by code_simp
  then show "\<not> shouldEscape EncodeHost c" using c host_char_plain(2) [of c] by auto
qed

lemma path_char_plain:
  assumes "path_char c"
  shows "c \<notin> set ''%:@[?#''" and "\<not> shouldEscape EncodePath c"
  using assms alpha_digit_not [of c] by (auto simp: path_char_def shouldEscape_def)

definition plain_ascii :: "char \<Rightarrow> bool" where
  "plain_ascii c \<longleftrightarrow> is_alpha c \<or> is_digit c \<or> c \<in> set '':/-_.~''"

lemma plain_ascii_not: "plain_ascii c \<Longrightarrow> c \<notin> set ''%@[?#*'' \<and> 32 \<le> (of_char c :: nat) \<and> of_char c \<noteq> (127 :: nat)"
  by (auto simp: plain_ascii_def is_alpha_def is_lower_def is_digit_def)

definition plain_URL :: "string \<Rightarrow> string \<Rightarrow> string \<Rightarrow> URL" where
  "plain_URL scheme authority path = empty_URL\<lparr>Scheme := scheme, Host := authority, Path := path\<rparr>"

lemma parse_plain_authority:
  assumes "host \<noteq> []" and "list_all host_char host" and "port = [] \<or> (\<exists>ds. port = CHR '':'' # ds \<and> list_all is_digit ds)"
  shows "parseAuthority (host @ port) = Inr (None, host @ port)"
    and "CHR ''/'' \<notin> set (host @ port)" and "escape EncodeHost (host @ port) = host @ port"
proof -
  note h = host_port_chars [OF assms(2,3)]
  have chars: "list_all (\<lambda>c. c \<noteq> CHR ''%'' \<and> \<not> shouldEscape EncodeHost c) (host @ port)"
    using h(1,2) by (simp add: list_all_iff)
  have no: "CHR ''@'' \<notin> set (host @ port)" "CHR ''/'' \<notin> set (host @ port)" "CHR ''['' \<notin> set (host @ port)"
    using h(1) by fastforce+
  have colon: "CHR '':'' \<notin> set host" using assms(2) host_char_plain(1) by (fastforce simp: list_all_iff)
  have u: "unescape EncodeHost (host @ port) = Inr (host @ port)" by (rule unescape_id [OF chars])
  have b: "\<not> HasPrefix (host @ port) ''[''" using no(3) assms(1) by (cases host) (auto simp: HasPrefix_def)
  have "parseHost (host @ port) = Inr (host @ port)"
  proof (cases "port = []")
    case True
    then show ?thesis using u b colon by (simp add: parseHost_def split_last_absent)
  next
    case False
    then obtain ds where "port = CHR '':'' # ds" "list_all is_digit ds" using assms(3) by blast
    moreover have "CHR '':'' \<notin> set ds" using calculation(2) by (auto simp: list_all_iff is_digit_def)
    ultimately show ?thesis using u b by (simp add: parseHost_def split_last_at validOptionalPort_def)
  qed
  then show "parseAuthority (host @ port) = Inr (None, host @ port)"
    by (simp add: parseAuthority_def split_last_absent [OF no(1)])
  show "CHR ''/'' \<notin> set (host @ port)" by (rule no(2))
  show "escape EncodeHost (host @ port) = host @ port" using chars by (intro escape_id) (auto simp: list_all_iff)
qed

lemma parse_plain_url:
  assumes "plain_url scheme host port path"
  shows "url_Parse (scheme @ ''://'' @ host @ port @ path) = Inr (plain_URL scheme (host @ port) path)"
proof -
  let ?rest = "''//'' @ host @ port @ path"
  have a: "parseAuthority (host @ port) = Inr (None, host @ port)" "CHR ''/'' \<notin> set (host @ port)"
    using parse_plain_authority [of host port] assms by (auto simp: plain_url_def)
  have plain: "list_all plain_ascii (scheme @ ''://'' @ host @ port @ path)"
    using assms by (auto simp: plain_url_def list_all_iff plain_ascii_def host_char_def path_char_def dest: plain_chars(1))
  define u where "u = scheme @ ''://'' @ host @ port @ path"
  have c: "c \<notin> set ''%@[?#*''" "32 \<le> (of_char c :: nat)" "of_char c \<noteq> (127 :: nat)" if "c \<in> set u" for c
    using plain plain_ascii_not [of c] that by (auto simp: list_all_iff u_def)
  have "CHR ''#'' \<notin> set u" "CHR ''?'' \<notin> set u" using c(1) by fastforce+
  moreover have "\<not> has_ctl_byte u" using c(2,3) by (auto simp: has_ctl_byte_def list_ex_iff not_less)
  ultimately have all: "CHR ''#'' \<notin> set (scheme @ ''://'' @ host @ port @ path)" "CHR ''?'' \<notin> set ?rest"
      "\<not> has_ctl_byte (scheme @ ''://'' @ host @ port @ path)"
    by (auto simp: u_def)
  have g: "getscheme_from [] (scheme @ ''://'' @ host @ port @ path) = Inr (scheme, ?rest)"
    using getscheme_alpha [of scheme "[]" ?rest] assms by (auto simp: plain_url_def list_all_iff plain_chars)
  have low: "ToLower scheme = scheme" using assms by (auto simp: plain_url_def ToLower_def list_all_iff plain_chars intro: map_idI)
  have q: "\<not> HasSuffix ?rest ''?''" by (rule HasSuffix_absent [OF all(2)])
  have s: "url_split (CHR ''/'') False (host @ port @ path) = (host @ port, path)"
    using url_split_at [OF a(2), of path] assms by (simp add: plain_url_def)
  have p: "unescape EncodePath path = Inr path" "escape EncodePath path = path"
    using assms path_char_plain by (auto simp: plain_url_def list_all_iff intro!: unescape_id escape_id)
  have star: "scheme @ ''://'' @ host @ port @ path \<noteq> ''*''" using assms by (cases scheme) (auto simp: plain_url_def)
  have "parse_url (scheme @ ''://'' @ host @ port @ path) = Inr (plain_URL scheme (host @ port) path)"
    unfolding parse_url_def
    using star all(3) assms
    by (simp only: g if_False sum.case prod.case low q url_split_absent [OF all(2)] Let_def simp_thms)
      (simp add: HasPrefix_def s a(1) setPath_def p plain_URL_def empty_URL_def plain_url_def)
  then show ?thesis by (simp only: url_Parse_def url_split_absent [OF all(1)] Let_def prod.case sum.case simp_thms if_True)
qed

end
