(* ===== verification/Auth.thy ===== *)
theory Auth
  imports Go_Struct Go_Url
begin

text \<open>
  Where the Envoy's certificates come from (package \<^verbatim>\<open>auth\<close>): files named in the configuration,
  or an authentication service. What the configuration, the file system, the service and the
  X.509 code of the standard library answer is an argument. Certificates are opaque.
\<close>

section \<open>Configuration and answers\<close>

record provided_files =
  Cert :: string
  Key :: string
  Ca :: string

record TlsConfig =
  Disabled :: bool
  Provided :: "provided_files option"
  AuthService :: "string option"

record http_request =
  req_Method :: string
  req_URL :: string
  req_Header :: "(string \<times> string) list"

record http_reply =
  StatusCode :: nat
  Status :: string
  Body :: string

type_synonym certificate = string
type_synonym cert_pool = string

record auth_env =
  tls_config :: "TlsConfig result"
  LoadX509KeyPair :: "string \<Rightarrow> string \<Rightarrow> certificate result"
  X509KeyPair :: "string \<Rightarrow> string \<Rightarrow> certificate result"
  read_ca :: "string \<Rightarrow> string result"
  AppendCertsFromPEM :: "string \<Rightarrow> bool"
  NewRequest :: "string \<Rightarrow> go_error option"
  client_Do :: "http_request \<Rightarrow> http_reply result"
  AuthToken :: string

section \<open>Files\<close>

definition load_pool :: "auth_env \<Rightarrow> string \<Rightarrow> cert_pool result" where
  "load_pool env pem =
     (if AppendCertsFromPEM env pem then Inr pem else Inl (ErrorString ''failed to process CA cert''))"

definition Preallocated_ProvideCertificates :: "auth_env \<Rightarrow> provided_files \<Rightarrow> (certificate \<times> cert_pool) result" where
  "Preallocated_ProvideCertificates env files =
     (case LoadX509KeyPair env (Cert files) (Key files) of
        Inl err \<Rightarrow> Inl (Wrapped ''failed to load certificates'' err)
      | Inr certificate \<Rightarrow>
          (case read_ca env (Ca files) of
             Inl err \<Rightarrow> Inl (Wrapped ''failed to read ca cert'' err)
           | Inr bs \<Rightarrow> map_sum id (Pair certificate) (load_pool env bs)))"

section \<open>The authentication service\<close>

record authServiceResponse =
  as_Certificate :: string
  as_PrivateKey :: string
  as_IssuingCACertificate :: string

definition store_response_field :: "string \<times> gval \<Rightarrow> authServiceResponse \<Rightarrow> authServiceResponse result" where
  "store_response_field kv r =
     (let key = fold_key (fst kv); v = snd kv in
      if key = ''certificate'' then map_sum id (\<lambda>x. r\<lparr>as_Certificate := x\<rparr>) (store_string v (as_Certificate r))
      else if key = ''privatekey'' then map_sum id (\<lambda>x. r\<lparr>as_PrivateKey := x\<rparr>) (store_string v (as_PrivateKey r))
      else if key = ''issuingcacertificate'' then
        map_sum id (\<lambda>x. r\<lparr>as_IssuingCACertificate := x\<rparr>) (store_string v (as_IssuingCACertificate r))
      else Inr r)"

definition decode_response :: "string \<Rightarrow> authServiceResponse result" where
  "decode_response body =
     decode_struct False store_response_field body
       \<lparr>as_Certificate = [], as_PrivateKey = [], as_IssuingCACertificate = []\<rparr>"

definition loadFromResponse :: "auth_env \<Rightarrow> authServiceResponse \<Rightarrow> (certificate \<times> cert_pool) result" where
  "loadFromResponse env response =
     (case X509KeyPair env (as_Certificate response) (as_PrivateKey response) of
        Inl err \<Rightarrow> Inl (Wrapped ''failed to load certificates'' err)
      | Inr certificate \<Rightarrow> map_sum id (Pair certificate) (load_pool env (as_IssuingCACertificate response)))"

definition AppendUrlPath :: "string \<Rightarrow> string \<Rightarrow> string result" where
  "AppendUrlPath baseUrlStr pathStr =
     (case url_Parse baseUrlStr of
        Inl err \<Rightarrow> Inl (Wrapped ''failed to parse base URL'' err)
      | Inr baseUrl \<Rightarrow>
          (case url_Parse pathStr of
             Inl err \<Rightarrow> Inl (Wrapped ''failed to parse relative URL'' err)
           | Inr relUrl \<Rightarrow> Inr (URL_String (ResolveReference baseUrl relUrl))))"

definition auth_request :: "auth_env \<Rightarrow> string \<Rightarrow> http_request" where
  "auth_request env fullUrl =
     \<lparr>req_Method = ''GET'', req_URL = fullUrl,
      req_Header = [(''Authorization'', ''Bearer '' @ AuthToken env), (''Accept'', ''application/json'')]\<rparr>"

definition show_bool :: "bool \<Rightarrow> string" where
  "show_bool b = (if b then ''true'' else ''false'')"

definition AuthService_ProvideCertificates :: "auth_env \<Rightarrow> string \<Rightarrow> (certificate \<times> cert_pool) result" where
  "AuthService_ProvideCertificates env url =
     (case AppendUrlPath url ''/v1.0/cert'' of
        Inl err \<Rightarrow> Inl (Wrapped ''failed to build request url'' err)
      | Inr fullUrl \<Rightarrow>
          (case NewRequest env fullUrl of
             Some err \<Rightarrow> Inl (Wrapped ''failed to prepare auth service request'' err)
           | None \<Rightarrow>
               (case client_Do env (auth_request env fullUrl) of
                  Inl err \<Rightarrow> Inl (Wrapped ''failure during auth service request'' err)
                | Inr httpResp \<Rightarrow>
                    if StatusCode httpResp \<noteq> 200
                    then Inl (ErrorString (''http request to auth service failed: '' @ Status httpResp @ '': '' @ Body httpResp))
                    else
                      (case decode_response (Body httpResp) of
                         Inl err \<Rightarrow> Inl (Wrapped ''failed to decode auth service response'' err)
                       | Inr resp \<Rightarrow>
                           if as_Certificate resp = [] \<or> as_PrivateKey resp = [] \<or> as_IssuingCACertificate resp = []
                           then Inl (ErrorString (''auth service response was missing a required field: cert='' @
                                  show_bool (as_Certificate resp \<noteq> []) @ '', key='' @
                                  show_bool (as_PrivateKey resp \<noteq> []) @ '', ca='' @
                                  show_bool (as_IssuingCACertificate resp \<noteq> [])))
                           else loadFromResponse env resp))))"

definition LoadCertificates :: "auth_env \<Rightarrow> (certificate \<times> cert_pool) result" where
  "LoadCertificates env =
     (case tls_config env of
        Inl err \<Rightarrow> Inl (Wrapped ''failed to load tls configuration'' err)
      | Inr tlsConfig \<Rightarrow>
          (case Provided tlsConfig of
             Some files \<Rightarrow> Preallocated_ProvideCertificates env files
           | None \<Rightarrow>
               (case AuthService tlsConfig of
                  Some url \<Rightarrow> AuthService_ProvideCertificates env url
                | None \<Rightarrow> Inl (ErrorString ''missing specific tls provider configuration''))))"

section \<open>Which certificates are loaded\<close>

text \<open>The texts a successful load was made from.\<close>

definition from_files :: "auth_env \<Rightarrow> provided_files \<Rightarrow> certificate \<Rightarrow> cert_pool \<Rightarrow> bool" where
  "from_files env files certificate pool \<longleftrightarrow>
     LoadX509KeyPair env (Cert files) (Key files) = Inr certificate \<and> read_ca env (Ca files) = Inr pool \<and>
     AppendCertsFromPEM env pool"

definition from_service :: "auth_env \<Rightarrow> string \<Rightarrow> certificate \<Rightarrow> cert_pool \<Rightarrow> bool" where
  "from_service env url certificate pool \<longleftrightarrow>
     (\<exists>fullUrl reply resp.
        AppendUrlPath url ''/v1.0/cert'' = Inr fullUrl \<and> NewRequest env fullUrl = None \<and>
        client_Do env (auth_request env fullUrl) = Inr reply \<and> StatusCode reply = 200 \<and>
        decode_response (Body reply) = Inr resp \<and>
        as_Certificate resp \<noteq> [] \<and> as_PrivateKey resp \<noteq> [] \<and> as_IssuingCACertificate resp = pool \<and> pool \<noteq> [] \<and>
        X509KeyPair env (as_Certificate resp) (as_PrivateKey resp) = Inr certificate \<and> AppendCertsFromPEM env pool)"

lemma Preallocated_iff:
  "Preallocated_ProvideCertificates env files = Inr (certificate, pool) \<longleftrightarrow> from_files env files certificate pool"
  by (auto simp: Preallocated_ProvideCertificates_def load_pool_def from_files_def map_sum_def split: sum.splits if_splits)

lemma AuthService_iff:
  "AuthService_ProvideCertificates env url = Inr (certificate, pool) \<longleftrightarrow> from_service env url certificate pool"
  unfolding AuthService_ProvideCertificates_def from_service_def
  by (auto simp: loadFromResponse_def load_pool_def map_sum_def split: sum.splits option.splits if_splits)

text \<open>
  Certificates are loaded in exactly two ways: from the configured files whenever any are
  configured, the service being asked only when there are none; and from the service only when it
  answers 200 with a certificate, a key and an authority that are all present and usable. The
  authority trusted afterwards is the configured one, or the one the service sent.
\<close>

lemma LoadCertificates_iff:
  "LoadCertificates env = Inr (certificate, pool) \<longleftrightarrow>
     (\<exists>cfg. tls_config env = Inr cfg \<and>
        (case Provided cfg of
           Some files \<Rightarrow> from_files env files certificate pool
         | None \<Rightarrow>
             (case AuthService cfg of Some url \<Rightarrow> from_service env url certificate pool | None \<Rightarrow> False)))"
  by (auto simp: LoadCertificates_def Preallocated_iff AuthService_iff split: sum.splits option.splits)

section \<open>The request\<close>

text \<open>The cases of the program's own test of \<^verbatim>\<open>AppendUrlPath\<close>, and what becomes of an address without a
  scheme.\<close>

lemma AppendUrlPath_tests:
  "AppendUrlPath ''http://localhost:8080'' ''/one/two'' = Inr ''http://localhost:8080/one/two''"
  "AppendUrlPath ''http://localhost:8080'' ''one/two'' = Inr ''http://localhost:8080/one/two''"
  "AppendUrlPath ''http://localhost:8080/here'' ''one/two'' = Inr ''http://localhost:8080/one/two''"
  "AppendUrlPath ''http://localhost:8080/here/'' ''one/two'' = Inr ''http://localhost:8080/here/one/two''"
  "AppendUrlPath ''http://localhost:8080/here'' ''/one/two'' = Inr ''http://localhost:8080/one/two''"
  "AppendUrlPath ''localhost:8080'' ''/one/two'' = Inr ''localhost:///one/two''"
  by code_simp+

lemma AppendUrlPath_cert:
  assumes "plain_url scheme host port path"
  shows "AppendUrlPath (scheme @ ''://'' @ host @ port @ path) ''/v1.0/cert'' =
    Inr (scheme @ ''://'' @ host @ port @ ''/v1.0/cert'')"
proof -
  let ?cert = "empty_URL\<lparr>Path := ''/v1.0/cert''\<rparr>" and ?u = "plain_URL scheme (host @ port) ''/v1.0/cert''"
  have r: "url_Parse ''/v1.0/cert'' = Inr ?cert" "EscapedPath ?cert = ''/v1.0/cert''"
      "unescape EncodePath ''/v1.0/cert'' = Inr ''/v1.0/cert''" "escape EncodePath ''/v1.0/cert'' = ''/v1.0/cert''"
    by code_simp+
  have res: "resolvePath b ''/v1.0/cert'' = ''/v1.0/cert''" for b
    by (simp add: resolvePath_def Let_def HasPrefix_def)
  have e: "escape EncodeHost (host @ port) = host @ port" "host \<noteq> []" "scheme \<noteq> []"
    using assms parse_plain_authority(3) [of host port] by (auto simp: plain_url_def)
  have ref: "ResolveReference (plain_URL scheme (host @ port) path) ?cert = ?u"
    using r by (simp add: ResolveReference_def Let_def res put_path_def setPath_def plain_URL_def empty_URL_def)
  have "URL_String ?u = scheme @ ''://'' @ host @ port @ ''/v1.0/cert''"
    using e r(4) by (simp add: URL_String_def authority_text_def EscapedPath_def plain_URL_def empty_URL_def Let_def)
  then show ?thesis by (simp only: AppendUrlPath_def parse_plain_url [OF assms] r(1) ref sum.case)
qed

lemma from_service_at:
  "AppendUrlPath url ''/v1.0/cert'' = Inr full \<Longrightarrow> from_service env url certificate pool \<longleftrightarrow>
     NewRequest env full = None \<and>
     (\<exists>reply resp.
        client_Do env (auth_request env full) = Inr reply \<and>
        StatusCode reply = 200 \<and> decode_response (Body reply) = Inr resp \<and>
        as_Certificate resp \<noteq> [] \<and> as_PrivateKey resp \<noteq> [] \<and> as_IssuingCACertificate resp = pool \<and> pool \<noteq> [] \<and>
        X509KeyPair env (as_Certificate resp) (as_PrivateKey resp) = Inr certificate \<and> AppendCertsFromPEM env pool)"
  by (auto simp: from_service_def)

text \<open>
  C37 With an authentication service configured by an address \<^verbatim>\<open>scheme://host:port/path\<close> the token goes
  to that scheme, host and port, to the path \<^verbatim>\<open>/v1.0/cert\<close> whatever the configured path is; and the
  certificates are loaded exactly when the answer to that one request has status 200 and holds
  a certificate, a key that fits it and an authority.
\<close>

theorem auth_service_request:
  assumes "tls_config env = Inr cfg" and "Provided cfg = None"
    and "AuthService cfg = Some (scheme @ ''://'' @ host @ port @ path)" and "plain_url scheme host port path"
  shows "LoadCertificates env = Inr (certificate, pool) \<longleftrightarrow>
    (let url = scheme @ ''://'' @ host @ port @ ''/v1.0/cert'' in
     NewRequest env url = None \<and>
     (\<exists>reply resp.
        client_Do env
          \<lparr>req_Method = ''GET'', req_URL = url,
           req_Header = [(''Authorization'', ''Bearer '' @ AuthToken env), (''Accept'', ''application/json'')]\<rparr> = Inr reply \<and>
        StatusCode reply = 200 \<and> decode_response (Body reply) = Inr resp \<and>
        as_Certificate resp \<noteq> [] \<and> as_PrivateKey resp \<noteq> [] \<and> as_IssuingCACertificate resp = pool \<and> pool \<noteq> [] \<and>
        X509KeyPair env (as_Certificate resp) (as_PrivateKey resp) = Inr certificate \<and> AppendCertsFromPEM env pool))"
proof -
  have "LoadCertificates env = Inr (certificate, pool) \<longleftrightarrow>
      from_service env (scheme @ ''://'' @ host @ port @ path) certificate pool"
    using assms(1-3) by (simp add: LoadCertificates_iff)
  then show ?thesis
    by (simp only: from_service_at [OF AppendUrlPath_cert [OF assms(4)]] auth_request_def Let_def)
qed

definition sample_service :: auth_env where
  "sample_service =
     \<lparr>tls_config = Inr \<lparr>Disabled = False, Provided = None, AuthService = Some ''https://auth.example.com:8443/prod''\<rparr>,
      LoadX509KeyPair = (\<lambda>_ _. Inl (ErrorString ''no file'')), X509KeyPair = (\<lambda>cert key. Inr (cert @ key)),
      read_ca = (\<lambda>_. Inl (ErrorString ''no file'')), AppendCertsFromPEM = (\<lambda>_. True), NewRequest = (\<lambda>_. None),
      client_Do = (\<lambda>r.
        if r = \<lparr>req_Method = ''GET'', req_URL = ''https://auth.example.com:8443/v1.0/cert'',
            req_Header = [(''Authorization'', ''Bearer t0''), (''Accept'', ''application/json'')]\<rparr>
        then Inr \<lparr>StatusCode = 200, Status = ''200 OK'',
            Body = ''{'' @ quote_json ''certificate'' @ '':'' @ quote_json ''C'' @ '','' @ quote_json ''privateKey'' @ '':'' @
              quote_json ''K'' @ '','' @ quote_json ''issuingCaCertificate'' @ '':'' @ quote_json ''A'' @ ''}''\<rparr>
        else Inl (ErrorString ''refused'')),
      AuthToken = ''t0''\<rparr>"

lemma auth_service_request_witness:
  "LoadCertificates sample_service = Inr (''CK'', ''A'')"
proof -
  have d: "decode_response (''{'' @ quote_json ''certificate'' @ '':'' @ quote_json ''C'' @ '','' @ quote_json ''privateKey'' @
      '':'' @ quote_json ''K'' @ '','' @ quote_json ''issuingCaCertificate'' @ '':'' @ quote_json ''A'' @ ''}'') =
      Inr \<lparr>as_Certificate = ''C'', as_PrivateKey = ''K'', as_IssuingCACertificate = ''A''\<rparr>"
    by code_simp
  have "list_all is_digit ''8443''" by code_simp
  then have port: "\<exists>ds. '':8443'' = CHR '':'' # ds \<and> list_all is_digit ds" by blast
  have "''https'' \<noteq> [] \<and> list_all is_lower ''https'' \<and> list_all host_char ''auth.example.com'' \<and> list_all path_char ''/prod''"
    by code_simp
  then have p: "plain_url ''https'' ''auth.example.com'' '':8443'' ''/prod''" using port by (simp add: plain_url_def)
  show ?thesis
    using auth_service_request [where scheme = "''https''" and host = "''auth.example.com''" and port = "'':8443''"
        and path = "''/prod''" and env = sample_service, OF _ _ _ p]
    by (simp add: sample_service_def d [simplified])
qed

end
