(* ===== verification/Egress_Setup.thy ===== *)
theory Egress_Setup
  imports Egress_Connection Auth Ingest
begin

text \<open>
  How an Envoy is put together (\<^verbatim>\<open>cmd/run.go\<close>, \<^verbatim>\<open>cmd/detached.go\<close>), what a connection to an
  Ambassador is made with and what is posted on it (\<^verbatim>\<open>ambassador/connection.go\<close>), and the
  detached mode, where instructions come from a file and everything is printed
  (\<^verbatim>\<open>ambassador/detached_runner.go\<close>, \<^verbatim>\<open>ambassador/stdout_egress.go\<close>).
\<close>

section \<open>Making a connection\<close>

datatype dial_option = WithInsecure | WithTransportCredentials certificate cert_pool

text \<open>\<open>grpcTlsDialOption\<close> may be nil.\<close>

record StandardEgressConnection =
  TlsDisabled :: bool
  grpcTlsDialOption :: "dial_option option"
  egress_labels :: "string \<rightharpoonup> string"
  resourceId :: string

definition loadTlsDialOption :: "auth_env \<Rightarrow> bool \<Rightarrow> dial_option result" where
  "loadTlsDialOption env tlsDisabled =
     (if tlsDisabled then Inr WithInsecure
      else case LoadCertificates env of
          Inl err \<Rightarrow> Inl err
        | Inr (certificate, certPool) \<Rightarrow> Inr (WithTransportCredentials certificate certPool))"

record egress_config =
  cfg_resourceId :: string
  cfg_tlsDisabled :: bool
  cfg_zone :: string
  cfg_labels :: "(string \<times> string) list"

definition NewEgressConnection :: "egress_config \<Rightarrow> auth_env \<Rightarrow> host \<Rightarrow> StandardEgressConnection result" where
  "NewEgressConnection cfg env h =
     (if cfg_resourceId cfg = [] then Inl (ErrorString ''Envoy configuration is missing resource_id'')
      else case loadTlsDialOption env (cfg_tlsDisabled cfg) of
          Inl err \<Rightarrow> Inl err
        | Inr opt \<Rightarrow>
            (case ComputeLabels h (cfg_labels cfg) of
               Inl err \<Rightarrow> Inl err
             | Inr ls \<Rightarrow>
                 Inr \<lparr>TlsDisabled = cfg_tlsDisabled cfg, grpcTlsDialOption = Some opt, egress_labels = ls,
                      resourceId = cfg_resourceId cfg\<rparr>))"

text \<open>The function told of each failed attempt: an expired certificate has the certificates loaded
  again. A failure to do so leaves no option at all.\<close>

definition attempt_failed :: "auth_env \<Rightarrow> go_error \<Rightarrow> StandardEgressConnection \<Rightarrow> StandardEgressConnection" where
  "attempt_failed env err c =
     (if Cause err \<noteq> err \<and> Contains (Error (Cause err)) ''tls: expired certificate''
      then (case loadTlsDialOption env (TlsDisabled c) of
              Inl loadErr \<Rightarrow> c\<lparr>grpcTlsDialOption := None\<rparr>
            | Inr opt \<Rightarrow> c\<lparr>grpcTlsDialOption := Some opt\<rparr>)
      else c)"

lemma failed_reload:
  assumes "Cause err \<noteq> err" and "Contains (Error (Cause err)) ''tls: expired certificate''"
    and "\<not> TlsDisabled c" and "LoadCertificates env = Inl loadErr"
  shows "grpcTlsDialOption (attempt_failed env err c) = None"
  using assms by (simp add: attempt_failed_def loadTlsDialOption_def)

text \<open>The start of \<^verbatim>\<open>attach\<close>: dialing with IPv6, then with IPv4, then announcing the Envoy.
  \<open>dial\<close> is \<^verbatim>\<open>grpc.DialContext\<close> for a network.\<close>

record EnvoySummary =
  es_SupportedAgents :: "AgentType list"
  es_Labels :: "string \<rightharpoonup> string"
  es_ResourceId :: string
  es_Zone :: string

definition dialNetwork ::
  "(string \<Rightarrow> dial_option option \<Rightarrow> go_error option) \<Rightarrow> StandardEgressConnection \<Rightarrow> string \<Rightarrow> go_error option" where
  "dialNetwork dial c network = dial network (grpcTlsDialOption c)"

definition envoySummary :: "egress_config \<Rightarrow> AgentType list \<Rightarrow> StandardEgressConnection \<Rightarrow> EnvoySummary" where
  "envoySummary cfg supportedAgents c =
     \<lparr>es_SupportedAgents = supportedAgents, es_Labels = egress_labels c, es_ResourceId = resourceId c,
      es_Zone = cfg_zone cfg\<rparr>"

definition attach_opening ::
  "(string \<Rightarrow> dial_option option \<Rightarrow> go_error option) \<Rightarrow> (EnvoySummary \<Rightarrow> go_error option) \<Rightarrow> egress_config \<Rightarrow>
   AgentType list \<Rightarrow> StandardEgressConnection \<Rightarrow> go_error option" where
  "attach_opening dial attachEnvoy cfg supportedAgents c =
     (case (case dialNetwork dial c ''tcp6'' of None \<Rightarrow> None | Some _ \<Rightarrow> dialNetwork dial c ''tcp4'') of
        Some err \<Rightarrow> Some (Wrapped ''failed to dial Ambassador'' err)
      | None \<Rightarrow>
          (case attachEnvoy (envoySummary cfg supportedAgents c) of
             Some err \<Rightarrow> Some (Wrapped ''failed to attach Envoy'' err)
           | None \<Rightarrow> None))"

section \<open>Posting\<close>

datatype post = LogEventPosted LogEvent | MetricPosted NameTagValueMetric | ResultsPosted TestMonitorResults

text \<open>The calls made; their errors are only logged.\<close>

definition PostLogEvent :: "egress \<Rightarrow> AgentType \<Rightarrow> string \<Rightarrow> post list" where
  "PostLogEvent s agentType jsonContent =
     (if \<not> attached s then []
      else [LogEventPosted \<lparr>log_agentType = agentType, log_jsonContent = jsonContent\<rparr>])"

definition PostMetric :: "egress \<Rightarrow> NameTagValueMetric \<Rightarrow> post list" where
  "PostMetric s metric = (if \<not> attached s then [] else [MetricPosted metric])"

definition PostTestMonitorResults :: "TestMonitorResults \<Rightarrow> post list" where
  "PostTestMonitorResults results = [ResultsPosted results]"

definition processTestMonitor :: "monitor_env \<Rightarrow> EnvoyInstructionTestMonitor \<Rightarrow> world \<Rightarrow> post list" where
  "processTestMonitor me testMonitor w =
     (case ProcessTestMonitor me testMonitor w of
        Some results \<Rightarrow> PostTestMonitorResults results
      | None \<Rightarrow> [])"

text \<open>The stand-in of the detached mode prints; \<open>marshal\<close> is the JSON of a message, empty when it
  fails.\<close>

definition stdout_PostLogEvent :: "AgentType \<Rightarrow> string \<Rightarrow> string" where
  "stdout_PostLogEvent agentType jsonContent = jsonContent @ newline"

definition stdout_PostMetric :: "(NameTagValueMetric \<Rightarrow> string result) \<Rightarrow> NameTagValueMetric \<Rightarrow> string" where
  "stdout_PostMetric marshal metric =
     (case marshal metric of Inl err \<Rightarrow> [] | Inr content \<Rightarrow> content) @ newline"

definition stdout_PostTestMonitorResults :: "(TestMonitorResults \<Rightarrow> string result) \<Rightarrow> TestMonitorResults \<Rightarrow> string" where
  "stdout_PostTestMonitorResults marshal results =
     (case marshal results of Inl err \<Rightarrow> [] | Inr content \<Rightarrow> content) @ newline"

section \<open>Instructions from a file\<close>

record instruction_env =
  ie_router :: router_env
  ie_monitor :: monitor_env

text \<open>The loop of \<^verbatim>\<open>Load\<close>; an Envoy that has gone down goes no further.\<close>

definition detached_instruction :: "instruction_env \<Rightarrow> EnvoyInstruction \<Rightarrow> world \<Rightarrow> world" where
  "detached_instruction ie i w =
     (if wdown w then w
      else case i of
          Install install \<Rightarrow> ProcessInstall (ie_router ie) install w
        | Configure configure \<Rightarrow> ProcessConfigure (renv (ie_router ie)) configure w
        | TestMonitor testMonitor \<Rightarrow> w
        | _ \<Rightarrow> w)"

text \<open>\<open>read_file\<close> opens and reads, \<open>unmarshal\<close> is \<^verbatim>\<open>jsonpb\<close>.\<close>

definition DetachedRunner_Load ::
  "(string \<Rightarrow> string result) \<Rightarrow> (string \<Rightarrow> EnvoyInstruction list result) \<Rightarrow> (nat \<Rightarrow> instruction_env) \<Rightarrow> string \<Rightarrow>
   world \<Rightarrow> go_error option \<times> world" where
  "DetachedRunner_Load open_file unmarshal env instructionsFilePath w =
     (case open_file instructionsFilePath of
        Inl err \<Rightarrow> (Some (Wrapped ''Unable to open instructions file'' err), w)
      | Inr content \<Rightarrow>
          (case unmarshal content of
             Inl err \<Rightarrow> (Some (Wrapped ''Unable to unmarshal instructions'' err), w)
           | Inr instructions \<Rightarrow>
               if length instructions = 0 then (Some (ErrorString ''Instructions file was empty''), w)
               else (None, fold (\<lambda>(n, i). detached_instruction (env n) i) (enumerate 0 instructions) w)))"

text \<open>The example printed when the file does not give any instructions; no value: the program ends
  because it cannot be encoded.\<close>

definition example_content :: string where
  "example_content =
     ''{'' @ quote_json ''type'' @ '': '' @ quote_json ''cpu'' @ '', '' @ quote_json ''percpu'' @ '': false, '' @
     quote_json ''totalcpu'' @ '': true}''"

definition exampleDetachedInstructions :: "EnvoyInstruction list" where
  "exampleDetachedInstructions =
     [Install \<lparr>inst_agentType = TELEGRAF, inst_version = ''1.11.0'',
        inst_url = ''https://homebrew.bintray.com/bottles/telegraf-1.11.0.high_sierra.bottle.tar.gz'',
        inst_exe = ''telegraf/1.11.0/bin/telegraf''\<rparr>,
      Configure \<lparr>conf_agentType = TELEGRAF,
        conf_operations =
          [\<lparr>op_id = ''monitor-1'', op_type = CREATE, op_content = example_content,
            op_extraLabels = [(''detached'', ''true'')], op_interval = 10\<rparr>]\<rparr>]"

definition showExampleDetachedInstructions :: "(EnvoyInstruction list \<Rightarrow> string result) \<Rightarrow> string option" where
  "showExampleDetachedInstructions marshal =
     (case marshal exampleDetachedInstructions of Inl err \<Rightarrow> None | Inr output \<Rightarrow> Some (output @ newline))"

text \<open>A file made from the example is carried out.\<close>

lemma example_accepted:
  assumes "open_file f = Inr content" and "unmarshal content = Inr exampleDetachedInstructions"
  shows "DetachedRunner_Load open_file unmarshal env f w =
    (None, fold (\<lambda>(n, i). detached_instruction (env n) i) (enumerate 0 exampleDetachedInstructions) w)"
  using assms by (simp add: DetachedRunner_Load_def exampleDetachedInstructions_def)

lemma example_content_decoded:
  "raw_object example_content = [(''type'', GString ''cpu''), (''percpu'', GBool False), (''totalcpu'', GBool True)]"
  by code_simp

end
