(* ===== verification/Envoy_Commands.thy ===== *)
theory Envoy_Commands
  imports Egress_Setup Perf_Test
begin

text \<open>
  The commands of the program (package \<^verbatim>\<open>cmd\<close>): how \<^verbatim>\<open>run\<close> and \<^verbatim>\<open>detached\<close> put an Envoy
  together, how an interrupt ends it, and the load generator \<^verbatim>\<open>stress-connections\<close>. The
  configuration each part reads is an argument.
\<close>

section \<open>The ingestors\<close>

text \<open>They register themselves when the program starts, in the order of their files.\<close>

datatype ingestor = LineProtocol | Lumberjack | PerfTest | TelegrafJson

definition Ingestors :: "ingestor list" where
  "Ingestors = [LineProtocol, Lumberjack, PerfTest, TelegrafJson]"

record ingest_state =
  addresses :: listener_addresses
  listeners :: "ingestor \<Rightarrow> string option"
  perfTest :: PerfTestIngestor

record perf_config =
  PerfTestPort :: int64
  PerfTestMetricsPerMinute :: int64
  PerfTestFloatsPerMetric :: int64

record ingest_env =
  binds :: "ingestor \<Rightarrow> bind_env"
  perf_conf :: perf_config

definition fresh_ingest :: ingest_state where
  "fresh_ingest =
     \<lparr>addresses = Map.empty, listeners = Map.empty, perfTest = \<lparr>metricsPerMinute = 0, floatsPerMetric = 0\<rparr>\<rparr>"

text \<open>The error \<^verbatim>\<open>Bind\<close> returns and the state after; no value when it panics.\<close>

definition store_bind ::
  "ingestor \<Rightarrow> ingest_state \<Rightarrow> (go_error option \<times> listener_addresses \<times> string option) option \<Rightarrow>
   (go_error option \<times> ingest_state) option" where
  "store_bind i s outcome =
     map_option (\<lambda>(err, addrs, l). (err, s\<lparr>addresses := addrs, listeners := (listeners s)(i := l)\<rparr>)) outcome"

definition Bind :: "ingest_env \<Rightarrow> ingestor \<Rightarrow> ingest_state \<Rightarrow> (go_error option \<times> ingest_state) option" where
  "Bind ie i s =
     (case i of
        LineProtocol \<Rightarrow> store_bind i s (LineProtocol_Bind (binds ie i) (addresses s))
      | Lumberjack \<Rightarrow> store_bind i s (Lumberjack_Bind (binds ie i) (addresses s))
      | TelegrafJson \<Rightarrow> store_bind i s (TelegrafJson_Bind (binds ie i) (addresses s))
      | PerfTest \<Rightarrow>
          Some (None, s\<lparr>perfTest := PerfTest_Bind (PerfTestPort (perf_conf ie))
                          (PerfTestMetricsPerMinute (perf_conf ie)) (PerfTestFloatsPerMetric (perf_conf ie)) (perfTest s)\<rparr>))"

section \<open>Starting\<close>

text \<open>\<open>Fatal\<close>: the error passed to \<^verbatim>\<open>log.Fatal\<close>; \<open>Crashed\<close>: a panic.\<close>

datatype 'a launch = Running 'a | Fatal go_error | Crashed

fun bind_ingestors :: "ingest_env \<Rightarrow> ingestor list \<Rightarrow> ingest_state \<Rightarrow> ingest_state launch" where
  "bind_ingestors ie [] s = Running s"
| "bind_ingestors ie (i # is) s =
     (case Bind ie i s of
        None \<Rightarrow> Crashed
      | Some (Some err, s) \<Rightarrow> Fatal err
      | Some (None, s) \<Rightarrow> bind_ingestors ie is s)"

record run_env =
  run_ingest :: ingest_env
  run_router :: router_env
  run_egress :: egress_config
  run_auth :: auth_env
  run_host :: host

text \<open>The registry the runners read is the one the ingestors have filled.\<close>

definition with_listeners :: "listener_addresses \<Rightarrow> router_env \<Rightarrow> router_env" where
  "with_listeners addrs re = re\<lparr>rload := (rload re)\<lparr>load_listeners := addrs\<rparr>\<rparr>"

definition setup_agents :: "run_env \<Rightarrow> path \<Rightarrow> fs \<Rightarrow> (ingest_state \<times> world) launch" where
  "setup_agents env dataPath fs =
     (case bind_ingestors (run_ingest env) Ingestors fresh_ingest of
        Crashed \<Rightarrow> Crashed
      | Fatal err \<Rightarrow> Fatal err
      | Running s \<Rightarrow>
          (case NewAgentsRunner (with_listeners (addresses s) (run_router env)) (boot_world dataPath fs) of
             (Some err, w) \<Rightarrow> Fatal err
           | (None, w) \<Rightarrow> Running (s, w)))"

definition runCmd :: "run_env \<Rightarrow> path \<Rightarrow> fs \<Rightarrow> (ingest_state \<times> world \<times> StandardEgressConnection) launch" where
  "runCmd env dataPath fs =
     (case setup_agents env dataPath fs of
        Crashed \<Rightarrow> Crashed
      | Fatal err \<Rightarrow> Fatal err
      | Running (s, w) \<Rightarrow>
          (case NewEgressConnection (run_egress env) (run_auth env) (run_host env) of
             Inl err \<Rightarrow> Fatal err
           | Inr c \<Rightarrow> Running (s, w, c)))"

definition detachedCmd ::
  "run_env \<Rightarrow> (string \<Rightarrow> string result) \<Rightarrow> (string \<Rightarrow> EnvoyInstruction list result) \<Rightarrow> (nat \<Rightarrow> instruction_env) \<Rightarrow>
   string \<Rightarrow> path \<Rightarrow> fs \<Rightarrow> (ingest_state \<times> world) launch" where
  "detachedCmd env open_file unmarshal ie instructionsFilePath dataPath fs =
     (case setup_agents env dataPath fs of
        Crashed \<Rightarrow> Crashed
      | Fatal err \<Rightarrow> Fatal err
      | Running (s, w) \<Rightarrow>
          (case DetachedRunner_Load open_file unmarshal ie instructionsFilePath w of
             (Some err, w) \<Rightarrow> Fatal err
           | (None, w) \<Rightarrow> Running (s, w)))"

section \<open>Ending\<close>

text \<open>Times are in nanoseconds. \<^verbatim>\<open>handleInterrupts\<close> ends the program this long after the context
  is done.\<close>

definition exit_delay :: nat where "exit_delay = 1000000000"

text \<open>\<open>ends c\<close>: how long the process takes to end on a \<open>SIGTERM\<close>, if it does;
  \<open>timeout\<close>: the termination timeout.\<close>

record shutdown_env =
  ends :: "nat \<Rightarrow> nat option"
  timeout :: nat
  status :: wait_status

definition shutdown_handler :: "shutdown_env \<Rightarrow> handler_env" where
  "shutdown_handler se =
     \<lparr>start_of = (\<lambda>_. \<lparr>pipesOk = True, execOk = True, outputEvents = []\<rparr>),
      stop_of = (\<lambda>c. \<lparr>endsInTime = (case ends se c of None \<Rightarrow> False | Some d \<Rightarrow> d < timeout se), endStatus = status se\<rparr>)\<rparr>"

definition to_stop :: "nat option \<Rightarrow> handler_state \<Rightarrow> bool" where
  "to_stop r h =
     (case r of None \<Rightarrow> False
      | Some c \<Rightarrow> (case ctxs h c of None \<Rightarrow> False | Some a \<Rightarrow> \<not> arc_stopping a \<and> ctx_IsRunning a))"

text \<open>How long \<^verbatim>\<open>Stop\<close> takes, and what it has done when it waits.\<close>

definition wait_of :: "shutdown_env \<Rightarrow> nat \<Rightarrow> nat" where
  "wait_of se c = (case ends se c of None \<Rightarrow> timeout se | Some d \<Rightarrow> min d (timeout se))"

definition Stop_takes :: "shutdown_env \<Rightarrow> nat option \<Rightarrow> handler_state \<Rightarrow> nat" where
  "Stop_takes se r h = (if to_stop r h then wait_of se (the r) else 0)"

definition Stop_signal :: "nat option \<Rightarrow> handler_state \<Rightarrow> handler_state" where
  "Stop_signal r h =
     (if to_stop r h then deliver SIGTERM (the r) (upd_ctx (the r) (\<lambda>a. a\<lparr>arc_stopping := True\<rparr>) h) else h)"

text \<open>\<^verbatim>\<open>stopAll\<close> with \<open>left\<close> until the program is gone.\<close>

fun shutdown :: "shutdown_env \<Rightarrow> nat \<Rightarrow> AgentType list \<Rightarrow> world \<Rightarrow> world" where
  "shutdown se left [] w = w"
| "shutdown se left (a # as) w =
     (let t = Stop_takes se (run_of w a) (whandler w)
      in if t < left then shutdown se (left - t) as (runner_Stop (shutdown_handler se) a w)
         else w\<lparr>whandler := Stop_signal (run_of w a) (whandler w)\<rparr>)"

section \<open>The load generator\<close>

definition stress_interval :: "int64 \<Rightarrow> duration option" where
  "stress_interval rate =
     (if rate = 0 then None else Some (word_of_int (sint time_Minute sdiv sint rate)))"

text \<open>What \<^verbatim>\<open>sendMetrics\<close> does before its loop: the delay and the ticker. \<^verbatim>\<open>Int63n\<close> panics on
  an interval that is not positive, \<open>random\<close> is what it draws.\<close>

definition sendMetrics_start :: "bool \<Rightarrow> (duration \<Rightarrow> duration) \<Rightarrow> int64 \<Rightarrow> (duration \<times> duration) option" where
  "sendMetrics_start stagger random rate =
     (case stress_interval rate of
        None \<Rightarrow> None
      | Some interval \<Rightarrow>
          (if stagger \<and> sint interval \<le> 0 then None
           else case NewTicker interval of
               None \<Rightarrow> None
             | Some d \<Rightarrow> Some (if stagger then random interval else 0, d)))"

definition sendMetric :: "int64 \<Rightarrow> float64 \<Rightarrow> string \<Rightarrow> string \<Rightarrow> NameTagValueMetric" where
  "sendMetric unix_seconds drawn resource_Id monitorId =
     \<lparr>mt_name = ''stress_connection'', mt_timestamp = unix_seconds * 1000,
      mt_tags = [''monitor_id'' \<mapsto> monitorId, ''monitor_type'' \<mapsto> ''stress'', ''simulating_resource'' \<mapsto> resource_Id],
      mt_fvalues = [''duration'' \<mapsto> drawn], mt_svalues = Map.empty\<rparr>"

text \<open>The connections it makes: the resource identifier is overridden after the constructor has
  insisted on one.\<close>

definition pad4 :: "nat \<Rightarrow> string" where
  "pad4 i = replicate (4 - length (show_nat i)) (CHR ''0'') @ show_nat i"

definition SetResourceId :: "string \<Rightarrow> StandardEgressConnection \<Rightarrow> StandardEgressConnection" where
  "SetResourceId rid c = c\<lparr>resourceId := rid\<rparr>"

fun stressConnections ::
  "egress_config \<Rightarrow> auth_env \<Rightarrow> host \<Rightarrow> string \<Rightarrow> nat list \<Rightarrow> StandardEgressConnection list launch" where
  "stressConnections cfg env h resourcePrefix [] = Running []"
| "stressConnections cfg env h resourcePrefix (i # is) =
     (case NewEgressConnection (cfg\<lparr>cfg_resourceId := ''__unused__''\<rparr>) env h of
        Inl err \<Rightarrow> Fatal err
      | Inr c \<Rightarrow>
          (case stressConnections cfg env h resourcePrefix is of
             Running cs \<Rightarrow> Running (SetResourceId (resourcePrefix @ ''-'' @ pad4 i) c # cs)
           | Fatal err \<Rightarrow> Fatal err
           | Crashed \<Rightarrow> Crashed))"

definition mock_ProcessTestMonitor :: "EnvoyInstructionTestMonitor \<Rightarrow> TestMonitorResults option" where
  "mock_ProcessTestMonitor testMonitor = None"

section \<open>An Envoy that has started\<close>

lemma bind_ingestors_run:
  assumes "bind_ingestors ie Ingestors fresh_ingest = Running s"
  shows "\<exists>s0. Bind ie TelegrafJson s0 = Some (None, s)"
  using assms by (auto simp: Ingestors_def split: option.splits prod.splits)

lemma TelegrafJson_bound:
  assumes "Bind ie TelegrafJson s0 = Some (None, s)" and "bind_config (binds ie TelegrafJson) \<noteq> []"
    and "net_Listen (binds ie TelegrafJson) = Inr (JoinHostPort host port)"
    and "set host \<inter> {CHR ''['', CHR '']''} = {}" and "set port \<inter> {CHR '':'', CHR ''['', CHR '']''} = {}"
  shows "listeners s TelegrafJson = Some (JoinHostPort host port)"
    and "GetListenerAddress (addresses s) TelegrafJsonListener =
      JoinHostPort (if host = ''0.0.0.0'' then ''127.0.0.1'' else host) port"
  using assms SplitHostPort_Join [OF assms(4,5)]
  by (auto simp: Bind_def store_bind_def TelegrafJson_Bind_def ingestor_Bind_def RegisterListenerAddress_def
      GetListenerAddress_def)

lemma load_runners_telegraf:
  assumes "load_runners re as w = (None, w')"
  shows "tomlMainConfig (wtelegraf w') =
    (if TELEGRAF \<in> set as
     then createMainConfig (GetListenerAddress (load_listeners (rload re)) TelegrafJsonListener)
            (DefaultMonitoringInterval (rload re)) (MaxFlushInterval (rload re))
     else tomlMainConfig (wtelegraf w))"
  using assms
proof (induction re as w rule: load_runners.induct)
  case (2 re a as w)
  obtain w1 where w1: "runner_Load (rload re) a (agentBasePath w a) w = (None, w1)" "load_runners re as w1 = (None, w')"
    using "2.prems" by (auto split: prod.splits option.splits)
  have "tomlMainConfig (wtelegraf w1) =
      (if a = TELEGRAF
       then createMainConfig (GetListenerAddress (load_listeners (rload re)) TelegrafJsonListener)
              (DefaultMonitoringInterval (rload re)) (MaxFlushInterval (rload re))
       else tomlMainConfig (wtelegraf w))"
    using w1(1) by (auto simp: runner_Load_def Telegraf_Load_def Let_def split: AgentType.splits sum.splits prod.splits)
  then show ?case using "2.IH" [OF w1(1) [symmetric] refl w1(2)] by simp
qed simp

lemma PurgeAgentConfigs_telegraf:
  "PurgeAgentConfigs flt as w = (err, w') \<Longrightarrow> tomlMainConfig (wtelegraf w') = tomlMainConfig (wtelegraf w)"
proof (induction flt as w rule: PurgeAgentConfigs.induct)
  case (2 flt a as w)
  obtain err1 w1 where w1: "runner_PurgeConfig flt a w = (err1, w1)" by fastforce
  then have "tomlMainConfig (wtelegraf w1) = tomlMainConfig (wtelegraf w)"
    by (auto simp: runner_PurgeConfig_def Telegraf_PurgeConfig_def split: AgentType.splits prod.splits)
  then show ?case using 2 w1 by (cases err1) auto
qed simp

text \<open>
  C38 An Envoy whose \<^verbatim>\<open>run\<close> gets as far as connecting: telegraf's main configuration sends its
  metrics to the address the JSON ingestor is listening on, by the loopback address when that is
  the wildcard; the connection has a resource identifier, the labels of the host and a dial
  option; and no agent is running yet.
\<close>

theorem run_consistent:
  assumes "runCmd env dataPath fs = Running (s, w, c)" and "TELEGRAF \<in> set (range_agents (run_router env))"
    and "bind_config (binds (run_ingest env) TelegrafJson) \<noteq> []"
    and "net_Listen (binds (run_ingest env) TelegrafJson) = Inr (JoinHostPort host port)"
    and "set host \<inter> {CHR ''['', CHR '']''} = {}" and "set port \<inter> {CHR '':'', CHR ''['', CHR '']''} = {}"
  shows "listeners s TelegrafJson = Some (JoinHostPort host port) \<and>
    tomlMainConfig (wtelegraf w) =
      createMainConfig (JoinHostPort (if host = ''0.0.0.0'' then ''127.0.0.1'' else host) port)
        (DefaultMonitoringInterval (rload (run_router env))) (MaxFlushInterval (rload (run_router env))) \<and>
    resourceId c \<noteq> [] \<and> grpcTlsDialOption c \<noteq> None \<and>
    ComputeLabels (run_host env) (cfg_labels (run_egress env)) = Inr (egress_labels c) \<and>
    world_reachable w \<and> (\<forall>a. run_of w a = None)"
proof -
  let ?re = "with_listeners (addresses s) (run_router env)"
  have r: "bind_ingestors (run_ingest env) Ingestors fresh_ingest = Running s"
    "NewAgentsRunner ?re (boot_world dataPath fs) = (None, w)"
    "NewEgressConnection (run_egress env) (run_auth env) (run_host env) = Inr c"
    using assms(1)
    by (auto simp: runCmd_def setup_agents_def split: launch.splits prod.splits option.splits sum.splits)
  obtain s0 where s0: "Bind (run_ingest env) TelegrafJson s0 = Some (None, s)" using bind_ingestors_run [OF r(1)] by blast
  obtain w1 where w1: "load_runners ?re (range_agents ?re) (boot_world dataPath fs) = (None, w1)"
    "PurgeAgentConfigs (env_faults (renv ?re)) (range_agents ?re) w1 = (None, w)"
    using r(2) by (auto simp: NewAgentsRunner_def split: prod.splits option.splits)
  have "run_of w = run_of (boot_world dataPath fs)"
    using load_runners_frame [of ?re "range_agents ?re" "boot_world dataPath fs"]
      PurgeAgentConfigs_frame [of "env_faults (renv ?re)" "range_agents ?re" w1] w1 by simp
  then have "run_of w a = None" for a
    by (simp add: boot_world_def run_of_def fresh_runner_def fresh_telegraf_def split: AgentType.split)
  moreover have "resourceId c \<noteq> [] \<and> grpcTlsDialOption c \<noteq> None \<and>
      ComputeLabels (run_host env) (cfg_labels (run_egress env)) = Inr (egress_labels c)"
    using r(3) by (auto simp: NewEgressConnection_def split: if_splits sum.splits)
  moreover have "world_reachable w" using r(2) by (rule world_reachable.boot)
  moreover note TelegrafJson_bound [OF s0 assms(3-6)]
  ultimately show ?thesis
    using load_runners_telegraf [OF w1(1)] PurgeAgentConfigs_telegraf [OF w1(2)] assms(2)
    by (simp add: with_listeners_def)
qed

definition sample_host :: host where
  "sample_host =
     \<lparr>GOOS = ''linux'', GOARCH = ''amd64'', os_Hostname = Inr ''db1'', exec_Output = (\<lambda>_ _. Inl io_error),
      ioutil_ReadFile = (\<lambda>_. Inl io_error), stat_error = (\<lambda>_. None)\<rparr>"

definition sample_auth :: auth_env where
  "sample_auth =
     \<lparr>tls_config = Inl io_error, LoadX509KeyPair = (\<lambda>_ _. Inl io_error), X509KeyPair = (\<lambda>_ _. Inl io_error),
      read_ca = (\<lambda>_. Inl io_error), AppendCertsFromPEM = (\<lambda>_. False),
      NewRequest = (\<lambda>_. None), client_Do = (\<lambda>_. Inl io_error), AuthToken = []\<rparr>"

definition sample_run :: run_env where
  "sample_run =
     \<lparr>run_ingest =
        \<lparr>binds = (\<lambda>i. if i = TelegrafJson then \<lparr>bind_config = '':8094'', net_Listen = Inr ''0.0.0.0:8094''\<rparr>
                    else \<lparr>bind_config = [], net_Listen = Inl io_error\<rparr>),
         perf_conf = \<lparr>PerfTestPort = 0, PerfTestMetricsPerMinute = 0, PerfTestFloatsPerMetric = 0\<rparr>\<rparr>,
      run_router = witness_env [],
      run_egress = \<lparr>cfg_resourceId = ''r1'', cfg_tlsDisabled = True, cfg_zone = [], cfg_labels = []\<rparr>,
      run_auth = sample_auth, run_host = sample_host\<rparr>"

lemma sample_setup: "\<exists>s w. setup_agents sample_run [''data''] [] = Running (s, w)"
proof -
  have l: "SplitHostPort ''0.0.0.0:8094'' = Inr (''0.0.0.0'', ''8094'')" by code_simp
  show ?thesis
    by (simp add: setup_agents_def sample_run_def Ingestors_def Bind_def store_bind_def fresh_ingest_def l
        LineProtocol_Bind_def Lumberjack_Bind_def TelegrafJson_Bind_def ingestor_Bind_def RegisterListenerAddress_def
        with_listeners_def NewAgentsRunner_def witness_env_def boot_world_def runner_Load_def agentBasePath_def
        Telegraf_Load_def fresh_telegraf_def fresh_runner_def good_env_def
        runner_PurgeConfig_def Filebeat_PurgeConfig_def Oracle_PurgeConfig_def Packages_PurgeConfig_def
        purge_empty plain_name_def Telegraf_PurgeConfig_def Let_def del: no_faults)
qed

lemma sample_runs: "\<exists>s w c. runCmd sample_run [''data''] [] = Running (s, w, c)"
proof -
  obtain s w where "setup_agents sample_run [''data''] [] = Running (s, w)" using sample_setup by blast
  moreover have "\<exists>c. NewEgressConnection (run_egress sample_run) (run_auth sample_run) (run_host sample_run) = Inr c"
    by (simp add: NewEgressConnection_def sample_run_def loadTlsDialOption_def ComputeLabels_def sample_host_def)
  ultimately show ?thesis by (auto simp: runCmd_def)
qed

lemma run_consistent_witness:
  "\<exists>s w c. runCmd sample_run [''data''] [] = Running (s, w, c) \<and>
     tomlMainConfig (wtelegraf w) = createMainConfig ''127.0.0.1:8094'' (duration_seconds 60) (duration_seconds 60) \<and>
     resourceId c \<noteq> []"
proof -
  obtain s w c where r: "runCmd sample_run [''data''] [] = Running (s, w, c)" using sample_runs by blast
  have j: "JoinHostPort ''0.0.0.0'' ''8094'' = ''0.0.0.0:8094''" "JoinHostPort ''127.0.0.1'' ''8094'' = ''127.0.0.1:8094''"
    by (simp_all add: JoinHostPort_def)
  have "TELEGRAF \<in> set (range_agents (run_router sample_run))"
    "bind_config (binds (run_ingest sample_run) TelegrafJson) \<noteq> []"
    "net_Listen (binds (run_ingest sample_run) TelegrafJson) = Inr (JoinHostPort ''0.0.0.0'' ''8094'')"
    by (simp_all add: sample_run_def witness_env_def j)
  from run_consistent [OF r this]
  have "tomlMainConfig (wtelegraf w) = createMainConfig ''127.0.0.1:8094'' (duration_seconds 60) (duration_seconds 60) \<and>
     resourceId c \<noteq> []"
    by (simp add: j sample_run_def witness_env_def)
  then show ?thesis using r by blast
qed

section \<open>Detached\<close>

definition event_of :: "instruction_env \<Rightarrow> EnvoyInstruction \<Rightarrow> world_event option" where
  "event_of ie i =
     (case i of
        Install install \<Rightarrow> Some (EvInstall (ie_router ie) install)
      | Configure configure \<Rightarrow> Some (EvConfigure (renv (ie_router ie)) configure)
      | _ \<Rightarrow> None)"

definition attached_step :: "instruction_env \<Rightarrow> EnvoyInstruction \<Rightarrow> world \<Rightarrow> world" where
  "attached_step ie i w =
     (case event_of ie i of None \<Rightarrow> w | Some e \<Rightarrow> (case world_next w e of None \<Rightarrow> w | Some w' \<Rightarrow> w'))"

lemma detached_instruction_event: "detached_instruction = attached_step"
  by (auto simp: detached_instruction_def attached_step_def event_of_def fun_eq_iff split: EnvoyInstruction.split)

lemma detached_instruction_reachable: "world_reachable w \<Longrightarrow> world_reachable (detached_instruction ie i w)"
  unfolding detached_instruction_event attached_step_def by (auto split: option.split intro: world_reachable.happens simp del: world_next.simps)

lemma detached_fold_reachable:
  "world_reachable w \<Longrightarrow> world_reachable (fold (\<lambda>(n, i). detached_instruction (env n) i) nis w)"
  by (induction nis arbitrary: w) (auto intro: detached_instruction_reachable)

text \<open>
  C39 The detached mode is as safe as the attached one: the instructions of the file are carried
  out in their order, each as the same instruction of an Ambassador, from the state \<^verbatim>\<open>run\<close> would
  start in; the result is a state of an attached Envoy, so at most one process of each agent is
  kept alive. Nothing is done, and the program ends, when the file cannot be opened or decoded or
  holds no instruction.
\<close>

theorem detached_as_attached:
  assumes "setup_agents env dataPath fs = Running (s, w)"
  shows "(\<forall>content is. open_file f = Inr content \<and> unmarshal content = Inr is \<and> is \<noteq> [] \<longrightarrow>
      (\<exists>w'. detachedCmd env open_file unmarshal ie f dataPath fs = Running (s, w') \<and>
         w' = fold (\<lambda>(n, i). attached_step (ie n) i) (enumerate 0 is) w \<and>
         world_reachable w' \<and>
         (\<forall>c d a. active (whandler w') c \<and> active (whandler w') d \<and> agent_of (whandler w') c = Some a \<and>
            agent_of (whandler w') d = Some a \<longrightarrow> c = d))) \<and>
    ((\<nexists>content is. open_file f = Inr content \<and> unmarshal content = Inr is \<and> is \<noteq> []) \<longrightarrow>
      (\<exists>err. detachedCmd env open_file unmarshal ie f dataPath fs = Fatal err))"
proof -
  have w: "world_reachable w"
    using assms by (auto simp: setup_agents_def split: launch.splits prod.splits option.splits
        intro: world_reachable.boot)
  have one: "c = d" if "world_reachable v" "active (whandler v) c" "active (whandler v) d"
    "agent_of (whandler v) c = Some a" "agent_of (whandler v) d = Some a" for v c d a
    using world_reachable_inv [OF that(1)] that(2-) unfolding world_inv_def runners_inv_def
    using cmds.at_most_one by blast
  have "world_reachable (fold (\<lambda>(n, i). attached_step (ie n) i) nis w)" for nis
    using detached_fold_reachable [OF w, of ie nis] by (simp add: detached_instruction_event)
  note reached = this one [OF this]
  have "\<exists>w'. detachedCmd env open_file unmarshal ie f dataPath fs = Running (s, w') \<and>
      w' = fold (\<lambda>(n, i). attached_step (ie n) i) (enumerate 0 is) w"
    if "open_file f = Inr content" "unmarshal content = Inr is" "is \<noteq> []" for content "is"
    using that assms by (simp add: detachedCmd_def DetachedRunner_Load_def detached_instruction_event)
  moreover have "\<exists>err. detachedCmd env open_file unmarshal ie f dataPath fs = Fatal err"
    if "\<nexists>content is. open_file f = Inr content \<and> unmarshal content = Inr is \<and> is \<noteq> []"
    using that assms by (auto simp: detachedCmd_def DetachedRunner_Load_def split: sum.split)
  ultimately show ?thesis using reached by meson
qed

lemma detached_as_attached_witness:
  "\<forall>ie. \<exists>s w w'. setup_agents sample_run [''data''] [] = Running (s, w) \<and>
     detachedCmd sample_run (\<lambda>_. Inr []) (\<lambda>_. Inr [Configure filebeat_conf]) ie ''f'' [''data''] [] = Running (s, w') \<and>
     world_reachable w'"
proof
  fix ie
  obtain s w where s: "setup_agents sample_run [''data''] [] = Running (s, w)" using sample_setup by blast
  then show "\<exists>s w w'. setup_agents sample_run [''data''] [] = Running (s, w) \<and>
     detachedCmd sample_run (\<lambda>_. Inr []) (\<lambda>_. Inr [Configure filebeat_conf]) ie ''f'' [''data''] [] = Running (s, w') \<and>
     world_reachable w'"
    using detached_as_attached [OF s, of "\<lambda>_. Inr []" "''f''" "\<lambda>_. Inr [Configure filebeat_conf]" ie] by auto
qed

section \<open>Shutdown\<close>

lemma Stop_not_needed: "\<not> to_stop r h \<Longrightarrow> Stop env r h = h"
  by (auto simp: to_stop_def Stop_def split: option.splits)

lemma Stop_procs_other: "r \<noteq> Some c \<Longrightarrow> procs (Stop env r h) c = procs h c"
  by (auto simp: Stop_def upd_ctx_def deliver_def WaitOnAgentCommand_def Let_def split: option.splits proc.splits)

lemma to_stop_active: "handler_inv h \<Longrightarrow> active h c \<Longrightarrow> to_stop (Some c) h"
  by (auto simp: handler_inv_def active_def waiter_ok_def to_stop_def ctx_IsRunning_def)

lemma Stop_takes_le: "Stop_takes se r h \<le> (case r of None \<Rightarrow> 0 | Some c \<Rightarrow> wait_of se c)"
  by (cases r) (simp_all add: Stop_takes_def to_stop_def)

lemma run_of_stop: "run_of (runner_Stop henv a w) b = (if a = b \<and> registered a then None else run_of w b)"
  by (cases a) (auto simp: runner_Stop_def run_of_def registered_def Telegraf_Stop_def Filebeat_Stop_def Oracle_Stop_def
      Packages_Stop_def Let_def split: prod.splits AgentType.splits)

text \<open>The longest an agent of a runner can make the others wait.\<close>

definition worst_wait :: "shutdown_env \<Rightarrow> nat option \<Rightarrow> nat" where
  "worst_wait se r = (case r of None \<Rightarrow> 0 | Some c \<Rightarrow> wait_of se c)"

lemma shutdown_graceful:
  "distinct as \<Longrightarrow> sum_list (map (\<lambda>a. worst_wait se (run_of w a)) as) < left \<Longrightarrow>
   shutdown se left as w = stopAll (shutdown_handler se) as w"
proof (induction as arbitrary: left w)
  case (Cons a as)
  let ?w = "runner_Stop (shutdown_handler se) a w" and ?t = "Stop_takes se (run_of w a) (whandler w)"
  have t: "?t \<le> worst_wait se (run_of w a)" unfolding worst_wait_def by (rule Stop_takes_le)
  have "map (\<lambda>b. worst_wait se (run_of ?w b)) as = map (\<lambda>b. worst_wait se (run_of w b)) as"
    using Cons.prems(1) by (auto simp: run_of_stop)
  then have "sum_list (map (\<lambda>b. worst_wait se (run_of ?w b)) as) < left - ?t" using Cons.prems(2) t by (simp del: map_eq_conv)
  then have "shutdown se (left - ?t) as ?w = stopAll (shutdown_handler se) as ?w"
    using Cons.prems(1) by (intro Cons.IH) simp_all
  then show ?case using Cons.prems(2) t by (simp add: stopAll_def Let_def)
qed (simp add: stopAll_def)

lemma shutdown_survivor:
  "world_inv w \<Longrightarrow> active (whandler w) c \<Longrightarrow> procs (whandler w) c = Some (Alive sgs) \<Longrightarrow> left \<le> wait_of se c \<Longrightarrow>
   procs (whandler (shutdown se left as w)) c \<in> {Some (Alive sgs), Some (Alive (sgs @ [SIGTERM]))}"
proof (induction as arbitrary: left w)
  case (Cons a as)
  let ?r = "run_of w a" and ?h = "whandler w"
  have h: "handler_inv ?h" using Cons.prems(1) by (simp add: world_inv_def runners_inv_def)
  have stays: "procs (Stop_signal ?r ?h) c \<in> {Some (Alive sgs), Some (Alive (sgs @ [SIGTERM]))}"
    using Cons.prems(3) by (auto simp: Stop_signal_def deliver_def upd_ctx_def split: option.split proc.split)
  show ?case
  proof (cases "?r = Some c")
    case True
    then have "left \<le> Stop_takes se ?r ?h" using Cons.prems(2,4) to_stop_active [OF h] by (simp add: Stop_takes_def)
    then show ?thesis using stays by (simp add: Let_def)
  next
    case False
    let ?w = "runner_Stop (shutdown_handler se) a w"
    have "world_inv ?w" using stop_world [OF Cons.prems(1)] by blast
    moreover have "active (whandler ?w) c" using Stop_spec(3) [OF h] Cons.prems(2) False by (simp add: runner_Stop_handler)
    moreover have "procs (whandler ?w) c = Some (Alive sgs)"
      using Cons.prems(3) False by (simp add: runner_Stop_handler Stop_procs_other)
    ultimately show ?thesis using Cons.IH [of ?w] Cons.prems(4) stays by (simp add: Let_def)
  qed
qed simp


lemma oracle_alive:
  "\<exists>w. world_reachable w \<and> active (whandler w) 0 \<and> procs (whandler w) 0 = Some (Alive [])"
proof -
  let ?env = "good_env oracle_up"
  obtain w c where w: "world_reachable w" "world_next witness_boot (EvConfigure ?env oracle_conf) = Some w"
    "active (whandler w) c" using one_oracle_running by blast
  obtain fs where fs: "Oracle_ProcessConfig ?env oracle_conf (idle_runner ''ORACLE'') [] = (Ret None, fs)"
    using oracle_conf_files by blast
  obtain fatal h r where e: "Oracle_EnsureRunningState ?env fs True initial_handler (idle_runner ''ORACLE'') = (fatal, h, r)"
    using prod_cases3 by blast
  have n: "\<not> IsRunning initial_handler (running (idle_runner ''ORACLE''))" by (simp add: IsRunning_def idle_runner_def)
  have nf: "\<not> fatal" using Oracle_start_not_fatal [OF n starts_oracle, of fs True] e by simp
  have h: "whandler w = h"
    using w(2) fs e
    by (auto simp: witness_boot_ok(2) ProcessConfigure_def oracle_conf_def registered_def
        runner_ProcessConfig_def runner_EnsureRunningState_def Let_def)
  have "procs h 0 = Some (Alive [])" and "waiters h = [0]"
    using e n nf
    by (auto simp: Oracle_EnsureRunningState_def CreateContext_def StartAgentCommand_def go_WaitOnAgentCommand_def
        upd_ctx_def initial_handler_def Let_def split: if_splits start_wait.splits)
  moreover from this have "c = 0" using w(3) h by (simp add: active_def)
  ultimately show ?thesis using w(1,3) h by blast
qed


end
