(* ===== verification/Envoy_System.thy ===== *)
theory Envoy_System
  imports Envoy_Commands
begin

text \<open>
  The attached Envoy as a whole: the egress connection of \<open>Egress_Connection\<close> and the agents'
  world of \<open>Agents_Router\<close> side by side, with the two places where they meet: a goroutine that
  watches a connection deals with an instruction, and the router takes a detachment from the
  channel. A step of the connection is atomic, an operation of the router runs to completion.
\<close>

section \<open>State and steps\<close>

text \<open>\<open>history\<close> records what the router has been made to do; \<open>router_done\<close>: \<^verbatim>\<open>Start\<close> of the
  router has returned.\<close>

datatype router_log = Applied nat EnvoyInstruction | Detached | Restarted AgentType | StoppedAll

record envoy =
  sys_egress :: egress
  sys_world :: world
  router_done :: bool
  history :: "router_log list"

datatype envoy_event = EgressEvent instruction_env egress_event | WorldEvent world_event

definition instruction_at_hand :: "egress \<Rightarrow> egress_event \<Rightarrow> (nat \<times> EnvoyInstruction) option" where
  "instruction_at_hand g e =
     (case e of
        Watch k answer \<Rightarrow> (case watch (conns g ! k) of WHandle i \<Rightarrow> Some (k, i) | _ \<Rightarrow> None)
      | _ \<Rightarrow> None)"

definition router_effect :: "instruction_env \<Rightarrow> egress \<Rightarrow> egress_event \<Rightarrow> world \<Rightarrow> world" where
  "router_effect ie g e w =
     (case instruction_at_hand g e of
        Some (k, i) \<Rightarrow> attached_step ie i w
      | None \<Rightarrow> (if e = RouterTakesDetach then Start_detach (ie_router ie) w else w))"

definition router_logs :: "egress \<Rightarrow> egress_event \<Rightarrow> router_log list" where
  "router_logs g e =
     (case instruction_at_hand g e of
        Some (k, i) \<Rightarrow> [Applied k i]
      | None \<Rightarrow> (if e = RouterTakesDetach then [Detached] else []))"

definition world_logs :: "world_event \<Rightarrow> router_log list" where
  "world_logs e = (case e of EvRestart env a \<Rightarrow> [Restarted a] | EvDone re \<Rightarrow> [StoppedAll] | _ \<Rightarrow> [])"

text \<open>A range over the map of runners visits each of them once.\<close>

definition full_range :: "instruction_env \<Rightarrow> bool" where
  "full_range ie \<longleftrightarrow> mset (range_agents (ie_router ie)) = mset SupportedAgents"

text \<open>What the world does by itself: instructions and detachments only come through the
  connection.\<close>

definition own_event :: "envoy \<Rightarrow> world_event \<Rightarrow> bool" where
  "own_event s e =
     (case e of
        EvInstall _ _ \<Rightarrow> False
      | EvConfigure _ _ \<Rightarrow> False
      | EvDetach _ \<Rightarrow> False
      | EvDone _ \<Rightarrow> app_done (sys_egress s) \<and> \<not> router_done s
      | _ \<Rightarrow> True)"

fun envoy_next :: "envoy \<Rightarrow> envoy_event \<Rightarrow> envoy option" where
  "envoy_next s (EgressEvent ie e) =
     (if wdown (sys_world s) \<or> \<not> full_range ie \<or> (e = RouterTakesDetach \<and> router_done s) then None
      else case egress_next (sys_egress s) e of
          None \<Rightarrow> None
        | Some g \<Rightarrow>
            Some (s\<lparr>sys_egress := g, sys_world := router_effect ie (sys_egress s) e (sys_world s),
                    history := history s @ router_logs (sys_egress s) e\<rparr>))"
| "envoy_next s (WorldEvent e) =
     (if \<not> own_event s e then None
      else case world_next (sys_world s) e of
          None \<Rightarrow> None
        | Some w \<Rightarrow>
            Some (s\<lparr>sys_world := w, router_done := (router_done s \<or> (\<exists>re. e = EvDone re)),
                    history := history s @ world_logs e\<rparr>))"

fun envoy_run :: "envoy \<Rightarrow> envoy_event list \<Rightarrow> envoy option" where
  "envoy_run s [] = Some s"
| "envoy_run s (e # es) = (case envoy_next s e of None \<Rightarrow> None | Some t \<Rightarrow> envoy_run t es)"

text \<open>What is required of each step of a run, and what every such step keeps.\<close>

fun along :: "(envoy \<Rightarrow> envoy_event \<Rightarrow> bool) \<Rightarrow> envoy \<Rightarrow> envoy_event list \<Rightarrow> bool" where
  "along P s [] = True"
| "along P s (e # es) = (P s e \<and> (case envoy_next s e of None \<Rightarrow> True | Some t \<Rightarrow> along P t es))"

lemma along_run:
  assumes "envoy_run s es = Some t" and "along P s es" and "I s"
    and "\<And>s e t. I s \<Longrightarrow> P s e \<Longrightarrow> envoy_next s e = Some t \<Longrightarrow> I t"
  shows "I t"
  using assms(1-3) by (induction es arbitrary: s) (auto split: option.splits intro: assms(4) simp del: envoy_next.simps)

definition envoy_up :: "world \<Rightarrow> envoy" where
  "envoy_up w = \<lparr>sys_egress = started_egress True, sys_world = w, router_done = False, history = []\<rparr>"

definition envoy_start :: "envoy \<Rightarrow> bool" where
  "envoy_start s \<longleftrightarrow> (\<exists>env dataPath fs g w c. runCmd env dataPath fs = Running (g, w, c) \<and> s = envoy_up w)"

inductive envoy_reachable :: "envoy \<Rightarrow> bool" where
  start: "envoy_start s \<Longrightarrow> envoy_reachable s"
| step: "envoy_reachable s \<Longrightarrow> envoy_next s e = Some t \<Longrightarrow> envoy_reachable t"

interpretation envoys: transition_system envoy_start "\<lambda>s e t. envoy_next s e = Some t" envoy_reachable
proof
  fix s :: envoy and P :: "envoy \<Rightarrow> bool"
  assume "envoy_reachable s" and "\<forall>s. envoy_start s \<longrightarrow> P s"
    and "\<forall>s e t. envoy_reachable s \<longrightarrow> P s \<longrightarrow> envoy_next s e = Some t \<longrightarrow> P t"
  then show "P s" by (induction rule: envoy_reachable.induct) blast+
qed

lemma envoy_run_reachable: "envoy_run s es = Some t \<Longrightarrow> envoy_reachable s \<Longrightarrow> envoy_reachable t"
  by (induction es arbitrary: s) (auto split: option.splits intro: envoy_reachable.step simp del: envoy_next.simps)

lemma envoy_next_cases:
  assumes "envoy_next s e = Some t"
  obtains (egress) ie ge g where "e = EgressEvent ie ge" "\<not> wdown (sys_world s)" "full_range ie"
      "egress_next (sys_egress s) ge = Some g"
      "t = s\<lparr>sys_egress := g, sys_world := router_effect ie (sys_egress s) ge (sys_world s),
              history := history s @ router_logs (sys_egress s) ge\<rparr>"
  | (world) we w where "e = WorldEvent we" "own_event s we" "world_next (sys_world s) we = Some w"
      "t = s\<lparr>sys_world := w, router_done := (router_done s \<or> (\<exists>re. we = EvDone re)),
              history := history s @ world_logs we\<rparr>"
  using assms by (cases e) (auto split: if_splits option.splits simp del: world_next.simps)

section \<open>The parts are those of the components\<close>

lemma runCmd_reachable: "runCmd env dataPath fs = Running (g, w, c) \<Longrightarrow> world_reachable w"
  by (auto simp: runCmd_def setup_agents_def split: launch.splits prod.splits option.splits sum.splits
      intro: world_reachable.boot)

lemma attached_step_reachable: "world_reachable w \<Longrightarrow> world_reachable (attached_step ie i w)"
  using detached_instruction_reachable by (simp add: detached_instruction_event)

lemma Start_detach_reachable: "world_reachable w \<Longrightarrow> \<not> wdown w \<Longrightarrow> world_reachable (Start_detach re w)"
  by (rule world_reachable.happens [of w "EvDetach re"]) simp_all

lemma router_effect_reachable:
  "world_reachable w \<Longrightarrow> \<not> wdown w \<Longrightarrow> world_reachable (router_effect ie g e w)"
  by (auto simp: router_effect_def attached_step_reachable Start_detach_reachable split: option.split)

lemma envoy_parts: "envoy_reachable s \<Longrightarrow> egress_reachable (sys_egress s) \<and> world_reachable (sys_world s)"
proof (erule envoys.invariant_rule)
  fix s assume "envoy_start s"
  then show "egress_reachable (sys_egress s) \<and> world_reachable (sys_world s)"
    using runCmd_reachable by (auto simp: envoy_start_def envoy_up_def intro: egress_reachable.start)
next
  fix s e t
  assume i: "egress_reachable (sys_egress s) \<and> world_reachable (sys_world s)" and "envoy_next s e = Some t"
  from this(2) show "egress_reachable (sys_egress t) \<and> world_reachable (sys_world t)"
  proof (cases rule: envoy_next_cases)
    case (egress ie ge g)
    then show ?thesis using i router_effect_reachable egress_reachable.step by auto
  next
    case (world we w)
    then show ?thesis using i world_reachable.happens by (auto simp del: world_next.simps)
  qed
qed

section \<open>What the router has done\<close>

definition applied_to :: "nat \<Rightarrow> router_log list \<Rightarrow> EnvoyInstruction list" where
  "applied_to k h = concat (map (\<lambda>l. case l of Applied k' i \<Rightarrow> if k' = k then [i] else [] | _ \<Rightarrow> []) h)"

definition detaches :: "router_log list \<Rightarrow> nat" where
  "detaches h = length (filter (\<lambda>l. l = Detached) h)"

lemma applied_to_simps [simp]:
  "applied_to k [] = []" "applied_to k (h @ h') = applied_to k h @ applied_to k h'"
  "applied_to k [Applied k' i] = (if k' = k then [i] else [])" "applied_to k [Detached] = []"
  "applied_to k (world_logs e) = []"
  by (simp_all add: applied_to_def world_logs_def split: world_event.split)

lemma detaches_simps [simp]:
  "detaches [] = 0" "detaches (h @ h') = detaches h + detaches h'" "detaches [Applied k i] = 0" "detaches [Detached] = 1"
  "detaches (world_logs e) = 0"
  by (simp_all add: detaches_def world_logs_def split: world_event.split)

lemma watch_conn_handled: "watch_conn closed answer c = Some c' \<Longrightarrow> handled c' = handled c @ at_hand (watch c)"
  by (auto simp: watch_conn_def at_hand_def split: watch_pc.splits sum.splits EnvoyInstruction.splits if_splits)

lemma keep_conn_handled: "keep_conn closed j takes_done failure c = Some c' \<Longrightarrow> handled c' = handled c"
  by (auto simp: keep_conn_def Let_def split: keep_pc.splits option.splits if_splits)

definition notifications :: "egress \<Rightarrow> nat" where
  "notifications g = sum_list (map notified (conns g))"

lemma sum_list_update_nat:
  "k < length xs \<Longrightarrow> sum_list (map f (xs[k := x])) + f (xs ! k) = sum_list (map f xs) + (f x :: nat)"
  by (induction xs arbitrary: k) (auto split: nat.split simp: nth_Cons)

definition handled_of :: "egress \<Rightarrow> nat \<Rightarrow> EnvoyInstruction list" where
  "handled_of g k = (if k < length (conns g) then handled (conns g ! k) else [])"

lemma egress_next_handled:
  assumes "egress_next g e = Some g'"
  shows "handled_of g' k = handled_of g k @ applied_to k (router_logs g e)"
proof (cases e)
  case (Loop l)
  have "handled ((conns g)[j := (conns g ! j)\<lparr>errChan := x\<rparr>] ! k) = handled (conns g ! k)"
    "handled ((conns g)[j := (conns g ! j)\<lparr>notified := y\<rparr>] ! k) = handled (conns g ! k)"
    "handled ((conns g)[j := (conns g ! j)\<lparr>conn_cancelled := b\<rparr>] ! k) = handled (conns g ! k)" for j x y b
    by (rule nth_update_same [where g = handled], simp)+
  then show ?thesis
    using assms Loop
    by (cases l) (auto simp: handled_of_def router_logs_def instruction_at_hand_def nth_append new_connection_def
        split: if_splits loop_pc.splits list.splits)
next
  case (Watch j answer)
  then obtain c where c: "watch_conn (ctx_done g j) answer (conns g ! j) = Some c" "j < length (conns g)"
    "conns g' = (conns g)[j := c]"
    using assms by (auto simp: watch_step_def split: if_splits option.splits)
  have "applied_to k (router_logs g e) = (if j = k then at_hand (watch (conns g ! j)) else [])"
    using Watch by (simp add: router_logs_def instruction_at_hand_def at_hand_def split: watch_pc.split)
  then show ?thesis using c watch_conn_handled [OF c(1)] by (simp add: handled_of_def nth_list_update)
next
  case (Keep j m d f)
  then obtain c where c: "keep_conn (ctx_done g j) m d f (conns g ! j) = Some c" "j < length (conns g)"
    "conns g' = (conns g)[j := c]"
    using assms by (auto simp: keep_step_def split: if_splits option.splits)
  then show ?thesis
    using keep_conn_handled [OF c(1)] Keep
    by (simp add: handled_of_def nth_list_update router_logs_def instruction_at_hand_def)
qed (use assms in \<open>auto simp: handled_of_def router_logs_def instruction_at_hand_def split: if_splits\<close>)


lemma notifications_append: "notifications (g\<lparr>conns := conns g @ cs\<rparr>) = notifications g + sum_list (map notified cs)"
  by (simp add: notifications_def)

lemma notified_update:
  "k < length cs \<Longrightarrow> notified c = notified (cs ! k) \<Longrightarrow> sum_list (map notified (cs[k := c])) = sum_list (map notified cs)"
  using sum_list_update_nat [of k cs notified c] by simp

lemma notified_Suc:
  "k < length cs \<Longrightarrow>
   sum_list (map notified (cs[k := (cs ! k)\<lparr>notified := Suc (notified (cs ! k))\<rparr>])) = Suc (sum_list (map notified cs))"
  using sum_list_update_nat [of k cs notified "(cs ! k)\<lparr>notified := Suc (notified (cs ! k))\<rparr>"] by simp

lemma egress_next_notified:
  assumes "egress_next g e = Some g'" and "index_inv g"
  shows "detaches (router_logs g e) + detachChan g' + notifications g = detachChan g + notifications g'"
proof (cases e)
  case (Loop l)
  have k: "k < length (conns g)" if "loop g \<in> {Selecting k, Notifying k, Cancelling k}" for k
    using assms(2) that unfolding index_inv_def by (metis lessI)
  show ?thesis
    using assms(1) Loop k
    by (cases l) (auto simp: router_logs_def instruction_at_hand_def notifications_def new_connection_def
        notified_update notified_Suc
        split: if_splits loop_pc.splits list.splits)
next
  case (Watch j answer)
  then obtain c where c: "watch_conn (ctx_done g j) answer (conns g ! j) = Some c" "j < length (conns g)"
    "conns g' = (conns g)[j := c]" "detachChan g' = detachChan g"
    using assms by (auto simp: watch_step_def split: if_splits option.splits)
  have "detaches (router_logs g e) = 0"
    using Watch by (simp add: router_logs_def instruction_at_hand_def split: watch_pc.split)
  then show ?thesis
    using c(3,4) notified_update [OF c(2) watch_conn_keeps(2) [OF c(1)]] by (simp add: notifications_def)
next
  case (Keep j m d f)
  then obtain c where c: "keep_conn (ctx_done g j) m d f (conns g ! j) = Some c" "j < length (conns g)"
    "conns g' = (conns g)[j := c]" "detachChan g' = detachChan g"
    using assms by (auto simp: keep_step_def split: if_splits option.splits)
  then show ?thesis
    using Keep notified_update [OF c(2) keep_conn_keeps(2) [OF c(1)]]
    by (simp add: notifications_def router_logs_def instruction_at_hand_def)
qed (use assms in \<open>auto simp: notifications_def router_logs_def instruction_at_hand_def split: if_splits\<close>)

definition history_inv :: "envoy \<Rightarrow> bool" where
  "history_inv s \<longleftrightarrow>
     (\<forall>k. applied_to k (history s) = handled_of (sys_egress s) k) \<and>
     detaches (history s) + detachChan (sys_egress s) = notifications (sys_egress s)"

lemma history_inv_reachable: "envoy_reachable s \<Longrightarrow> history_inv s"
proof (erule envoys.invariant_rule_with [where J = "\<lambda>s. index_inv (sys_egress s)"])
  fix s assume "envoy_reachable s"
  then show "index_inv (sys_egress s)" using envoy_parts index_inv_reachable by blast
next
  fix s assume "envoy_start s"
  then show "history_inv s"
    by (auto simp: envoy_start_def envoy_up_def history_inv_def started_egress_def handled_of_def notifications_def)
next
  fix s e t assume i: "history_inv s" and x: "index_inv (sys_egress s)" and "envoy_next s e = Some t"
  from this(3) show "history_inv t"
  proof (cases rule: envoy_next_cases)
    case (egress ie ge g)
    show ?thesis
      using i egress(4,5) egress_next_handled [OF egress(4)] egress_next_notified [OF egress(4) x]
      by (simp add: history_inv_def)
  next
    case (world we w)
    then show ?thesis using i by (simp add: history_inv_def)
  qed
qed


section \<open>After a detachment\<close>

text \<open>Since its last detachment the router has done nothing but stop agents.\<close>

definition settled :: "router_log list \<Rightarrow> bool" where
  "settled h \<longleftrightarrow> (case dropWhile (\<lambda>l. l = StoppedAll) (rev h) of Detached # _ \<Rightarrow> True | _ \<Rightarrow> False)"

lemma settled_simps [simp]:
  "\<not> settled []" "settled (h @ [Detached])" "\<not> settled (h @ [Applied k i])" "\<not> settled (h @ [Restarted a])"
  "settled (h @ [StoppedAll]) \<longleftrightarrow> settled h"
  by (simp_all add: settled_def)

lemma active_registered: "world_inv w \<Longrightarrow> active (whandler w) c \<Longrightarrow> \<exists>a. agent_of (whandler w) c = Some a \<and> registered a"
proof -
  assume w: "world_inv w" and c: "active (whandler w) c"
  obtain a where a: "agent_of (whandler w) c = Some a" using active_agent_of [OF c] by blast
  have "slots_ok active agent_of (run_of w) (whandler w)" using w by (simp add: world_inv_def runners_inv_def)
  then have "run_of w a = Some c" using a c by (simp add: slots_ok_def)
  then have "registered a" by (cases a) (simp_all add: run_of_def registered_def)
  then show ?thesis using a by blast
qed

lemma Start_detach_stops:
  assumes "world_inv w" and "full_range ie"
  shows "\<not> active (whandler (Start_detach (ie_router ie) w)) c"
proof
  let ?re = "ie_router ie"
  let ?s = "stopAll (env_handler (renv ?re)) (range_agents ?re) w"
  assume act: "active (whandler (Start_detach ?re w)) c"
  have h: "whandler (Start_detach ?re w) = whandler ?s"
    using PurgeAgentConfigs_frame [of "env_faults (renv ?re)" "range_agents ?re" ?s] by (simp add: Start_detach_def Let_def)
  note st = stopAll_world [OF assms(1), of "env_handler (renv ?re)" "range_agents ?re"]
  have "world_inv ?s" using st by blast
  then obtain a where a: "agent_of (whandler ?s) c = Some a" "registered a" using active_registered act h by metis
  have "set (range_agents ?re) = set SupportedAgents" using assms(2) unfolding full_range_def by (metis set_mset_mset)
  then have "a \<in> set (range_agents ?re)" using a(2) by (auto simp: registered_def SupportedAgents_def)
  then have "no_active a (whandler ?s)" using st a(2) by blast
  then show False using act h a(1) by (simp add: no_active_def)
qed

definition settled_inv :: "envoy \<Rightarrow> bool" where
  "settled_inv s \<longleftrightarrow> (settled (history s) \<longrightarrow> (\<forall>c. \<not> active (whandler (sys_world s)) c))"

lemma world_logs_active:
  assumes "world_inv w" and "world_next w e = Some w'" and "settled (h @ world_logs e)" and "own_event s e"
  shows "settled h \<and> (active (whandler w') c \<longrightarrow> active (whandler w) c)"
proof -
  have h: "handler_inv (whandler w)" using assms(1) by (simp add: world_inv_def runners_inv_def)
  have down: "\<not> wdown w" using assms(2) by (auto split: if_splits)
  show ?thesis
  proof (cases e)
    case (EvProcessEnds d st)
    then show ?thesis
      using assms(2,3) down process_ends_spec(3) [OF h] by (auto simp: world_logs_def split: option.splits)
  next
    case (EvWaitReturns d)
    then show ?thesis
      using assms(2,3) down wait_returns_spec(3) [OF h] by (auto simp: world_logs_def split: option.splits)
  next
    case (EvDone re)
    have "active (whandler (stopAll henv order v)) c \<longrightarrow> active (whandler v) c" if "world_inv v" for henv order v
      using that
    proof (induction order arbitrary: v)
      case (Cons a order)
      have "world_inv (runner_Stop henv a v)" using stop_world [OF Cons.prems] by blast
      then show ?case
        using Cons.IH [of "runner_Stop henv a v"] Stop_spec(3) [of "whandler v" henv "run_of v a" c] Cons.prems
        by (auto simp: stopAll_def runner_Stop_handler world_inv_def runners_inv_def)
    qed (simp add: stopAll_def)
    then show ?thesis using assms(1-3) down EvDone by (auto simp: world_logs_def Start_done_def)
  qed (use assms(3,4) in \<open>auto simp: world_logs_def own_event_def\<close>)
qed

lemma settled_inv_reachable: "envoy_reachable s \<Longrightarrow> settled_inv s"
proof (erule envoys.invariant_rule_with [where J = "\<lambda>s. world_inv (sys_world s)"])
  fix s assume "envoy_reachable s"
  then show "world_inv (sys_world s)" using envoy_parts world_reachable_inv by blast
next
  fix s assume "envoy_start s"
  then show "settled_inv s" by (auto simp: envoy_start_def envoy_up_def settled_inv_def)
next
  fix s e t assume i: "settled_inv s" and w: "world_inv (sys_world s)" and "envoy_next s e = Some t"
  from this(3) show "settled_inv t"
  proof (cases rule: envoy_next_cases)
    case (egress ie ge g)
    show ?thesis
    proof (cases "instruction_at_hand (sys_egress s) ge")
      case None
      then show ?thesis
        using i egress(5) Start_detach_stops [OF w egress(3)]
        by (auto simp: settled_inv_def router_effect_def router_logs_def)
    next
      case (Some ki)
      then show ?thesis using egress(5) by (cases ki) (simp add: settled_inv_def router_logs_def)
    qed
  next
    case (world we v)
    then show ?thesis using i world_logs_active [OF w world(3) _ world(2)] by (auto simp: settled_inv_def)
  qed
qed


section \<open>Detachments and instructions overtake each other\<close>

text \<open>An Envoy without ingestors, on an empty data directory.\<close>

definition plain_run :: run_env where
  "plain_run =
     sample_run\<lparr>run_ingest :=
       \<lparr>binds = (\<lambda>_. \<lparr>bind_config = [], net_Listen = Inl io_error\<rparr>),
        perf_conf = \<lparr>PerfTestPort = 0, PerfTestMetricsPerMinute = 0, PerfTestFloatsPerMetric = 0\<rparr>\<rparr>\<rparr>"

lemma with_no_listeners: "with_listeners Map.empty (witness_env []) = witness_env []"
  by (simp add: with_listeners_def witness_env_def)

lemma plain_runs: "\<exists>g c. runCmd plain_run [''data''] [] = Running (g, witness_boot, c)"
proof -
  have "\<exists>c. NewEgressConnection (run_egress plain_run) (run_auth plain_run) (run_host plain_run) = Inr c"
    by (simp add: NewEgressConnection_def plain_run_def sample_run_def loadTlsDialOption_def ComputeLabels_def sample_host_def)
  moreover have "\<exists>g. setup_agents plain_run [''data''] [] = Running (g, witness_boot)"
    by (simp add: setup_agents_def plain_run_def sample_run_def Ingestors_def Bind_def store_bind_def fresh_ingest_def
        LineProtocol_Bind_def Lumberjack_Bind_def TelegrafJson_Bind_def ingestor_Bind_def with_no_listeners witness_boot_ok(1))
  ultimately show ?thesis by (auto simp: runCmd_def)
qed

lemma plain_start: "envoy_reachable (envoy_up witness_boot)"
proof (rule envoy_reachable.start)
  show "envoy_start (envoy_up witness_boot)" using plain_runs unfolding envoy_start_def by blast
qed

definition plain_instruction :: "monitor_env \<Rightarrow> instruction_env" where
  "plain_instruction me = \<lparr>ie_router = witness_env [], ie_monitor = me\<rparr>"

lemma plain_full: "full_range (plain_instruction me)"
  by (simp add: full_range_def plain_instruction_def witness_env_def SupportedAgents_def)

text \<open>Connection \<open>k\<close> is made and becomes ready; it fails and is given up.\<close>

definition connects :: "nat \<Rightarrow> egress_event list" where
  "connects k = Loop Attaches # Loop AttachSucceeds # replicate 4 (Watch k (Inr Ready))"

definition fails :: "nat \<Rightarrow> egress_event list" where
  "fails k =
     [Keep k 0 False None, Keep k 0 False (Some io_error), Keep k 0 False None, Loop TakesError, Loop Notifies]"

definition given_up :: "egress_event list" where
  "given_up = [Loop Cancels, Loop TakesDone]"

lemma renv_witness: "renv (witness_env []) = good_env []"
  by (simp add: witness_env_def)

lemma plain_steps [simp]:
  "attached_step (plain_instruction me) Ready w = w"
  "attached_step (plain_instruction me) (Configure filebeat_conf) witness_boot = witness_boot\<lparr>wfs := filebeat_fs\<rparr>"
  "ie_router (plain_instruction me) = witness_env []"
  using filebeat_world
  by (simp_all add: attached_step_def event_of_def plain_instruction_def renv_witness del: world_next.simps)

lemma plain_up [simp]: "\<not> wdown witness_boot" "\<not> wdown (witness_boot\<lparr>wfs := fs\<rparr>)"
  by (simp_all add: witness_boot_ok(2))

lemma wdown_Start_detach: "wdown (Start_detach re w) = wdown w"
proof -
  have "wdown (stopAll henv order v) = wdown v" for henv order v
    by (induction order arbitrary: v)
      (auto simp: stopAll_def runner_Stop_def split: AgentType.split prod.split)
  moreover have "wdown (snd (PurgeAgentConfigs flt as v)) = wdown v" for flt as v
  proof (induction flt as v rule: PurgeAgentConfigs.induct)
    case (2 flt a as v)
    have "wdown (snd (runner_PurgeConfig flt a v)) = wdown v"
      by (auto simp: runner_PurgeConfig_def split: AgentType.split prod.split)
    then show ?case using 2 by (auto split: prod.split option.split)
  qed simp
  ultimately show ?thesis by (simp add: Start_detach_def Let_def)
qed

lemmas envoy_run_defs =
  egress_run_defs envoy_up_def connects_def fails_def given_up_def router_effect_def router_logs_def
  instruction_at_hand_def plain_full wdown_Start_detach numeral_eq_Suc

definition late_detach :: "monitor_env \<Rightarrow> envoy_event list" where
  "late_detach me =
     map (EgressEvent (plain_instruction me))
       (connects 0 @ fails 0 @ given_up @ connects 1 @
        [Watch 1 (Inr (Configure filebeat_conf)), Watch 1 (Inr Ready), RouterTakesDetach])"

lemma late_detach_run:
  "\<exists>s. envoy_run (envoy_up witness_boot) (late_detach me) = Some s \<and> attached (sys_egress s) \<and>
     loop (sys_egress s) = Selecting 1 \<and> length (conns (sys_egress s)) = 2 \<and>
     \<not> conn_cancelled (conns (sys_egress s) ! 1) \<and>
     applied_to 1 (history s) = [Ready, Configure filebeat_conf] \<and>
     sys_world s = Start_detach (witness_env []) (witness_boot\<lparr>wfs := filebeat_fs\<rparr>)"
  by (simp add: late_detach_def envoy_run_defs applied_to_def)

definition late_instruction :: "monitor_env \<Rightarrow> envoy_event list" where
  "late_instruction me =
     map (EgressEvent (plain_instruction me))
       (connects 0 @ [Watch 0 (Inr (Configure filebeat_conf))] @ fails 0 @ [RouterTakesDetach] @ given_up @
        [Watch 0 (Inr Ready)])"

lemma detach_nothing: "Start_detach (witness_env []) witness_boot = witness_boot"
  by (simp add: Start_detach_def stopAll_def witness_boot_ok(2) runner_Stop_def Telegraf_Stop_def Filebeat_Stop_def
      Oracle_Stop_def Packages_Stop_def Stop_def idle_runner_def loaded_telegraf_def witness_env_def good_env_def
      runner_PurgeConfig_def Filebeat_PurgeConfig_def Oracle_PurgeConfig_def Packages_PurgeConfig_def
      purge_empty plain_name_def Telegraf_PurgeConfig_def Let_def del: no_faults)

lemma late_instruction_run:
  "\<exists>s. envoy_run (envoy_up witness_boot) (late_instruction me) = Some s \<and> \<not> attached (sys_egress s) \<and>
     loop (sys_egress s) = Between \<and> detaches (history s) = 1 \<and> detachChan (sys_egress s) = 0 \<and>
     last (history s) = Applied 0 (Configure filebeat_conf) \<and> sys_world s = witness_boot\<lparr>wfs := filebeat_fs\<rparr>"
  by (simp add: late_instruction_def envoy_run_defs detaches_def detach_nothing)

text \<open>
  The two goroutines that talk to the router are not ordered. A detachment that waits in the
  channel while the next connection is made and configured clears what that connection has
  configured, and the Ambassador, to which the Envoy is attached, is not told. An instruction at
  hand when its connection is given up is applied after the router has cleared the agents, and
  stays although no connection is left.
\<close>

lemma detach_races:
  "(\<exists>s. envoy_run (envoy_up witness_boot) (late_detach me) = Some s \<and> envoy_reachable s \<and>
      attached (sys_egress s) \<and> loop (sys_egress s) = Selecting 1 \<and> \<not> conn_cancelled (conns (sys_egress s) ! 1) \<and>
      applied_to 1 (history s) = [Ready, Configure filebeat_conf] \<and>
      lookup (wfs (sys_world s)) [''data'', ''agents'', ''FILEBEAT'', ''config.d'', ''a.yml''] = None) \<and>
   (\<exists>s. envoy_run (envoy_up witness_boot) (late_instruction me) = Some s \<and> envoy_reachable s \<and>
      \<not> attached (sys_egress s) \<and> loop (sys_egress s) = Between \<and> detaches (history s) = 1 \<and>
      detachChan (sys_egress s) = 0 \<and>
      lookup (wfs (sys_world s)) [''data'', ''agents'', ''FILEBEAT'', ''config.d'', ''a.yml''] = Some (File ''x''))"
proof
  obtain s where s: "envoy_run (envoy_up witness_boot) (late_detach me) = Some s" "attached (sys_egress s)"
    "loop (sys_egress s) = Selecting 1" "\<not> conn_cancelled (conns (sys_egress s) ! 1)"
    "applied_to 1 (history s) = [Ready, Configure filebeat_conf]"
    "sys_world s = Start_detach (witness_env []) (witness_boot\<lparr>wfs := filebeat_fs\<rparr>)"
    using late_detach_run by blast
  moreover have "lookup (wfs (sys_world s)) [''data'', ''agents'', ''FILEBEAT'', ''config.d'', ''a.yml''] = None"
    using detach_spec [OF filebeat_reachable, of "witness_env []"] filebeat_fs_ok
    by (simp add: s(6) witness_env_def SupportedAgents_def good_env_def witness_boot_ok(2) idle_runner_def insert_commute)
  ultimately show "\<exists>s. envoy_run (envoy_up witness_boot) (late_detach me) = Some s \<and> envoy_reachable s \<and>
      attached (sys_egress s) \<and> loop (sys_egress s) = Selecting 1 \<and> \<not> conn_cancelled (conns (sys_egress s) ! 1) \<and>
      applied_to 1 (history s) = [Ready, Configure filebeat_conf] \<and>
      lookup (wfs (sys_world s)) [''data'', ''agents'', ''FILEBEAT'', ''config.d'', ''a.yml''] = None"
    using envoy_run_reachable [OF s(1) plain_start] by blast
  obtain u where u: "envoy_run (envoy_up witness_boot) (late_instruction me) = Some u" "\<not> attached (sys_egress u)"
    "loop (sys_egress u) = Between" "detaches (history u) = 1" "detachChan (sys_egress u) = 0"
    "sys_world u = witness_boot\<lparr>wfs := filebeat_fs\<rparr>" using late_instruction_run by blast
  moreover have "lookup (wfs (sys_world u)) [''data'', ''agents'', ''FILEBEAT'', ''config.d'', ''a.yml''] = Some (File ''x'')"
    by (simp add: u(6) filebeat_fs_lookup)
  ultimately show "\<exists>s. envoy_run (envoy_up witness_boot) (late_instruction me) = Some s \<and> envoy_reachable s \<and>
      \<not> attached (sys_egress s) \<and> loop (sys_egress s) = Between \<and> detaches (history s) = 1 \<and>
      detachChan (sys_egress s) = 0 \<and>
      lookup (wfs (sys_world s)) [''data'', ''agents'', ''FILEBEAT'', ''config.d'', ''a.yml''] = Some (File ''x'')"
    using envoy_run_reachable [OF u(1) plain_start] by blast
qed


lemma late_detach_settled:
  "\<exists>s. envoy_run (envoy_up witness_boot) (late_detach me) = Some s \<and> settled (history s)"
  by (simp add: late_detach_def envoy_run_defs settled_def)


end
