(* ===== verification/Telegraf_System.thy ===== *)
theory Telegraf_System
  imports Envoy_System
begin

text \<open>
  From the Ambassador to the agent: what telegraf is served by the Envoy's configuration server is
  what the instructions of all connections since the last detachment say, on the plain map of
  \<open>Config_Store\<close>. The specification reads only the history of \<open>Envoy_System\<close>.
\<close>

section \<open>The specification\<close>

definition telegraf_spec_step ::
  "(ConfigurationOp \<Rightarrow> string option) \<Rightarrow> router_log \<Rightarrow> (string \<Rightarrow> string option) \<Rightarrow> (string \<Rightarrow> string option)" where
  "telegraf_spec_step render l m =
     (case l of
        Applied k i \<Rightarrow>
          (case i of
             Configure conf \<Rightarrow>
               (if conf_agentType conf = TELEGRAF
                then fold (config_step render replace_content) (conf_operations conf) m else m)
           | _ \<Rightarrow> m)
      | Detached \<Rightarrow> Map.empty
      | _ \<Rightarrow> m)"

definition telegraf_spec :: "(ConfigurationOp \<Rightarrow> string option) \<Rightarrow> router_log list \<Rightarrow> (string \<Rightarrow> string option)" where
  "telegraf_spec render h = fold (telegraf_spec_step render) h Map.empty"

section \<open>The store of telegraf in the world\<close>

definition toml_of :: "world \<Rightarrow> (string \<times> string) list" where
  "toml_of w = tomlConfigs (wtelegraf w)"

lemma toml_of_upd [simp]:
  "toml_of (w\<lparr>wfs := fs\<rparr>) = toml_of w" "toml_of (w\<lparr>whandler := h\<rparr>) = toml_of w" "toml_of (w\<lparr>wdown := b\<rparr>) = toml_of w"
  "toml_of (w\<lparr>wfilebeat := r\<rparr>) = toml_of w" "toml_of (w\<lparr>woracle := r\<rparr>) = toml_of w"
  "toml_of (w\<lparr>wpackages := r\<rparr>) = toml_of w" "toml_of (w\<lparr>wtelegraf := t\<rparr>) = tomlConfigs t"
  by (simp_all add: toml_of_def)

lemma toml_Ensure [simp]: "toml_of (runner_EnsureRunningState env a b w) = toml_of w"
proof -
  have "tomlConfigs (snd (snd (Telegraf_EnsureRunningState env fs b h r))) = tomlConfigs r" for fs h r
    by (auto simp: Telegraf_EnsureRunningState_def Let_def split: prod.split option.split)
  then show ?thesis
    by (cases a) (simp_all add: runner_EnsureRunningState_def toml_of_def split: prod.split, metis snd_conv)
qed

lemma toml_Stop [simp]: "toml_of (runner_Stop henv a w) = toml_of w"
  by (simp add: toml_of_def runner_Stop_frame)

lemma toml_stopAll [simp]: "toml_of (stopAll henv order w) = toml_of w"
  by (induction order arbitrary: w) (auto simp: stopAll_def)

lemma toml_install [simp]: "toml_of (ProcessInstall re install w) = toml_of w"
proof -
  have i: "toml_of (snd (install_version re install out v)) = toml_of v" for out v
    by (auto simp: install_version_def Let_def split: prod.split option.split flow.split)
  have s: "toml_of (snd (ensureCurrentSymlink env a base ver v)) = toml_of v" for env a base ver v
    by (auto simp: ensureCurrentSymlink_def Let_def split: sum.split prod.split option.split)
  obtain ok v where v: "install_version re install (Join (agentBasePath w (inst_agentType install)) (inst_version install)) w = (ok, v)"
    by fastforce
  obtain err u where u: "ensureCurrentSymlink (renv re) (inst_agentType install) (agentBasePath w (inst_agentType install))
      (inst_version install) v = (err, u)"
    by fastforce
  show ?thesis
    using i [of "Join (agentBasePath w (inst_agentType install)) (inst_version install)" w] v
      s [of "renv re" "inst_agentType install" "agentBasePath w (inst_agentType install)" "inst_version install" v] u
    by (auto simp: ProcessInstall_def Let_def split: option.split)
qed

lemma toml_configure:
  "toml_of (ProcessConfigure env conf w) =
     (if conf_agentType conf = TELEGRAF
      then snd (apply_ops (handleTelegrafConfigurationOp (env_libs env)) (conf_operations conf) 0 (toml_of w))
      else toml_of w)"
proof (cases "conf_agentType conf = TELEGRAF")
  case True
  then show ?thesis
    by (auto simp: ProcessConfigure_def runner_ProcessConfig_def Telegraf_ProcessConfig_def registered_def
        toml_of_def [of w] Let_def split: prod.split)
next
  case False
  have p: "toml_of (snd (runner_ProcessConfig env (conf_agentType conf) conf w)) = toml_of w"
    using False by (auto simp: runner_ProcessConfig_def split: AgentType.split prod.split)
  obtain res v where v: "runner_ProcessConfig env (conf_agentType conf) conf w = (res, v)" by fastforce
  then have "toml_of v = toml_of w" using p by simp
  then show ?thesis using False v by (auto simp: ProcessConfigure_def Let_def split: flow.split option.split)
qed

lemma toml_purge:
  "toml_of (snd (PurgeAgentConfigs flt order w)) \<in> {toml_of w, []}"
  "fst (PurgeAgentConfigs flt order w) = None \<Longrightarrow> TELEGRAF \<in> set order \<Longrightarrow> toml_of (snd (PurgeAgentConfigs flt order w)) = []"
proof -
  have one: "toml_of (snd (runner_PurgeConfig flt a v)) = (if a = TELEGRAF then [] else toml_of v)" for a v
    by (auto simp: runner_PurgeConfig_def Telegraf_PurgeConfig_def split: AgentType.split prod.split)
  show all: "toml_of (snd (PurgeAgentConfigs flt order w)) \<in> {toml_of w, []}" for order w
  proof (induction flt order w rule: PurgeAgentConfigs.induct)
    case (2 flt' a as v)
    obtain err u where u: "runner_PurgeConfig flt' a v = (err, u)" by fastforce
    have "toml_of u \<in> {toml_of v, []}"
      using u by (auto simp: runner_PurgeConfig_def Telegraf_PurgeConfig_def split: AgentType.splits prod.splits)
    then show ?case using 2 u by (auto split: option.split)
  qed simp
  show "fst (PurgeAgentConfigs flt order w) = None \<Longrightarrow> TELEGRAF \<in> set order \<Longrightarrow>
      toml_of (snd (PurgeAgentConfigs flt order w)) = []"
  proof (induction order arbitrary: w)
    case (Cons a order)
    obtain u where u: "runner_PurgeConfig flt a w = (None, u)"
      using Cons.prems(1) by (auto split: prod.splits option.splits)
    show ?case
    proof (cases "a = TELEGRAF")
      case True
      then have "toml_of u = []" using one [of a w] u by simp
      then show ?thesis using all [of order u] u by auto
    next
      case False
      then show ?thesis using Cons u by simp
    qed
  qed simp
qed

section \<open>The refinement\<close>

text \<open>The conversion is the same whenever it is made, and purging reports no error.\<close>

definition event_ok :: "(ConfigurationOp \<Rightarrow> string option) \<Rightarrow> envoy \<Rightarrow> envoy_event \<Rightarrow> bool" where
  "event_ok render s e =
     (case e of
        EgressEvent ie ge \<Rightarrow>
          (let re = ie_router ie in
           telegraf_toml (env_libs (renv re)) = render \<and>
           (ge = RouterTakesDetach \<longrightarrow>
              fst (PurgeAgentConfigs (env_faults (renv re)) (range_agents re)
                     (stopAll (env_handler (renv re)) (range_agents re) (sys_world s))) = None))
      | WorldEvent _ \<Rightarrow> True)"

definition refines_spec :: "(ConfigurationOp \<Rightarrow> string option) \<Rightarrow> envoy \<Rightarrow> bool" where
  "refines_spec render s \<longleftrightarrow>
     map_of (toml_of (sys_world s)) = telegraf_spec render (history s) \<and> distinct (map fst (toml_of (sys_world s)))"

lemma telegraf_spec_snoc: "telegraf_spec render (h @ h') = fold (telegraf_spec_step render) h' (telegraf_spec render h)"
  by (simp add: telegraf_spec_def)

lemma toml_attached_step:
  assumes "\<not> wdown w"
  shows "toml_of (attached_step ie i w) =
    (case i of
       Configure conf \<Rightarrow>
         (if conf_agentType conf = TELEGRAF
          then snd (apply_ops (handleTelegrafConfigurationOp (env_libs (renv (ie_router ie)))) (conf_operations conf) 0 (toml_of w))
          else toml_of w)
     | _ \<Rightarrow> toml_of w)"
  using assms by (cases i) (simp_all add: attached_step_def event_of_def toml_configure)

lemma refines_apply:
  assumes "map_of c = m" and "distinct (map fst c)" and "telegraf_toml lb = render"
  shows "map_of (snd (apply_ops (handleTelegrafConfigurationOp lb) ops 0 c)) = fold (config_step render replace_content) ops m"
    and "distinct (map fst (snd (apply_ops (handleTelegrafConfigurationOp lb) ops 0 c)))"
  using telegraf_store.apply_ops_content [where s = c and ops = ops and n = 0 and lb = lb] assms
    telegraf_ops_distinct [OF assms(2)]
  by (simp_all add: list_all_iff)

lemma refines_router:
  assumes "refines_spec render s" and "\<not> wdown (sys_world s)" and "full_range ie"
    and "event_ok render s (EgressEvent ie ge)"
  shows "map_of (toml_of (router_effect ie (sys_egress s) ge (sys_world s))) =
      telegraf_spec render (history s @ router_logs (sys_egress s) ge)"
    and "distinct (map fst (toml_of (router_effect ie (sys_egress s) ge (sys_world s))))"
proof -
  let ?w = "sys_world s" and ?re = "ie_router ie"
  have r: "map_of (toml_of ?w) = telegraf_spec render (history s)" "distinct (map fst (toml_of ?w))"
    using assms(1) by (simp_all add: refines_spec_def)
  have lb: "telegraf_toml (env_libs (renv ?re)) = render" using assms(4) by (simp add: event_ok_def Let_def)
  note ops = refines_apply [OF r lb]
  have "map_of (toml_of (router_effect ie (sys_egress s) ge ?w)) =
        telegraf_spec render (history s @ router_logs (sys_egress s) ge) \<and>
      distinct (map fst (toml_of (router_effect ie (sys_egress s) ge ?w)))"
  proof (cases "instruction_at_hand (sys_egress s) ge")
    case (Some ki)
    then show ?thesis
      using r ops toml_attached_step [OF assms(2), of ie "snd ki"]
      by (cases "snd ki")
        (auto simp: router_effect_def router_logs_def telegraf_spec_snoc telegraf_spec_step_def split: prod.split)
  next
    case None
    have "TELEGRAF \<in> set (range_agents ?re)"
      using assms(3) unfolding full_range_def by (metis SupportedAgents_def list.set_intros(1) set_mset_mset)
    then have "ge = RouterTakesDetach \<Longrightarrow> toml_of (Start_detach ?re ?w) = []"
      using assms(4) toml_purge(2) by (auto simp: event_ok_def Let_def Start_detach_def)
    then show ?thesis
      using None r by (auto simp: router_effect_def router_logs_def telegraf_spec_snoc telegraf_spec_step_def)
  qed
  then show "map_of (toml_of (router_effect ie (sys_egress s) ge ?w)) =
        telegraf_spec render (history s @ router_logs (sys_egress s) ge)"
    "distinct (map fst (toml_of (router_effect ie (sys_egress s) ge ?w)))" by blast+
qed

lemma toml_own_event:
  assumes "own_event s we" and "world_next w we = Some w'"
  shows "toml_of w' = toml_of w"
  using assms by (cases we) (auto simp: own_event_def Start_done_def split: if_splits option.splits)

lemma spec_world_logs: "fold (telegraf_spec_step render) (world_logs we) m = m"
  by (cases we) (simp_all add: world_logs_def telegraf_spec_step_def)

lemma refines_next:
  assumes "refines_spec render s" and "envoy_next s e = Some t" and "event_ok render s e"
  shows "refines_spec render t"
  using assms(2)
proof (cases rule: envoy_next_cases)
  case (egress ie ge g)
  then show ?thesis using refines_router [OF assms(1) egress(2,3)] assms(3) by (simp add: refines_spec_def)
next
  case (world we w)
  then show ?thesis
    using assms(1) toml_own_event [OF world(2,3)] by (simp add: refines_spec_def telegraf_spec_snoc spec_world_logs)
qed

lemma refines_run:
  "envoy_run s es = Some t \<Longrightarrow> along (event_ok render) s es \<Longrightarrow> refines_spec render s \<Longrightarrow> refines_spec render t"
  by (rule along_run [where P = "event_ok render" and I = "refines_spec render"]) (auto intro: refines_next)

lemma refines_start: "envoy_start s \<Longrightarrow> refines_spec render s"
proof -
  assume "envoy_start s"
  then obtain env dataPath fs g w c where r: "runCmd env dataPath fs = Running (g, w, c)" "s = envoy_up w"
    by (auto simp: envoy_start_def)
  then obtain re where n: "NewAgentsRunner re (boot_world dataPath fs) = (None, w)"
    by (auto simp: runCmd_def setup_agents_def split: launch.splits prod.splits option.splits sum.splits)
  have l: "toml_of (snd (load_runners re order v)) = []" if "toml_of v = []" for order v
    using that
  proof (induction re order v rule: load_runners.induct)
    case (2 re a as v)
    obtain err u where u: "runner_Load (rload re) a (agentBasePath v a) v = (err, u)" by fastforce
    have "toml_of u = []"
      using 2(2) u by (auto simp: runner_Load_def Telegraf_Load_def Let_def toml_of_def split: AgentType.splits sum.splits prod.splits)
    then show ?case using 2(1) u by (auto split: option.split)
  qed simp
  obtain err u where u: "load_runners re (range_agents re) (boot_world dataPath fs) = (err, u)" by fastforce
  have "toml_of u = []" using l [of "boot_world dataPath fs" "range_agents re"] u by (simp add: toml_of_def boot_world_def fresh_telegraf_def)
  moreover have "PurgeAgentConfigs (env_faults (renv re)) (range_agents re) u = (None, w)"
    using n u by (cases err) (simp_all add: NewAgentsRunner_def)
  ultimately have "toml_of w = []" using toml_purge(1) [of "env_faults (renv re)" "range_agents re" u] by simp
  then show ?thesis by (simp add: refines_spec_def r(2) envoy_up_def telegraf_spec_def)
qed

lemma mset_values:
  assumes "distinct (map fst c)"
  shows "mset (map snd c) = image_mset (\<lambda>i. the (map_of c i)) (mset_set (dom (map_of c)))"
proof -
  have "map snd c = map (\<lambda>i. the (map_of c i)) (map fst c)"
    using assms by (auto simp: map_of_eq_Some_iff intro!: nth_equalityI)
  moreover have "mset (map fst c) = mset_set (dom (map_of c))"
    using mset_set_set [OF assms] by (simp add: dom_map_of_conv_image_fst)
  ultimately show ?thesis by (metis mset_map)
qed

text \<open>
  C4 From the Ambassador to the agent: in any run of the attached Envoy in which content converts
  the same way every time and purging reports no error, the configurations telegraf is served are
  those of the specification: the operations of all configure instructions for telegraf carried
  out since the last detachment, in the order they were carried out, whatever else was installed,
  configured, stopped, ended or restarted meanwhile. With the token of its environment it is given
  the main configuration, one header and each of these exactly once.
\<close>

theorem telegraf_follows_instructions:
  assumes "envoy_start s" and "envoy_run s es = Some t" and "along (event_ok render) s es"
    and "[] \<notin> ran (telegraf_spec render (history t))"
    and "\<And>c. mset (ord c) = mset c"
  shows "map_of (tomlConfigs (wtelegraf (sys_world t))) = telegraf_spec render (history t) \<and>
    (\<exists>vs. mset vs =
         image_mset (\<lambda>i. the (telegraf_spec render (history t) i)) (mset_set (dom (telegraf_spec render (history t)))) \<and>
       configServerHandler ord (wtelegraf (sys_world t)) (''Token '' @ configServerToken (wtelegraf (sys_world t))) =
         HttpResponse 200 (tomlMainConfig (wtelegraf (sys_world t)) @ inputs_header @ concat (map strip_inputs vs)))"
proof -
  let ?tr = "wtelegraf (sys_world t)"
  have r: "map_of (tomlConfigs ?tr) = telegraf_spec render (history t)" "distinct (map fst (tomlConfigs ?tr))"
    using refines_run [OF assms(2,3) refines_start [OF assms(1)]] by (simp_all add: refines_spec_def toml_of_def)
  have "snd ` set (tomlConfigs ?tr) = ran (telegraf_spec render (history t))"
    using r ran_distinct [OF r(2)] by simp
  then show ?thesis
    using config_server_serves [of ord ?tr, OF assms(5)] assms(4) mset_values [OF r(2)] r(1)
    by (intro conjI exI [of _ "map snd (ord (tomlConfigs ?tr))"]) simp_all
qed

definition telegraf_conf :: EnvoyInstructionConfigure where
  "telegraf_conf = \<lparr>conf_agentType = TELEGRAF, conf_operations = [mem_op CREATE]\<rparr>"

definition telegraf_events :: "monitor_env \<Rightarrow> envoy_event list" where
  "telegraf_events me =
     map (EgressEvent (plain_instruction me))
       (connects 0 @ [Watch 0 (Inr (Configure telegraf_conf)), Watch 0 (Inr Ready)])"

lemma telegraf_events_run:
  "\<exists>t. envoy_run (envoy_up witness_boot) (telegraf_events me) = Some t \<and>
     history t = [Applied 0 Ready, Applied 0 (Configure telegraf_conf)] \<and>
     along (event_ok (telegraf_toml plain_libs)) (envoy_up witness_boot) (telegraf_events me)"
  by (simp add: telegraf_events_def envoy_run_defs event_ok_def renv_witness good_env_def)

lemma telegraf_follows_instructions_witness:
  "\<forall>me. \<exists>t toml. envoy_run (envoy_up witness_boot) (telegraf_events me) = Some t \<and>
     ConvertJsonToTelegrafToml plain_libs mem_json [] 0 = Inr toml \<and>
     map_of (tomlConfigs (wtelegraf (sys_world t))) = [''m1'' \<mapsto> toml] \<and>
     configServerHandler id (wtelegraf (sys_world t)) (''Token '' @ configServerToken (wtelegraf (sys_world t))) =
       HttpResponse 200 (tomlMainConfig (wtelegraf (sys_world t)) @ inputs_header @ strip_inputs toml)"
proof
  fix me
  obtain toml where toml: "ConvertJsonToTelegrafToml plain_libs mem_json [] 0 = Inr toml" "toml \<noteq> []"
    by (simp add: ConvertJsonToTelegrafToml_def mem_json_decoded plain_libs_def Let_def)
  obtain t where t: "envoy_run (envoy_up witness_boot) (telegraf_events me) = Some t"
    "history t = [Applied 0 Ready, Applied 0 (Configure telegraf_conf)]"
    "along (event_ok (telegraf_toml plain_libs)) (envoy_up witness_boot) (telegraf_events me)"
    using telegraf_events_run by blast
  have start: "envoy_start (envoy_up witness_boot)" using plain_runs unfolding envoy_start_def by blast
  have spec: "telegraf_spec (telegraf_toml plain_libs) (history t) = [''m1'' \<mapsto> toml]"
    by (simp add: t(2) telegraf_spec_def telegraf_spec_step_def telegraf_conf_def mem_op_def config_step_def
        telegraf_toml_def convert_content_def toml replace_content_def)
  have "[] \<notin> ran (telegraf_spec (telegraf_toml plain_libs) (history t))" using toml(2) by (simp add: spec)
  from telegraf_follows_instructions [OF start t(1,3) this, of id]
  show "\<exists>t toml. envoy_run (envoy_up witness_boot) (telegraf_events me) = Some t \<and>
     ConvertJsonToTelegrafToml plain_libs mem_json [] 0 = Inr toml \<and>
     map_of (tomlConfigs (wtelegraf (sys_world t))) = [''m1'' \<mapsto> toml] \<and>
     configServerHandler id (wtelegraf (sys_world t)) (''Token '' @ configServerToken (wtelegraf (sys_world t))) =
       HttpResponse 200 (tomlMainConfig (wtelegraf (sys_world t)) @ inputs_header @ strip_inputs toml)"
    using t(1) toml(1) by (auto simp: spec)
qed

end
