(* ===== verification/Agent_Install.thy ===== *)
theory Agent_Install
  imports Agents_Router
begin

text \<open>
  What an install instruction achieves (\<^verbatim>\<open>ProcessInstall\<close> and \<^verbatim>\<open>ensureCurrentSymlink\<close> of
  \<^verbatim>\<open>agents/agents_router.go\<close>, \<^verbatim>\<open>downloadExtractTarGz\<close> of \<^verbatim>\<open>agents/agents.go\<close>): the
  files of a successful and of a failed installation, the version link, and the process of the
  version before.
\<close>

section \<open>Installing\<close>

lemma agentBasePath_registered:
  assumes "registered a"
  shows "agentBasePath w a = DataPath w @ [''agents'', AgentType_String a]"
proof -
  have "plain_name agentsSubpath" "plain_name (AgentType_String a)"
    using assms by (auto simp: plain_name_def agentsSubpath_def registered_def)
  then show ?thesis by (simp add: agentBasePath_def agentsSubpath_def)
qed

lemma fileExists_missing:
  "wf_fs fs \<Longrightarrow> dir_path fs p \<Longrightarrow> lookup fs p = None \<Longrightarrow> \<not> fileExists no_faults fs p"
  using stat_dir_path [of fs p] by (auto simp: fileExists_def split: sum.split)

lemma no_children: "wf_fs fs \<Longrightarrow> lookup fs p \<noteq> Some Dir \<Longrightarrow> lookup fs (p @ [c]) = None"
  using wf_fsD(1) [of fs p c] by (cases "lookup fs (p @ [c])") auto

lemma no_descendants:
  assumes "wf_fs fs" and "lookup fs p \<noteq> Some Dir" and "strict_prefix p q"
  shows "lookup fs q = None"
proof (rule ccontr)
  assume q: "lookup fs q \<noteq> None"
  obtain z zs where zs: "q = p @ z # zs" using assms(3) by (rule strict_prefixE')
  then have "lookup fs (butlast q) = Some Dir" using q assms(1) by (auto simp: wf_fs_def)
  moreover have "prefix p (butlast q)" using zs by (auto simp: butlast_append)
  ultimately show False using wf_fs_dir_above [OF assms(1)] assms(2) by blast
qed

lemma runner_Stop_pointer: "run_of (runner_Stop henv a w) a = None"
  by (cases a)
     (auto simp: runner_Stop_def Telegraf_Stop_def Filebeat_Stop_def Oracle_Stop_def Packages_Stop_def)

lemma symlink_spec:
  assumes "env_faults env = no_faults" and "wf_fs (wfs w)" and "lookup (wfs w) base = Some Dir"
    and "lookup (wfs w) (base @ [''CURRENT'']) = None \<or> (\<exists>t. lookup (wfs w) (base @ [''CURRENT'']) = Some (Link t))"
  obtains w' where "ensureCurrentSymlink env a base v w = (None, w')"
    and "\<And>q. lookup (wfs w') q = (if q = base @ [''CURRENT''] then Some (Link v) else lookup (wfs w) q)"
    and "lookup (wfs w) (base @ [''CURRENT'']) \<noteq> Some (Link v) \<Longrightarrow>
         whandler w' = Stop (env_handler env) (run_of w a) (whandler w) \<and> run_of w' a = None"
    and "lookup (wfs w) (base @ [''CURRENT'']) = Some (Link v) \<Longrightarrow> w' = w"
proof -
  let ?p = "base @ [''CURRENT'']"
  have pc: "plain_name ''CURRENT''" by (simp add: plain_name_def)
  have j: "Join base currentVerLink = ?p" using pc by (simp add: currentVerLink_def)
  have r: "resolve fs False ?p = Inr ?p" if "wf_fs fs" "lookup fs base = Some Dir" for fs
    using that pc by simp
  have below: "strict_prefix ?p q \<Longrightarrow> lookup (wfs w) q = None" for q
    using no_descendants [OF assms(2), of ?p q] assms(4) by auto
  have frame: "wfs (runner_Stop henv a x) = wfs x" for henv x by (rule runner_Stop_frame(3))
  consider "lookup (wfs w) ?p = None" | "lookup (wfs w) ?p = Some (Link v)"
    | t where "lookup (wfs w) ?p = Some (Link t)" "t \<noteq> v"
    using assms(4) by metis
  then show ?thesis
  proof cases
    case 1
    let ?w = "(runner_Stop (env_handler env) a w)\<lparr>wfs := put ?p (Link v) (wfs w)\<rparr>"
    have "ensureCurrentSymlink env a base v w = (None, ?w)"
      using 1 r [OF assms(2,3)]
      by (simp add: ensureCurrentSymlink_def Let_def j assms(1) os_Lstat_def stat_node_def frame
          os_Symlink_def create_entry_def)
    then show ?thesis using that [of ?w] 1 by (simp add: runner_Stop_handler runner_Stop_pointer)
  next
    case 2
    have "ensureCurrentSymlink env a base v w = (None, w)"
      using 2 r [OF assms(2,3)]
      by (simp add: ensureCurrentSymlink_def Let_def j assms(1) os_Lstat_def os_Readlink_def stat_node_def)
    then show ?thesis using that [of w] 2 by simp
  next
    case 3
    let ?fs = "remove_tree ?p (wfs w)"
    let ?w = "(runner_Stop (env_handler env) a (w\<lparr>wfs := ?fs\<rparr>))\<lparr>wfs := put ?p (Link v) ?fs\<rparr>"
    have wf: "wf_fs ?fs" by (rule wf_fs_remove_tree [OF assms(2)]) simp
    have d: "lookup ?fs base = Some Dir" "lookup ?fs ?p = None" using assms(3) by (auto dest: prefix_length_le)
    have rm: "os_Remove no_faults (wfs w) ?p = (None, ?fs)"
      using 3 r [OF assms(2,3)] by (simp add: os_Remove_def)
    have sl: "os_Symlink no_faults ?fs v ?p = (None, put ?p (Link v) ?fs)"
      using d r [OF wf d(1)] by (simp add: os_Symlink_def create_entry_def)
    have "ensureCurrentSymlink env a base v w = (None, ?w)"
      using 3 r [OF assms(2,3)] rm sl
      by (simp add: ensureCurrentSymlink_def Let_def j assms(1) os_Lstat_def os_Readlink_def stat_node_def frame
          del: no_faults) (simp add: no_faults_def)
    moreover have "lookup (put ?p (Link v) ?fs) q = (if q = ?p then Some (Link v) else lookup (wfs w) q)" for q
      using below [of q] by (auto simp: strict_prefix_def)
    ultimately show ?thesis using that [of ?w] 3 by (simp add: runner_Stop_handler runner_Stop_pointer)
  qed
qed

lemma runner_ensure_wfs: "wfs (runner_EnsureRunningState env a b w) = wfs w"
  by (auto simp: runner_EnsureRunningState_def split: AgentType.splits prod.splits)

text \<open>The only process \<^verbatim>\<open>EnsureRunningState\<close> starts is that of the next context.\<close>

lemma Stop_nextCtx [simp]: "nextCtx (Stop env r h) = nextCtx h"
  by (auto simp: Stop_def WaitOnAgentCommand_def Let_def split: option.splits)

lemma runner_ensure_pointer:
  "run_of (runner_EnsureRunningState env a b w) a \<in> {run_of w a, None, Some (nextCtx (whandler w))}"
proof (cases a)
  case TELEGRAF
  then show ?thesis
    by (auto simp: runner_EnsureRunningState_def Telegraf_EnsureRunningState_def CreateContext_def Let_def
        split: prod.splits option.splits if_splits)
next
  case FILEBEAT
  then show ?thesis
    by (auto simp: runner_EnsureRunningState_def Filebeat_EnsureRunningState_def CreateContext_def Let_def
        split: prod.splits option.splits if_splits)
next
  case ORACLE
  then show ?thesis
    by (auto simp: runner_EnsureRunningState_def Oracle_EnsureRunningState_def Oracle_Stop_def
        CreateContext_def Let_def split: prod.splits option.splits if_splits)
next
  case PACKAGES
  then show ?thesis
    by (auto simp: runner_EnsureRunningState_def Packages_EnsureRunningState_def Packages_Stop_def
        CreateContext_def Let_def split: prod.splits option.splits if_splits)
qed (simp add: runner_EnsureRunningState_def)

lemma run_of_case:
  "run_of (case xt of (f, h, r) \<Rightarrow> w\<lparr>whandler := h, wtelegraf := r, wdown := f \<or> wdown w\<rparr>) =
     (run_of w)(TELEGRAF := running (snd (snd xt)))"
  "run_of (case xf of (f, h, r) \<Rightarrow> w\<lparr>whandler := h, wfilebeat := r, wdown := f \<or> wdown w\<rparr>) =
     (run_of w)(FILEBEAT := running (snd (snd xf)))"
  "run_of (case xo of (f, h, r) \<Rightarrow> w\<lparr>whandler := h, woracle := r, wdown := f \<or> wdown w\<rparr>) =
     (run_of w)(ORACLE := running (snd (snd xo)))"
  "run_of (case xp of (f, h, r) \<Rightarrow> w\<lparr>whandler := h, wpackages := r, wdown := f \<or> wdown w\<rparr>) =
     (run_of w)(PACKAGES := running (snd (snd xp)))"
  by (simp_all add: run_of_upd split: prod.split)

lemma runner_ensure_others: "a' \<noteq> a \<Longrightarrow> run_of (runner_EnsureRunningState env a b w) a' = run_of w a'"
  by (cases a) (simp_all add: runner_EnsureRunningState_def run_of_case)

lemma ensure_starts_new_only:
  assumes "world_inv w" and "run_of w a = None" and "agent_of (whandler w) c = Some a"
  shows "\<not> active (whandler (runner_EnsureRunningState env a b w)) c"
proof
  let ?w = "runner_EnsureRunningState env a b w"
  assume act: "active (whandler ?w) c"
  have inv: "world_inv ?w" using ensure_world [OF assms(1)] by blast
  have "c < nextCtx (whandler w)"
  proof (rule ccontr)
    assume "\<not> c < nextCtx (whandler w)"
    then have "ctxs (whandler w) c = None"
      using assms(1) by (simp add: world_inv_def runners_inv_def handler_inv_def)
    then show False using assms(3) by (simp add: agent_of_def)
  qed
  obtain a' where ag: "agent_of (whandler ?w) c = Some a'" using active_agent_of [OF act] by blast
  moreover have "slots_ok active agent_of (run_of ?w) (whandler ?w)"
    using inv by (simp add: world_inv_def runners_inv_def)
  ultimately have r: "run_of ?w a' = Some c" using act unfolding slots_ok_def by blast
  show False
  proof (cases "a' = a")
    case True
    then show False using runner_ensure_pointer [of env a b w] r assms(2) \<open>c < nextCtx (whandler w)\<close> by auto
  next
    case False
    then have "run_of w a' = Some c" using r by (simp add: runner_ensure_others)
    then have "agent_of (whandler w) c = Some a'" using assms(1) by (simp add: world_inv_def runners_inv_def)
    then show False using assms(3) False by simp
  qed
qed

text \<open>The part of an installation that fetches the version.\<close>

lemma install_version_ok:
  assumes "env_faults (renv re) = no_faults" and "wf_fs (wfs w)" and "dir_path (wfs w) out" and "lookup (wfs w) out = None"
    and "http_downloads re url = TarGz (before @ e # after) True" and "te_readable e"
    and "plain_name (path_File (te_Name e))" and "\<forall>e' \<in> set before \<union> set after. te_Name e' \<noteq> te_Name e"
  obtains fs where
    "install_version re \<lparr>inst_agentType = a, inst_version = v, inst_url = url, inst_exe = te_Name e\<rparr> out w =
      (True, w\<lparr>wfs := fs\<rparr>)"
    "wf_fs fs"
    "\<And>q. lookup fs q =
      (if q = out @ [binSubpath] then Some Dir
       else if q = out @ [binSubpath, path_File (te_Name e)] then Some (File (te_content e))
       else if prefix q out then Some Dir else lookup (wfs w) q)"
proof -
  obtain fs1 where fs1: "os_MkdirAll no_faults (wfs w) out = (None, fs1)" "wf_fs fs1"
    "\<And>q. lookup fs1 q = (if prefix q out then Some Dir else lookup (wfs w) q)"
    using os_MkdirAll_dir_path [OF assms(2,3)] by blast
  have empty: "lookup fs1 (out @ [c]) = None" for c
    using no_children [OF assms(2), of out c] assms(4) by (simp add: fs1(3))
  have dir: "lookup fs1 out = Some Dir" by (simp add: fs1(3))
  obtain fs where fs: "downloadExtractTarGz no_faults (http_downloads re) out url (te_Name e) fs1 = (Ret None, fs)"
    "wf_fs fs" "\<And>q. lookup fs q =
      (if q = out @ [binSubpath] then Some Dir
       else if q = out @ [binSubpath, path_File (te_Name e)] then Some (File (te_content e)) else lookup fs1 q)"
    by (rule download_ok [where fs = fs1 and out = out and get = "http_downloads re" and url = url and e = e,
        OF fs1(2) dir empty assms(7,6,5,8)], rule that)
  show ?thesis
  proof (rule that [of fs])
    show "install_version re \<lparr>inst_agentType = a, inst_version = v, inst_url = url, inst_exe = te_Name e\<rparr> out w =
        (True, w\<lparr>wfs := fs\<rparr>)"
      using fs1(1) fs(1) fileExists_missing [OF assms(2,3,4)] assms(1)
      by (simp add: install_version_def runner_PostInstall_def Telegraf_PostInstall_def split: AgentType.split)
  qed (use fs(2,3) fs1(3) in simp_all)
qed

text \<open>
  C23 An install instruction for a version that is not there yet, whose archive holds the named
  executable once and can be read, the system calls succeeding: the executable is in the version's
  \<^verbatim>\<open>bin\<close> directory with the archive's content, the version link points to the version, every
  other file is as it was, and no process of the version before is kept alive.
\<close>

theorem ProcessInstall_success:
  assumes "world_reachable w" and "env_faults (renv re) = no_faults" and "registered a" and "wf_fs (wfs w)"
    and "plain_name v" and "v \<noteq> ''CURRENT''" and "dir_path (wfs w) (agentBasePath w a @ [v])"
    and "lookup (wfs w) (agentBasePath w a @ [v]) = None"
    and "lookup (wfs w) (agentBasePath w a @ [''CURRENT'']) \<in> {None} \<union> range (Some \<circ> Link)"
    and "http_downloads re url = TarGz (before @ e # after) True"
    and "te_readable e" and "plain_name (path_File (te_Name e))"
    and "\<forall>e' \<in> set before \<union> set after. te_Name e' \<noteq> te_Name e"
    and "lookup (wfs w) (agentBasePath w a @ [''CURRENT'']) \<noteq> Some (Link v)"
  shows "let base = agentBasePath w a;
             w' = ProcessInstall re \<lparr>inst_agentType = a, inst_version = v, inst_url = url, inst_exe = te_Name e\<rparr> w
         in lookup (wfs w') (base @ [v, ''bin'', path_File (te_Name e)]) = Some (File (te_content e)) \<and>
            lookup (wfs w') (base @ [''CURRENT'']) = Some (Link v) \<and>
            (\<forall>q. \<not> prefix (base @ [v]) q \<and> \<not> prefix q (base @ [v]) \<and> q \<noteq> base @ [''CURRENT''] \<longrightarrow>
               lookup (wfs w') q = lookup (wfs w) q) \<and>
            (\<forall>c. agent_of (whandler w) c = Some a \<longrightarrow> \<not> active (whandler w') c)"
proof -
  let ?base = "agentBasePath w a" and ?out = "agentBasePath w a @ [v]" and ?x = "path_File (te_Name e)"
  let ?inst = "\<lparr>inst_agentType = a, inst_version = v, inst_url = url, inst_exe = te_Name e\<rparr>"
  have inv: "world_inv w" by (rule world_reachable_inv [OF assms(1)])
  have j: "Join ?base v = ?out" using assms(5) by simp
  obtain fs2 where i: "install_version re ?inst ?out w = (True, w\<lparr>wfs := fs2\<rparr>)" and fs2: "wf_fs fs2"
    "\<And>q. lookup fs2 q =
      (if q = ?out @ [binSubpath] then Some Dir
       else if q = ?out @ [binSubpath, ?x] then Some (File (te_content e))
       else if prefix q ?out then Some Dir else lookup (wfs w) q)"
    using install_version_ok [OF assms(2,4,7,8,10,11,12,13), of a v] by blast
  let ?w = "w\<lparr>wfs := fs2\<rparr>"
  have nb: "?base @ [''CURRENT''] \<noteq> ?out @ zs" "\<not> prefix (?base @ [''CURRENT'']) ?out" for zs
    using assms(6) by auto
  have cur: "lookup fs2 (?base @ [''CURRENT'']) = lookup (wfs w) (?base @ [''CURRENT''])"
    using nb(1) [of "[_]"] nb(1) [of "[_, _]"] nb(2) by (simp add: fs2(2))
  have bd: "lookup fs2 ?base = Some Dir" by (simp add: fs2(2))
  obtain w2 where w2: "ensureCurrentSymlink (renv re) a ?base v ?w = (None, w2)"
    "\<And>q. lookup (wfs w2) q = (if q = ?base @ [''CURRENT''] then Some (Link v) else lookup fs2 q)"
    "run_of w2 a = None" "whandler w2 = Stop (env_handler (renv re)) (run_of w a) (whandler w)"
  proof (rule symlink_spec [where env = "renv re" and w = ?w and base = ?base and v = v and a = a, OF assms(2)])
    show "wf_fs (wfs ?w)" "lookup (wfs ?w) ?base = Some Dir" using fs2(1) bd by simp_all
    show "lookup (wfs ?w) (?base @ [''CURRENT'']) = None \<or> (\<exists>t. lookup (wfs ?w) (?base @ [''CURRENT'']) = Some (Link t))"
      using assms(9) cur by auto
  qed (use that assms(14) cur in auto)
  have w': "ProcessInstall re ?inst w = runner_EnsureRunningState (renv re) a False w2"
    using assms(3) i w2(1) by (simp add: ProcessInstall_def Let_def j)
  have inv2: "world_inv w2" "others_kept a (whandler w) (whandler w2)"
    using ensureCurrentSymlink_world [of ?w "renv re" a ?base v] w2(1) inv by simp_all
  have gone: "\<not> active (whandler (ProcessInstall re ?inst w)) c" if "agent_of (whandler w) c = Some a" for c
  proof -
    have "handler_inv (whandler w)" using inv by (simp add: world_inv_def runners_inv_def)
    then have "agent_of (whandler w2) c = Some a" using that by (simp add: w2(4) Stop_spec(2))
    then show ?thesis using ensure_starts_new_only [OF inv2(1) w2(3)] by (simp add: w')
  qed
  have files: "lookup (wfs (ProcessInstall re ?inst w)) q =
      (if q = ?base @ [''CURRENT''] then Some (Link v) else lookup fs2 q)" for q
    by (simp add: w' runner_ensure_wfs w2(2))
  show ?thesis
    using gone nb(1) [of "[_, _]"]
    by (auto simp: Let_def files fs2(2) binSubpath_def)
qed

lemma dir_path_empty: "list_all plain_name p \<Longrightarrow> dir_path [] p"
  by (auto simp: dir_path_def lookup_def)

lemma ProcessInstall_success_witness:
  "let inst = \<lparr>inst_agentType = TELEGRAF, inst_version = ''1.0'', inst_url = [], inst_exe = ''./telegraf''\<rparr>;
       w = ProcessInstall (witness_env []) inst witness_boot
   in lookup (wfs w) [''data'', ''agents'', ''TELEGRAF'', ''1.0'', ''bin'', ''telegraf''] = Some (File ''exe'') \<and>
      lookup (wfs w) [''data'', ''agents'', ''TELEGRAF'', ''CURRENT''] = Some (Link ''1.0'')"
proof -
  let ?e = "\<lparr>te_Name = ''./telegraf'', te_content = ''exe'', te_readable = True\<rparr>"
  have b: "agentBasePath witness_boot TELEGRAF = [''data'', ''agents'', ''TELEGRAF'']"
    by (simp add: agentBasePath_def witness_boot_ok(2))
  have f: "path_File ''./telegraf'' = ''telegraf''" by code_simp
  have p: "list_all plain_name [''data'', ''agents'', ''TELEGRAF'', ''1.0'']" "plain_name ''telegraf''"
    by (simp_all add: plain_name_def)
  have e: "env_faults (renv (witness_env [])) = no_faults"
    "http_downloads (witness_env []) [] = TarGz ([] @ ?e # []) True"
    by (simp_all add: witness_env_def good_env_def)
  have l: "wfs witness_boot = []" by (simp add: witness_boot_ok(2))
  have n: "lookup [] (x # xs) = None" for x :: string and xs by (simp add: lookup_def)
  show ?thesis
    using ProcessInstall_success [where v = "''1.0''" and a = TELEGRAF, OF witness_boot_reachable e(1) _ _ _ _ _ _ _ e(2)] p
    by (simp add: b f n l dir_path_empty wf_fs_empty registered_def Let_def plain_name_def)
qed

text \<open>
  C24 An install instruction that cannot be carried out (the download fails, is not an archive, or
  has no entry of the executable's name), the system calls succeeding, can be repeated: the
  version's directory is not there, nor anything below it, the version link, every other file,
  the runners and the processes are as they were, and the Envoy goes on.
\<close>

theorem ProcessInstall_failure:
  assumes "env_faults (renv re) = no_faults" and "registered a" and "wf_fs (wfs w)" and "plain_name v"
    and "dir_path (wfs w) (agentBasePath w a @ [v])" and "lookup (wfs w) (agentBasePath w a @ [v]) = None"
    and "no_executable (http_downloads re url) exe"
  shows "let base = agentBasePath w a;
             w' = ProcessInstall re \<lparr>inst_agentType = a, inst_version = v, inst_url = url, inst_exe = exe\<rparr> w
         in w' = w\<lparr>wfs := wfs w'\<rparr> \<and>
            (\<forall>q. prefix (base @ [v]) q \<longrightarrow> lookup (wfs w') q = None) \<and>
            (\<forall>q. \<not> prefix (base @ [v]) q \<and> \<not> prefix q base \<longrightarrow> lookup (wfs w') q = lookup (wfs w) q)"
proof -
  let ?base = "agentBasePath w a" and ?out = "agentBasePath w a @ [v]"
  let ?inst = "\<lparr>inst_agentType = a, inst_version = v, inst_url = url, inst_exe = exe\<rparr>"
  obtain fs1 where fs1: "os_MkdirAll no_faults (wfs w) ?out = (None, fs1)" "wf_fs fs1"
    "\<And>q. lookup fs1 q = (if prefix q ?out then Some Dir else lookup (wfs w) q)"
    using os_MkdirAll_dir_path [OF assms(3,5)] by blast
  have "lookup fs1 (?out @ [c]) = None" for c
    using no_children [OF assms(3), of ?out c] assms(6) by (simp add: fs1(3))
  then obtain err fs2 where fs2:
    "downloadExtractTarGz no_faults (http_downloads re) ?out url exe fs1 = (Ret (Some err), fs2)"
    "wf_fs fs2" "\<And>q. \<not> prefix ?out q \<or> q = ?out \<Longrightarrow> lookup fs2 q = lookup fs1 q"
    using download_fails [where fs = fs1 and out = ?out and get = "http_downloads re" and url = url
      and exePath = exe, OF fs1(2) _ _ assms(7)] by (metis fs1(3) prefix_order.refl)
  have "\<not> prefix ?out ?base" by (auto dest: prefix_length_le)
  then have "lookup fs2 ?base = Some Dir" by (simp add: fs2(3) fs1(3))
  then obtain fs3 where fs3: "os_RemoveAll no_faults fs2 ?out = (None, fs3)"
    "\<And>q. lookup fs3 q = (if prefix ?out q then None else lookup fs2 q)"
    using os_RemoveAll_dir_path [OF fs2(2) dir_path_Dir [OF fs2(2)] assms(4)] by blast
  have j: "Join ?base v = ?out" using assms(4) by simp
  have "install_version re ?inst ?out w = (False, w\<lparr>wfs := fs3\<rparr>)"
    using fs1(1) fs2(1) fs3(1) fileExists_missing [OF assms(3,5,6)] assms(1)
    by (simp add: install_version_def)
  then have "ProcessInstall re ?inst w = w\<lparr>wfs := fs3\<rparr>"
    using assms(2) by (simp add: ProcessInstall_def Let_def j)
  then show ?thesis by (auto simp: Let_def fs3(2) fs2(3) fs1(3))
qed

lemma ProcessInstall_failure_witness:
  "let re = (witness_env [])\<lparr>http_downloads := \<lambda>_. TarGz [] True\<rparr>;
       inst = \<lparr>inst_agentType = TELEGRAF, inst_version = ''1.0'', inst_url = [], inst_exe = ''./telegraf''\<rparr>
   in lookup (wfs (ProcessInstall re inst witness_boot)) [''data'', ''agents'', ''TELEGRAF'', ''1.0''] = None \<and>
      whandler (ProcessInstall re inst witness_boot) = whandler witness_boot"
proof -
  let ?re = "(witness_env [])\<lparr>http_downloads := \<lambda>_. TarGz [] True\<rparr>"
  have b: "agentBasePath witness_boot TELEGRAF = [''data'', ''agents'', ''TELEGRAF'']"
    by (simp add: agentBasePath_def witness_boot_ok(2))
  have e: "env_faults (renv ?re) = no_faults" by (simp add: witness_env_def good_env_def)
  have l: "wfs witness_boot = []" by (simp add: witness_boot_ok(2))
  have n: "lookup [] (x # xs) = None" for x :: string and xs by (simp add: lookup_def)
  have ne: "no_executable (http_downloads ?re []) ''./telegraf''" by (simp add: no_executable_def)
  let ?w = "ProcessInstall ?re \<lparr>inst_agentType = TELEGRAF, inst_version = ''1.0'', inst_url = [],
    inst_exe = ''./telegraf''\<rparr> witness_boot"
  have "?w = witness_boot\<lparr>wfs := wfs ?w\<rparr> \<and> lookup (wfs ?w) [''data'', ''agents'', ''TELEGRAF'', ''1.0''] = None"
    using ProcessInstall_failure [where w = witness_boot and v = "''1.0''" and a = TELEGRAF, OF e _ _ _ _ _ ne]
    by (simp add: b n l dir_path_empty wf_fs_empty registered_def Let_def plain_name_def)
  then show ?thesis by (metis (no_types, lifting) world.select_convs(3) world.surjective world.update_convs(2))
qed

end
