(* ===== verification/World_Files.thy ===== *)
theory World_Files
  imports Agent_Install
begin

text \<open>
  The files of an Envoy stay a tree: whatever instructions ask for and whichever system calls
  fail, every entry lies in a directory and has a plain name. The paths instructions can name are
  cleaned when they are joined, which is all this needs.
\<close>

section \<open>The operations on files\<close>

text \<open>An operation on files keeps the tree.\<close>

definition keeps_tree :: "(fs \<Rightarrow> 'a \<times> fs) \<Rightarrow> bool" where
  "keeps_tree f \<longleftrightarrow> (\<forall>fs. wf_fs fs \<longrightarrow> wf_fs (snd (f fs)))"

lemma keeps_treeI: "(\<And>fs. wf_fs fs \<Longrightarrow> wf_fs (snd (f fs))) \<Longrightarrow> keeps_tree f"
  by (simp add: keeps_tree_def)

lemma keeps_treeD: "keeps_tree f \<Longrightarrow> f fs = (x, fs') \<Longrightarrow> wf_fs fs \<Longrightarrow> wf_fs fs'"
  unfolding keeps_tree_def by (metis snd_conv)

lemma syscall_trees:
  "clean_path p \<Longrightarrow> keeps_tree (\<lambda>fs. os_Mkdir flt fs p)"
  "clean_path p \<Longrightarrow> keeps_tree (\<lambda>fs. os_Symlink flt fs t p)"
  "clean_path p \<Longrightarrow> keeps_tree (\<lambda>fs. os_MkdirAll flt fs p)"
  "keeps_tree (\<lambda>fs. os_Remove flt fs p)" "keeps_tree (\<lambda>fs. os_RemoveAll flt fs p)"
  "clean_path p \<Longrightarrow> keeps_tree (\<lambda>fs. ioutil_WriteFile flt fs p d)"
  "clean_path p \<Longrightarrow> keeps_tree (\<lambda>fs. os_OpenFile flt fs p)"
  "keeps_tree (\<lambda>fs. file_Write flt fs q d)"
  by (auto intro!: keeps_treeI wf_syscalls)

lemmas treeD = syscall_trees [THEN keeps_treeD]

lemma wf_extract_entries:
  "clean_path exeOut \<Longrightarrow> wf_fs fs \<Longrightarrow> wf_fs (snd (extract_entries flt exeOut exePath es eof b fs))"
proof (induction flt exeOut exePath es eof b fs rule: extract_entries.induct)
  case (2 flt exeOut exePath e es eof b fs)
  obtain opened fs1 where o: "os_OpenFile flt fs exeOut = (opened, fs1)" by fastforce
  have wf1: "wf_fs fs1" using "2.prems" o treeD(7) by blast
  show ?case
  proof (cases opened)
    case (Inr q)
    obtain err fs2 where w: "file_Write flt fs1 q (te_content e) = (err, fs2)" by fastforce
    have "wf_fs fs2" using treeD(8) [OF w wf1] .
    then show ?thesis using 2 o Inr w by auto
  qed (use 2 o wf1 in auto)
qed simp

lemma tree_downloadExtractTarGz:
  assumes "clean_path out"
  shows "keeps_tree (downloadExtractTarGz flt get out url exe)"
proof (rule keeps_treeI)
  fix fs assume wf: "wf_fs fs"
  have b: "clean_path (Join out binSubpath)" using Join_clean [OF assms] .
  have "wf_fs fs1" if "os_Mkdir flt fs (Join out binSubpath) = (x, fs1)" for x fs1 using treeD(1) [OF b that wf] .
  then show "wf_fs (snd (downloadExtractTarGz flt get out url exe fs))"
    using wf wf_extract_entries [OF Join_clean [OF b], of _ flt _ exe]
    by (auto simp: downloadExtractTarGz_def Let_def split: download.split prod.split option.split flow.split)
      (metis snd_conv)+
qed

lemma tree_ensureConfigsDir: "clean_path base \<Longrightarrow> keeps_tree (ensureConfigsDir flt base)"
  by (intro keeps_treeI) (auto simp: ensureConfigsDir_def Let_def split: prod.split option.split
      dest: treeD(3) [OF Join_clean])

lemma ensureConfigsDir_path: "clean_path base \<Longrightarrow> ensureConfigsDir flt base fs = (Inr p, fs') \<Longrightarrow> clean_path p"
  by (auto simp: ensureConfigsDir_def Let_def Join_clean split: prod.splits option.splits)

lemma tree_purge: "keeps_tree (purgeConfigsDirectory flt base)"
  by (intro keeps_treeI) (auto simp: purgeConfigsDirectory_def split: prod.split option.split dest: treeD(5))

lemma tree_content_op: "clean_path p \<Longrightarrow> keeps_tree (handleContentConfigurationOp flt lb op p conversion)"
  by (intro keeps_treeI) (auto simp: handleContentConfigurationOp_def Let_def
      split: prod.split option.split OpType.split dest: treeD(4) treeD(6))

lemma tree_apply_ops: "(\<And>op. keeps_tree (handle op)) \<Longrightarrow> keeps_tree (apply_ops handle ops n)"
proof (induction ops arbitrary: n)
  case (Cons op ops)
  show ?case
  proof (rule keeps_treeI)
    fix fs assume wf: "wf_fs fs"
    obtain b fs1 where r: "handle op fs = (b, fs1)" by fastforce
    have "wf_fs fs1" using keeps_treeD [OF Cons.prems r wf] .
    then show "wf_fs (snd (apply_ops handle (op # ops) n fs))"
      using Cons.IH [OF Cons.prems] by (simp add: r keeps_tree_def)
  qed
qed (simp add: keeps_tree_def)

lemma tree_apply_ops_strict: "(\<And>op. keeps_tree (handle op)) \<Longrightarrow> keeps_tree (apply_ops_strict handle ops n)"
proof (induction ops arbitrary: n)
  case (Cons op ops)
  show ?case
  proof (rule keeps_treeI)
    fix fs assume wf: "wf_fs fs"
    obtain b fs1 where r: "handle op fs = (b, fs1)" by fastforce
    have "wf_fs fs1" using keeps_treeD [OF Cons.prems r wf] .
    then show "wf_fs (snd (apply_ops_strict handle (op # ops) n fs))"
      using Cons.IH [OF Cons.prems] by (auto simp: r keeps_tree_def split: flow.split sum.split)
  qed
qed (simp add: keeps_tree_def)

lemma tree_writeConfigFile: "clean_path p \<Longrightarrow> keeps_tree (writeConfigFile encode flt p op)"
proof (rule keeps_treeI)
  fix fs assume p: "clean_path p" and wf: "wf_fs fs"
  obtain opened fs1 where o: "os_OpenFile flt fs p = (opened, fs1)" by fastforce
  have "wf_fs fs1" using treeD(7) [OF p o wf] .
  then show "wf_fs (snd (writeConfigFile encode flt p op fs))"
    using wf by (auto simp: writeConfigFile_def o split: sum.split option.split prod.split dest: treeD(8))
qed

lemma tree_config_file_op:
  assumes "clean_path configsPath"
  shows "keeps_tree (config_file_op agent encode flt configsPath op)"
proof (rule keeps_treeI)
  fix fs assume wf: "wf_fs fs"
  let ?p = "Join configsPath (op_id op @ ''.json'')"
  have p: "clean_path ?p" using Join_clean [OF assms] .
  obtain res fs1 where w: "writeConfigFile (encode op) flt ?p op fs = (res, fs1)" by fastforce
  have "wf_fs fs1" using keeps_treeD [OF tree_writeConfigFile [OF p] w wf] .
  moreover have "wf_fs fs2" if "os_Remove flt fs ?p = (err, fs2)" for err fs2 using treeD(4) [OF that wf] .
  ultimately show "wf_fs (snd (config_file_op agent encode flt configsPath op fs))"
    using wf by (auto simp: config_file_op_def Let_def w split: OpType.split prod.split option.split flow.split)
qed

lemma tree_json_ProcessConfig:
  assumes "clean_path (basePath r)"
  shows "keeps_tree (json_ProcessConfig agent encode env configure r)"
proof (rule keeps_treeI)
  fix fs assume wf: "wf_fs fs"
  obtain res fs1 where e: "ensureConfigsDir (env_faults env) (basePath r) fs = (res, fs1)" by fastforce
  have wf1: "wf_fs fs1" using keeps_treeD [OF tree_ensureConfigsDir [OF assms] e wf] .
  show "wf_fs (snd (json_ProcessConfig agent encode env configure r fs))"
  proof (cases res)
    case (Inr p)
    have p: "clean_path p" using ensureConfigsDir_path [OF assms e [unfolded Inr]] .
    let ?ops = "apply_ops_strict (config_file_op agent encode (env_faults env) p) (conf_operations configure) 0"
    have "keeps_tree ?ops" by (intro tree_apply_ops_strict tree_config_file_op p)
    then have "wf_fs (snd (?ops fs1))" using wf1 by (simp add: keeps_tree_def)
    then show ?thesis by (auto simp: json_ProcessConfig_def e Inr split: prod.split flow.split sum.split)
  qed (simp add: json_ProcessConfig_def e wf1)
qed

lemma tree_Filebeat_createMainConfig:
  "clean_path p \<Longrightarrow> keeps_tree (Filebeat_createMainConfig flt addrs p)"
  by (intro keeps_treeI) (auto simp: Filebeat_createMainConfig_def split: prod.split sum.split option.split
      dest: treeD(7) treeD(8))

lemma tree_Filebeat_ProcessConfig:
  assumes "clean_path (basePath r)"
  shows "keeps_tree (Filebeat_ProcessConfig env configure r)"
proof (rule keeps_treeI)
  fix fs assume wf: "wf_fs fs"
  obtain res fs1 where e: "ensureConfigsDir (env_faults env) (basePath r) fs = (res, fs1)" by fastforce
  have wf1: "wf_fs fs1" using keeps_treeD [OF tree_ensureConfigsDir [OF assms] e wf] .
  let ?main = "Join (basePath r) filebeatMainConfigFilename"
  obtain err fs2 where m: "(if \<not> fileExists (env_faults env) fs1 ?main
      then Filebeat_createMainConfig (env_faults env) (env_listeners env) ?main fs1 else (None, fs1)) = (err, fs2)"
    by fastforce
  have wf2: "wf_fs fs2"
    using m wf1 keeps_treeD [OF tree_Filebeat_createMainConfig [OF Join_clean [OF assms]]] by (auto split: if_splits)
  show "wf_fs (snd (Filebeat_ProcessConfig env configure r fs))"
  proof (cases res)
    case (Inr p)
    have p: "clean_path p" using ensureConfigsDir_path [OF assms e [unfolded Inr]] .
    let ?ops = "apply_ops (\<lambda>op. handleContentConfigurationOp (env_faults env) (env_libs env) op
        (Join p (op_id op @ ''.yml'')) ConversionNone) (conf_operations configure) 0"
    have "keeps_tree ?ops" by (intro tree_apply_ops tree_content_op Join_clean p)
    then have "wf_fs (snd (?ops fs2))" using wf2 by (simp add: keeps_tree_def)
    then show ?thesis using wf2 by (auto simp: Filebeat_ProcessConfig_def e Inr Let_def m split: option.split prod.split)
  qed (simp add: Filebeat_ProcessConfig_def e wf1)
qed

section \<open>The world\<close>

definition files_ok :: "world \<Rightarrow> bool" where
  "files_ok w \<longleftrightarrow> wf_fs (wfs w) \<and> clean_path (DataPath w) \<and> (\<forall>a. clean_path (base_of w a))"

text \<open>What the paths of a world are.\<close>

definition paths_of :: "world \<Rightarrow> path \<times> (AgentType \<Rightarrow> path)" where
  "paths_of w = (DataPath w, base_of w)"

lemma files_ok_same: "files_ok w \<Longrightarrow> paths_of w' = paths_of w \<Longrightarrow> wf_fs (wfs w') \<Longrightarrow> files_ok w'"
  by (auto simp: files_ok_def paths_of_def)

lemma paths_of_upd [simp]:
  "paths_of (w\<lparr>wfs := fs\<rparr>) = paths_of w" "paths_of (w\<lparr>whandler := h\<rparr>) = paths_of w"
  "paths_of (w\<lparr>wdown := b\<rparr>) = paths_of w"
  by (simp_all add: paths_of_def base_of_def fun_eq_iff split: AgentType.split)

lemma paths_Stop: "paths_of (runner_Stop henv a w) = paths_of w \<and> wfs (runner_Stop henv a w) = wfs w"
  using runner_Stop_frame [of henv a w]
  by (simp add: paths_of_def runner_Stop_def split: AgentType.split prod.split)

lemma paths_Ensure:
  "paths_of (runner_EnsureRunningState env a b w) = paths_of w \<and> wfs (runner_EnsureRunningState env a b w) = wfs w"
proof -
  have t: "basePath (snd (snd (Telegraf_EnsureRunningState env fs b h r))) = basePath r" for fs h r
    by (auto simp: Telegraf_EnsureRunningState_def Let_def split: prod.split option.split)
  have f: "basePath (snd (snd (Filebeat_EnsureRunningState env fs b h r))) = basePath r" for fs h r
    by (auto simp: Filebeat_EnsureRunningState_def Let_def split: prod.split option.split)
  have o: "basePath (snd (snd (Oracle_EnsureRunningState env fs b h r))) = basePath r" for fs h r
    by (auto simp: Oracle_EnsureRunningState_def Oracle_Stop_def Let_def split: prod.split option.split)
  have p: "basePath (snd (snd (Packages_EnsureRunningState env fs b h r))) = basePath r" for fs h r
    by (auto simp: Packages_EnsureRunningState_def Packages_Stop_def Let_def split: prod.split option.split)
  show ?thesis
    using t f o p
    by (cases a) (simp_all add: runner_EnsureRunningState_def paths_of_def base_of_def fun_eq_iff
      split: prod.split AgentType.split, (metis snd_conv)+)
qed

lemma files_Stop: "files_ok w \<Longrightarrow> files_ok (runner_Stop henv a w)"
  using paths_Stop [of henv a w] files_ok_same [of w "runner_Stop henv a w"] by (auto simp: files_ok_def)

lemma files_Ensure: "files_ok w \<Longrightarrow> files_ok (runner_EnsureRunningState env a b w)"
  using paths_Ensure [of env a b w] files_ok_same [of w "runner_EnsureRunningState env a b w"] by (auto simp: files_ok_def)

lemma files_stopAll: "files_ok w \<Longrightarrow> files_ok (stopAll henv order w)"
  by (induction order arbitrary: w) (auto simp: stopAll_def files_Stop)

lemma files_purge: "files_ok w \<Longrightarrow> files_ok (snd (runner_PurgeConfig flt a w))"
  using keeps_treeD [OF tree_purge]
  by (cases a) (auto simp: runner_PurgeConfig_def Filebeat_PurgeConfig_def Oracle_PurgeConfig_def Packages_PurgeConfig_def
      Telegraf_PurgeConfig_def files_ok_def base_of_def split: prod.split AgentType.splits)

lemma files_PurgeAgentConfigs: "files_ok w \<Longrightarrow> files_ok (snd (PurgeAgentConfigs flt order w))"
proof (induction flt order w rule: PurgeAgentConfigs.induct)
  case (2 flt a as w)
  show ?case
    using files_purge [OF 2(2), of flt a] 2(1) by (auto split: prod.split option.split)
qed simp

lemma files_ProcessConfig: "files_ok w \<Longrightarrow> files_ok (snd (runner_ProcessConfig env a conf w))"
proof -
  assume ok: "files_ok w"
  have b: "clean_path (basePath (wfilebeat w))" "clean_path (basePath (woracle w))" "clean_path (basePath (wpackages w))"
    using ok unfolding files_ok_def by (metis base_of_def AgentType.simps)+
  have wf: "wf_fs (wfs w)" using ok by (simp add: files_ok_def)
  show ?thesis
  proof (cases a)
    case TELEGRAF
    have "basePath (snd (Telegraf_ProcessConfig lb conf r)) = basePath r" for lb r
      by (auto simp: Telegraf_ProcessConfig_def Let_def split: prod.split)
    then show ?thesis
      using ok TELEGRAF
      by (auto simp: runner_ProcessConfig_def files_ok_def base_of_def split: prod.split AgentType.splits) (metis snd_conv)
  next
    case FILEBEAT
    then show ?thesis
      using ok keeps_treeD [OF tree_Filebeat_ProcessConfig [OF b(1)] _ wf]
      by (auto simp: runner_ProcessConfig_def files_ok_def base_of_def split: prod.split AgentType.splits)
  next
    case ORACLE
    then show ?thesis
      using ok keeps_treeD [OF tree_json_ProcessConfig [OF b(2)] _ wf]
      by (auto simp: runner_ProcessConfig_def Oracle_ProcessConfig_def files_ok_def base_of_def split: prod.split AgentType.splits)
  next
    case PACKAGES
    then show ?thesis
      using ok keeps_treeD [OF tree_json_ProcessConfig [OF b(3)] _ wf]
      by (auto simp: runner_ProcessConfig_def Packages_ProcessConfig_def files_ok_def base_of_def split: prod.split AgentType.splits)
  qed (use ok in \<open>simp add: runner_ProcessConfig_def\<close>)
qed

lemma files_ok_wfs: "files_ok w \<Longrightarrow> wf_fs fs \<Longrightarrow> files_ok (w\<lparr>wfs := fs\<rparr>)"
  by (rule files_ok_same) simp_all

lemma files_ok_wdown [simp]: "files_ok (w\<lparr>wdown := b\<rparr>) = files_ok w"
  by (auto simp: files_ok_def base_of_def split: AgentType.splits)

lemma files_ok_handler [simp]: "files_ok (w\<lparr>whandler := h\<rparr>) = files_ok w"
  by (auto simp: files_ok_def base_of_def split: AgentType.splits)

lemma files_relink:
  assumes "files_ok w" and "clean_path p"
    and "os_Symlink flt (wfs (runner_Stop henv a w)) v p = (err, fs)"
  shows "files_ok ((runner_Stop henv a w)\<lparr>wfs := fs\<rparr>)"
proof -
  have s: "files_ok (runner_Stop henv a w)" using files_Stop [OF assms(1)] .
  then have "wf_fs fs" using treeD(2) [OF assms(2,3)] by (simp add: files_ok_def)
  then show ?thesis using files_ok_wfs [OF s] by blast
qed

lemma files_symlink:
  assumes "files_ok w" and "clean_path base"
  shows "files_ok (snd (ensureCurrentSymlink env a base v w))"
proof -
  have p: "clean_path (Join base currentVerLink)" using Join_clean [OF assms(2)] .
  have wf: "wf_fs (wfs w)" using assms(1) by (simp add: files_ok_def)
  have rm: "files_ok (w\<lparr>wfs := fs\<rparr>)" if "os_Remove flt (wfs w) q = (err, fs)" for flt q err fs
    using files_ok_wfs [OF assms(1) treeD(4) [OF that wf]] .
  show ?thesis
    unfolding ensureCurrentSymlink_def Let_def
    using assms(1) rm files_relink [OF assms(1) p] files_relink [OF rm p]
    by (auto split: sum.split prod.split option.split)
qed

lemma files_install_version:
  assumes "files_ok w" and "clean_path out"
  shows "files_ok (snd (install_version re install out w))"
proof -
  let ?flt = "env_faults (renv re)"
  have wf: "wf_fs (wfs w)" using assms(1) by (simp add: files_ok_def)
  obtain err fs1 where m: "os_MkdirAll ?flt (wfs w) out = (err, fs1)" by fastforce
  have wf1: "wf_fs fs1" using treeD(3) [OF assms(2) m wf] .
  obtain res fs2 where d: "downloadExtractTarGz ?flt (http_downloads re) out (inst_url install) (inst_exe install) fs1 = (res, fs2)"
    by fastforce
  have wf2: "wf_fs fs2" using keeps_treeD [OF tree_downloadExtractTarGz [OF assms(2)] d wf1] .
  then have "wf_fs (snd (os_RemoveAll ?flt fs2 out))" by (rule wf_os_RemoveAll)
  then show ?thesis
    using assms(1) wf1 wf2
    by (auto simp: install_version_def Let_def m d files_ok_wfs split: option.split flow.split)
qed

lemma files_next:
  assumes "files_ok w" and "world_next w e = Some w'"
  shows "files_ok w'"
proof (cases e)
  case (EvInstall re install)
  let ?a = "inst_agentType install" and ?base = "agentBasePath w (inst_agentType install)"
  have b: "clean_path ?base" using assms(1) by (simp add: agentBasePath_def files_ok_def Join_clean)
  obtain ok v where i: "install_version re install (Join ?base (inst_version install)) w = (ok, v)" by fastforce
  have v: "files_ok v" using files_install_version [OF assms(1) Join_clean [OF b]] i by (metis snd_conv)
  have "files_ok (ProcessInstall re install w)"
    using assms(1) v files_symlink [OF v b, of "renv re" ?a "inst_version install"]
    by (auto simp: ProcessInstall_def Let_def i files_Ensure split: prod.split option.split)
  then show ?thesis using assms(2) EvInstall by (auto split: if_splits)
next
  case (EvConfigure env conf)
  have "files_ok (ProcessConfigure env conf w)"
    using assms(1) files_ProcessConfig [OF assms(1), of env "conf_agentType conf" conf]
    by (auto simp: ProcessConfigure_def Let_def files_Ensure split: prod.split option.split flow.split)
  then show ?thesis using assms(2) EvConfigure by (auto split: if_splits)
next
  case (EvDetach re)
  then show ?thesis
    using assms by (auto simp: Start_detach_def Let_def files_PurgeAgentConfigs files_stopAll split: if_splits)
next
  case (EvRestart env a)
  then show ?thesis using assms by (auto simp: files_Ensure split: if_splits)
qed (use assms in \<open>auto simp: Start_done_def files_stopAll split: if_splits option.splits\<close>)

section \<open>From the start\<close>

fun world_run :: "world \<Rightarrow> world_event list \<Rightarrow> world option" where
  "world_run w [] = Some w"
| "world_run w (e # es) = (case world_next w e of None \<Rightarrow> None | Some v \<Rightarrow> world_run v es)"

lemma files_run: "files_ok w \<Longrightarrow> world_run w es = Some w' \<Longrightarrow> files_ok w'"
  by (induction es arbitrary: w) (auto split: option.splits dest: files_next simp del: world_next.simps)

lemma files_load_runners: "files_ok w \<Longrightarrow> files_ok (snd (load_runners re order w))"
proof (induction re order w rule: load_runners.induct)
  case (2 re a as w)
  have b: "clean_path (agentBasePath w a)" using 2(2) by (simp add: agentBasePath_def files_ok_def Join_clean)
  have "files_ok (snd (runner_Load (rload re) a (agentBasePath w a) w))"
    using 2(2) b
    by (cases a) (auto simp: runner_Load_def Telegraf_Load_def Let_def files_ok_def base_of_def
        split: AgentType.splits sum.splits)
  then show ?case using 2(1) by (auto split: prod.split option.split)
qed simp

lemma files_boot:
  assumes "wf_fs fs" and "clean_path dataPath"
  shows "files_ok (snd (NewAgentsRunner re (boot_world dataPath fs)))"
proof -
  have "files_ok (boot_world dataPath fs)"
    using assms by (auto simp: files_ok_def boot_world_def base_of_def fresh_runner_def fresh_telegraf_def split: AgentType.split)
  then have "files_ok (snd (load_runners re (range_agents re) (boot_world dataPath fs)))" by (rule files_load_runners)
  then show ?thesis
    by (auto simp: NewAgentsRunner_def files_PurgeAgentConfigs split: prod.split option.split)
qed



end
