(* ===== verification/World_Configs.thy ===== *)
theory World_Configs
  imports World_Files
begin

text \<open>
  The directories of the agents: what an agent's directory holds (versions, the link to the
  current one, the main configuration, the directory of configurations), that every event of the
  world keeps it so, and that the files in the directories of configurations are those of the
  specification in \<open>Config_Store\<close>.
\<close>

section \<open>The specification\<close>

definition config_ext :: "AgentType \<Rightarrow> string" where
  "config_ext a = (if a = FILEBEAT then ''.yml'' else ''.json'')"

definition config_render :: "libs \<Rightarrow> AgentType \<Rightarrow> ConfigurationOp \<Rightarrow> string option" where
  "config_render lb a op =
     (case a of
        FILEBEAT \<Rightarrow> Some (op_content op)
      | ORACLE \<Rightarrow> json_render (Oracle_encode lb) op
      | PACKAGES \<Rightarrow> json_render (Packages_encode lb) op
      | _ \<Rightarrow> None)"

definition config_combine :: "AgentType \<Rightarrow> string \<Rightarrow> string option \<Rightarrow> string" where
  "config_combine a = (if a = FILEBEAT then replace_content else overwrite_content)"

text \<open>The operations of an instruction count up to the first write that cannot be rendered.\<close>

definition writable :: "libs \<Rightarrow> AgentType \<Rightarrow> ConfigurationOp \<Rightarrow> bool" where
  "writable lb a op \<longleftrightarrow> (is_write op \<longrightarrow> config_render lb a op \<noteq> None)"

definition configured ::
  "libs \<Rightarrow> AgentType \<Rightarrow> EnvoyInstructionConfigure \<Rightarrow> (string \<Rightarrow> string option) \<Rightarrow> (string \<Rightarrow> string option)" where
  "configured lb a conf m =
     (if conf_agentType conf = a
      then fold (config_step (config_render lb a) (config_combine a)) (takeWhile (writable lb a) (conf_operations conf)) m
      else m)"

definition event_configs ::
  "libs \<Rightarrow> AgentType \<Rightarrow> world_event \<Rightarrow> (string \<Rightarrow> string option) \<Rightarrow> (string \<Rightarrow> string option)" where
  "event_configs lb a e m =
     (case e of EvConfigure env conf \<Rightarrow> configured lb a conf m | EvDetach re \<Rightarrow> Map.empty | _ \<Rightarrow> m)"

section \<open>The directories\<close>

definition agent_base :: "path \<Rightarrow> AgentType \<Rightarrow> path" where
  "agent_base dp a = dp @ [''agents'', AgentType_String a]"

text \<open>What a name in an agent's directory may stand for.\<close>

definition slot_ok :: "string \<Rightarrow> node option \<Rightarrow> bool" where
  "slot_ok c n \<longleftrightarrow>
     (if c = ''CURRENT'' then n = None \<or> (\<exists>t. n = Some (Link t))
      else if c = ''filebeat.yml'' then n = None \<or> (\<exists>s. n = Some (File s))
      else n = None \<or> n = Some Dir)"

definition tidy_agent :: "fs \<Rightarrow> path \<Rightarrow> bool" where
  "tidy_agent fs base \<longleftrightarrow> dir_path fs base \<and> (\<forall>c. slot_ok c (lookup fs (base @ [c])))"

definition tidy :: "path \<Rightarrow> fs \<Rightarrow> bool" where
  "tidy dp fs \<longleftrightarrow> wf_fs fs \<and> (\<forall>a. registered a \<longrightarrow> tidy_agent fs (agent_base dp a))"

text \<open>In the directory of configurations are only files with the extension of configurations.\<close>

definition configs_ok :: "path \<Rightarrow> string \<Rightarrow> fs \<Rightarrow> bool" where
  "configs_ok d ext fs \<longleftrightarrow>
     (\<forall>c. case lookup fs (d @ [c]) of None \<Rightarrow> True | Some (File _) \<Rightarrow> True | _ \<Rightarrow> False) \<and> only_ext d ext fs"

definition tidy_world :: "world \<Rightarrow> bool" where
  "tidy_world w \<longleftrightarrow>
     tidy (DataPath w) (wfs w) \<and>
     (\<forall>a. registered a \<longrightarrow> base_of w a = agent_base (DataPath w) a) \<and>
     (\<forall>a. keeps_files a \<longrightarrow> configs_ok (base_of w a @ [configsDirSubpath]) (config_ext a) (wfs w))"

definition agent_configs :: "world \<Rightarrow> AgentType \<Rightarrow> string \<Rightarrow> string option" where
  "agent_configs w a = file_config (base_of w a @ [configsDirSubpath]) (config_ext a) (wfs w)"

text \<open>A version an instruction may name: not one of the names the Envoy uses itself.\<close>

definition good_version :: "string \<Rightarrow> bool" where
  "good_version v \<longleftrightarrow> plain_name v \<and> v \<notin> {''CURRENT'', ''filebeat.yml'', configsDirSubpath}"

definition event_fine :: "libs \<Rightarrow> world_event \<Rightarrow> bool" where
  "event_fine lb e =
     (case e of
        EvInstall re install \<Rightarrow> env_faults (renv re) = no_faults \<and> good_version (inst_version install)
      | EvConfigure env conf \<Rightarrow>
          env_faults env = no_faults \<and> env_libs env = lb \<and> list_all plain_id (conf_operations conf)
      | EvDetach re \<Rightarrow> env_faults (renv re) = no_faults \<and> set (range_agents re) = set SupportedAgents
      | _ \<Rightarrow> True)"

lemma slot_simps [simp]:
  "slot_ok c None" "slot_ok ''CURRENT'' (Some (Link t))" "slot_ok ''filebeat.yml'' (Some (File s))"
  "slot_ok configsDirSubpath (Some Dir)" "good_version v \<Longrightarrow> slot_ok v (Some Dir)"
  by (simp_all add: slot_ok_def good_version_def configsDirSubpath_def)

lemma slot_dir: "slot_ok c n \<Longrightarrow> c \<noteq> ''CURRENT'' \<Longrightarrow> c \<noteq> ''filebeat.yml'' \<Longrightarrow> n = None \<or> n = Some Dir"
  by (simp add: slot_ok_def)

lemma keeps_registered: "keeps_files a \<Longrightarrow> registered a"
  by (auto simp: keeps_files_def registered_def)

lemma AgentType_String_inj: "registered a \<Longrightarrow> registered b \<Longrightarrow> AgentType_String a = AgentType_String b \<Longrightarrow> a = b"
  by (auto simp: registered_def)

lemma bases_apart:
  assumes "registered a" and "registered b" and "prefix (agent_base dp a) q" and "prefix (agent_base dp b) q"
  shows "a = b"
proof -
  obtain x where "q = agent_base dp a @ x" using assms(3) by (rule prefixE)
  moreover obtain y where "q = agent_base dp b @ y" using assms(4) by (rule prefixE)
  ultimately show ?thesis using AgentType_String_inj [OF assms(1,2)] by (simp add: agent_base_def)
qed

lemma below_not_above: "prefix (agent_base dp a) q \<Longrightarrow> prefix q (agent_base dp b) \<Longrightarrow> q = agent_base dp b"
  by (auto simp: agent_base_def prefix_def Cons_eq_append_conv append_eq_append_conv2 append_eq_Cons_conv)

text \<open>A change below one agent's directory leaves the others' alone.\<close>

definition only_below :: "path \<Rightarrow> fs \<Rightarrow> fs \<Rightarrow> bool" where
  "only_below base fs fs' \<longleftrightarrow>
     (\<forall>q. \<not> prefix base q \<longrightarrow> lookup fs' q = lookup fs q \<or> (prefix q base \<and> lookup fs' q = Some Dir))"

lemma only_below_others:
  assumes "only_below (agent_base dp a) fs fs'" and "registered a" and "registered b" and "a \<noteq> b"
    and "prefix (agent_base dp b) q"
  shows "lookup fs' q = lookup fs q"
proof -
  have "\<not> prefix (agent_base dp a) q" using bases_apart assms(2-5) by blast
  moreover have "\<not> prefix q (agent_base dp a)" using below_not_above [OF assms(5)] calculation by auto
  ultimately show ?thesis using assms(1) unfolding only_below_def by blast
qed

lemma tidy_change:
  assumes "tidy dp fs" and "registered a" and "wf_fs fs'" and "tidy_agent fs' (agent_base dp a)"
    and "only_below (agent_base dp a) fs fs'"
  shows "tidy dp fs'"
  unfolding tidy_def
proof (intro conjI allI impI)
  fix b assume b: "registered b"
  show "tidy_agent fs' (agent_base dp b)"
  proof (cases "b = a")
    case False
    have t: "tidy_agent fs (agent_base dp b)" using assms(1) b by (simp add: tidy_def)
    have "lookup fs' q = None \<or> lookup fs' q = Some Dir" if "prefix q (agent_base dp b)" for q
    proof (cases "prefix (agent_base dp a) q")
      case True
      then have "prefix (agent_base dp a) (agent_base dp b)" using that by (rule prefix_order.trans)
      then show ?thesis using bases_apart [OF assms(2) b] False by blast
    next
      case False
      then show ?thesis using assms(5) t that unfolding only_below_def tidy_agent_def dir_path_def by metis
    qed
    moreover have "lookup fs' (agent_base dp b @ [c]) = lookup fs (agent_base dp b @ [c])" for c
      using only_below_others [OF assms(5,2) b] False by auto
    ultimately show ?thesis using t by (simp add: tidy_agent_def dir_path_def)
  qed (simp add: assms(4))
qed (rule assms(3))

section \<open>Configuring\<close>

lemma tidy_worldD:
  assumes "tidy_world w"
  shows "wf_fs (wfs w)" "registered a \<Longrightarrow> base_of w a = agent_base (DataPath w) a"
    and "registered a \<Longrightarrow> dir_path (wfs w) (base_of w a)"
    and "registered a \<Longrightarrow> slot_ok c (lookup (wfs w) (base_of w a @ [c]))"
    and "keeps_files a \<Longrightarrow> configs_ok (base_of w a @ [configsDirSubpath]) (config_ext a) (wfs w)"
  using assms by (auto simp: tidy_world_def tidy_def tidy_agent_def)

lemma plain_configsDir [simp]: "plain_name configsDirSubpath"
  by (simp add: plain_name_def configsDirSubpath_def)

lemma tidy_ready:
  assumes "tidy_world w" and "keeps_files a"
  shows "config_ready (base_of w a @ [configsDirSubpath]) (wfs w)"
proof -
  have r: "registered a" using assms(2) by (rule keeps_registered)
  have s: "lookup (wfs w) (base_of w a @ [configsDirSubpath]) \<in> {None, Some Dir}"
    using slot_dir [OF tidy_worldD(4) [OF assms(1) r, of configsDirSubpath]] by (auto simp: configsDirSubpath_def)
  have "dir_path (wfs w) (base_of w a @ [configsDirSubpath])"
    using tidy_worldD(3) [OF assms(1) r] s by (auto simp: dir_path_def prefix_snoc)
  then show ?thesis
    using tidy_worldD(1,5) [OF assms(1)] assms(2) by (simp add: config_ready_def configs_ok_def)
qed

lemma config_dir_ok: "config_dir d fs \<Longrightarrow> only_ext d ext fs \<Longrightarrow> configs_ok d ext fs"
  by (simp add: config_dir_def configs_ok_def)

text \<open>An instruction that leaves a directory of configurations, and changes nothing else but the
  main configuration.\<close>

lemma tidy_configured:
  assumes "tidy_world w" and "keeps_files a" and "d = base_of w a @ [configsDirSubpath]"
    and "config_dir d fs" and "only_ext d (config_ext a) fs"
    and "slot_ok ''filebeat.yml'' (lookup fs (base_of w a @ [''filebeat.yml'']))"
    and frame: "\<And>q. \<not> prefix q d \<Longrightarrow> \<not> prefix d q \<Longrightarrow> q \<noteq> base_of w a @ [''filebeat.yml''] \<Longrightarrow>
      lookup fs q = lookup (wfs w) q"
  shows "tidy_world (w\<lparr>wfs := fs\<rparr>)"
    and "\<And>b. keeps_files b \<Longrightarrow> b \<noteq> a \<Longrightarrow> agent_configs (w\<lparr>wfs := fs\<rparr>) b = agent_configs w b"
proof -
  let ?base = "agent_base (DataPath w) a"
  have r: "registered a" using assms(2) by (rule keeps_registered)
  have b: "base_of w a = ?base" using tidy_worldD(2) [OF assms(1) r] .
  have wf: "wf_fs fs" and dir: "lookup fs d = Some Dir" using assms(4) by (simp_all add: config_dir_def)
  have above: "lookup fs q = Some Dir" if "prefix q d" for q using wf_fs_dir_above [OF wf dir that] .
  have below: "only_below ?base (wfs w) fs"
    unfolding only_below_def
  proof (intro allI impI)
    fix q assume q: "\<not> prefix ?base q"
    then have "\<not> prefix d q" "q \<noteq> base_of w a @ [''filebeat.yml'']" using assms(3) b by (auto dest: append_prefixD)
    then show "lookup fs q = lookup (wfs w) q \<or> (prefix q ?base \<and> lookup fs q = Some Dir)"
      using frame above [of q] q assms(3) b by (cases "prefix q d") (auto simp: prefix_snoc)
  qed
  have "slot_ok c (lookup fs (?base @ [c]))" for c
  proof (cases "c = configsDirSubpath \<or> c = ''filebeat.yml''")
    case True
    then show ?thesis using dir assms(3,6) b by auto
  next
    case False
    then have "lookup fs (?base @ [c]) = lookup (wfs w) (?base @ [c])" using frame assms(3) b by auto
    then show ?thesis using tidy_worldD(4) [OF assms(1) r, of c] b by simp
  qed
  moreover have "dir_path fs ?base"
    using above assms(3) b tidy_worldD(3) [OF assms(1) r] by (auto simp: dir_path_def)
  ultimately have tidy: "tidy (DataPath w) fs"
    using tidy_change [OF _ r wf _ below] assms(1) by (simp add: tidy_world_def tidy_agent_def)
  have same: "lookup fs q = lookup (wfs w) q" if "keeps_files c" "c \<noteq> a" "prefix (base_of w c) q" for c q
    using only_below_others [OF below r keeps_registered [OF that(1)]] that tidy_worldD(2) [OF assms(1) keeps_registered [OF that(1)]]
    by auto
  have base: "base_of (w\<lparr>wfs := fs\<rparr>) = base_of w" by (auto simp: base_of_def fun_eq_iff split: AgentType.split)
  have "configs_ok (base_of w c @ [configsDirSubpath]) (config_ext c) fs" if c: "keeps_files c" for c
  proof (cases "c = a")
    case True
    then show ?thesis using config_dir_ok [OF assms(4,5)] assms(3) by simp
  next
    case False
    have "lookup fs (base_of w c @ [configsDirSubpath, x]) = lookup (wfs w) (base_of w c @ [configsDirSubpath, x])" for x
      using same [OF c False] by simp
    then show ?thesis using tidy_worldD(5) [OF assms(1) c] by (simp add: configs_ok_def only_ext_def)
  qed
  then show "tidy_world (w\<lparr>wfs := fs\<rparr>)"
    using tidy assms(1) base by (simp add: tidy_world_def)
  show "agent_configs (w\<lparr>wfs := fs\<rparr>) c = agent_configs w c" if "keeps_files c" "c \<noteq> a" for c
    using same [OF that] base by (simp add: agent_configs_def file_config_def file_content_def fun_eq_iff)
qed

text \<open>Only paths and files matter.\<close>

lemma tidy_same:
  assumes "paths_of w' = paths_of w" and "wfs w' = wfs w"
  shows "tidy_world w' = tidy_world w" and "agent_configs w' a = agent_configs w a"
  using assms by (auto simp: tidy_world_def agent_configs_def paths_of_def)

lemma paths_same: "paths_of w' = paths_of w \<Longrightarrow> base_of w' = base_of w \<and> DataPath w' = DataPath w"
  by (simp add: paths_of_def)

lemma fold_takeWhile_all: "(\<And>x. P x) \<Longrightarrow> takeWhile P xs = xs"
  by (simp add: takeWhile_eq_all_conv)

lemma filebeat_configured:
  assumes "tidy_world w" and "env_faults env = no_faults" and "list_all plain_id (conf_operations conf)"
    and "Filebeat_ProcessConfig env conf (wfilebeat w) (wfs w) = (err, fs)" and "conf_agentType conf = FILEBEAT"
  shows "tidy_world (w\<lparr>wfs := fs\<rparr>)"
    and "keeps_files a \<Longrightarrow> agent_configs (w\<lparr>wfs := fs\<rparr>) a = configured lb a conf (agent_configs w a)"
proof -
  let ?base = "base_of w FILEBEAT" and ?d = "base_of w FILEBEAT @ [configsDirSubpath]"
  have k: "keeps_files FILEBEAT" and b: "basePath (wfilebeat w) = ?base" by (simp_all add: keeps_files_def base_of_def)
  have m: "slot_ok filebeatMainConfigFilename (lookup (wfs w) (?base @ [filebeatMainConfigFilename]))"
    using tidy_worldD(4) [OF assms(1) keeps_registered [OF k]] .
  have slot: "lookup (wfs w) (?base @ [filebeatMainConfigFilename]) = None \<or>
      (\<exists>s. lookup (wfs w) (?base @ [filebeatMainConfigFilename]) = Some (File s))"
    using m by (simp add: slot_ok_def filebeatMainConfigFilename_def)
  note spec = Filebeat_ProcessConfig_spec [OF assms(2) tidy_ready [OF assms(1) k, folded b] slot [folded b] assms(3,4), unfolded b]
  have ext: "config_ext FILEBEAT = ''.yml''" by (simp add: config_ext_def)
  have only: "only_ext ?d (config_ext FILEBEAT) fs"
    using spec(5) tidy_worldD(5) [OF assms(1) k] by (simp add: ext configs_ok_def)
  have main: "slot_ok ''filebeat.yml'' (lookup fs (?base @ [''filebeat.yml'']))"
    using spec(3) slot by (auto simp: filebeatMainConfigFilename_def)
  note t = tidy_configured [OF assms(1) k refl spec(1) only main spec(4) [unfolded filebeatMainConfigFilename_def]]
  show "tidy_world (w\<lparr>wfs := fs\<rparr>)" by (rule t(1))
  have rend: "config_render lb FILEBEAT = (\<lambda>op. Some (op_content op))" "writable lb FILEBEAT = (\<lambda>op. True)"
    by (simp_all add: config_render_def writable_def fun_eq_iff)
  have base: "base_of (w\<lparr>wfs := fs\<rparr>) FILEBEAT = ?base" by (simp add: base_of_def)
  show "keeps_files a \<Longrightarrow> agent_configs (w\<lparr>wfs := fs\<rparr>) a = configured lb a conf (agent_configs w a)"
    using t(2) [of a] spec(2) assms(5)
    by (cases "a = FILEBEAT") (simp_all add: configured_def agent_configs_def base ext rend config_combine_def fold_takeWhile_all)
qed

lemma json_configured:
  assumes "tidy_world w" and "env_faults env = no_faults" and "list_all plain_id (conf_operations conf)"
    and "json_ProcessConfig agent encode env conf r (wfs w) = (res, fs)"
    and "conf_agentType conf = b" and "b \<in> {ORACLE, PACKAGES}" and "basePath r = base_of w b"
    and "config_render lb b = json_render encode"
  shows "tidy_world (w\<lparr>wfs := fs\<rparr>)"
    and "keeps_files a \<Longrightarrow> agent_configs (w\<lparr>wfs := fs\<rparr>) a = configured lb a conf (agent_configs w a)"
proof -
  let ?base = "base_of w b" and ?d = "base_of w b @ [configsDirSubpath]"
  have k: "keeps_files b" using assms(6) by (auto simp: keeps_files_def)
  have r: "registered b" by (rule keeps_registered [OF k])
  note spec = json_ProcessConfig_effect [OF assms(2) tidy_ready [OF assms(1) k, folded assms(7)] assms(3,4), unfolded assms(7)]
  have ext: "config_ext b = ''.json''" "config_combine b = overwrite_content"
    using assms(6) by (auto simp: config_ext_def config_combine_def)
  have only: "only_ext ?d (config_ext b) fs"
    using spec(4) tidy_worldD(5) [OF assms(1) k] by (simp add: ext configs_ok_def)
  have "\<not> prefix (?base @ [''filebeat.yml'']) ?d" "\<not> prefix ?d (?base @ [''filebeat.yml''])"
    by (auto simp: configsDirSubpath_def prefix_def)
  then have main: "slot_ok ''filebeat.yml'' (lookup fs (?base @ [''filebeat.yml'']))"
    using spec(3) tidy_worldD(4) [OF assms(1) r, of "''filebeat.yml''"] by simp
  note t = tidy_configured [OF assms(1) k refl spec(1) only main spec(3)]
  show "tidy_world (w\<lparr>wfs := fs\<rparr>)" by (rule t(1))
  have wr: "writable lb b = renders encode" using assms(8) by (simp add: writable_def renders_def fun_eq_iff)
  have base: "base_of (w\<lparr>wfs := fs\<rparr>) b = ?base" by (auto simp: base_of_def split: AgentType.split)
  show "keeps_files a \<Longrightarrow> agent_configs (w\<lparr>wfs := fs\<rparr>) a = configured lb a conf (agent_configs w a)"
    using t(2) [of a] spec(2) assms(5)
    by (cases "a = b") (simp_all add: configured_def agent_configs_def base ext wr assms(8))
qed

lemma configure_files:
  assumes "tidy_world w" and "env_faults env = no_faults" and "env_libs env = lb"
    and "list_all plain_id (conf_operations conf)"
  shows "tidy_world (ProcessConfigure env conf w)"
    and "keeps_files a \<Longrightarrow> agent_configs (ProcessConfigure env conf w) a = configured lb a conf (agent_configs w a)"
proof -
  let ?b = "conf_agentType conf"
  have "tidy_world (ProcessConfigure env conf w) \<and>
    (keeps_files a \<longrightarrow> agent_configs (ProcessConfigure env conf w) a = configured lb a conf (agent_configs w a))"
  proof (cases "registered ?b")
    case True
    obtain res w1 where r: "runner_ProcessConfig env ?b conf w = (res, w1)" by fastforce
    have "paths_of (ProcessConfigure env conf w) = paths_of w1 \<and> wfs (ProcessConfigure env conf w) = wfs w1"
      using True r paths_Ensure [of env ?b True w1] by (auto simp: ProcessConfigure_def Let_def split: flow.split option.split)
    note same = tidy_same [OF conjunct1 [OF this] conjunct2 [OF this]]
    have "tidy_world w1 \<and> (keeps_files a \<longrightarrow> agent_configs w1 a = configured lb a conf (agent_configs w a))"
    proof (cases ?b)
      case TELEGRAF
      then have "paths_of w1 = paths_of w \<and> wfs w1 = wfs w"
        using r by (auto simp: runner_ProcessConfig_def Telegraf_ProcessConfig_def paths_of_def base_of_def fun_eq_iff
            split: prod.splits AgentType.split)
      then show ?thesis
        using tidy_same [of w1 w] assms(1) TELEGRAF by (auto simp: configured_def keeps_files_def)
    next
      case FILEBEAT
      then obtain err fs where f: "Filebeat_ProcessConfig env conf (wfilebeat w) (wfs w) = (err, fs)" "w1 = w\<lparr>wfs := fs\<rparr>"
        using r by (auto simp: runner_ProcessConfig_def split: prod.splits)
      show ?thesis using filebeat_configured [OF assms(1,2,4) f(1) FILEBEAT] f(2) by blast
    next
      case ORACLE
      then obtain out fs where f: "json_ProcessConfig ''oracle'' (Oracle_encode lb) env conf (woracle w) (wfs w) = (out, fs)"
        "w1 = w\<lparr>wfs := fs\<rparr>"
        using r assms(3) by (auto simp: runner_ProcessConfig_def Oracle_ProcessConfig_def split: prod.splits)
      have "basePath (woracle w) = base_of w ORACLE" "config_render lb ORACLE = json_render (Oracle_encode lb)"
        by (simp_all add: base_of_def config_render_def fun_eq_iff)
      then show ?thesis using json_configured [OF assms(1,2,4) f(1) ORACLE] f(2) by simp
    next
      case PACKAGES
      then obtain out fs where f: "json_ProcessConfig ''package'' (Packages_encode lb) env conf (wpackages w) (wfs w) = (out, fs)"
        "w1 = w\<lparr>wfs := fs\<rparr>"
        using r assms(3) by (auto simp: runner_ProcessConfig_def Packages_ProcessConfig_def split: prod.splits)
      have "basePath (wpackages w) = base_of w PACKAGES" "config_render lb PACKAGES = json_render (Packages_encode lb)"
        by (simp_all add: base_of_def config_render_def fun_eq_iff)
      then show ?thesis using json_configured [OF assms(1,2,4) f(1) PACKAGES] f(2) by simp
    qed (use True in \<open>simp add: registered_def\<close>)
    then show ?thesis using same by simp
  next
    case False
    then have "\<not> keeps_files a \<or> conf_agentType conf \<noteq> a" using keeps_registered by blast
    then show ?thesis using False assms(1) by (auto simp: ProcessConfigure_def Let_def configured_def)
  qed
  then show "tidy_world (ProcessConfigure env conf w)"
    "keeps_files a \<Longrightarrow> agent_configs (ProcessConfigure env conf w) a = configured lb a conf (agent_configs w a)" by blast+
qed

section \<open>Installing\<close>

lemma agentBasePath_base: "registered a \<Longrightarrow> agentBasePath w a = agent_base (DataPath w) a"
  by (simp add: agentBasePath_registered agent_base_def)

lemma paths_install:
  "paths_of (ProcessInstall re install w) = paths_of w"
proof -
  have i: "paths_of (snd (install_version re install out v)) = paths_of v" for out v
    by (auto simp: install_version_def Let_def split: prod.split option.split flow.split)
  have s: "paths_of (snd (ensureCurrentSymlink env a base ver v)) = paths_of v" for env a base ver v
    using paths_Stop by (auto simp: ensureCurrentSymlink_def Let_def split: sum.split prod.split option.split)
  let ?base = "agentBasePath w (inst_agentType install)"
  obtain ok v where v: "install_version re install (Join ?base (inst_version install)) w = (ok, v)" by fastforce
  obtain err u where u: "ensureCurrentSymlink (renv re) (inst_agentType install) ?base (inst_version install) v = (err, u)"
    by fastforce
  have "paths_of v = paths_of w" "paths_of u = paths_of v"
    using i [of "Join ?base (inst_version install)" w] v s [of "renv re" "inst_agentType install" ?base "inst_version install" v] u
    by simp_all
  then show ?thesis
    using paths_Ensure by (auto simp: ProcessInstall_def Let_def v u split: option.split)
qed

text \<open>The part that fetches the version, whatever comes of it.\<close>

lemma install_version_below:
  assumes "env_faults (renv re) = no_faults" and "wf_fs (wfs w)" and "dir_path (wfs w) base" and "plain_name v"
    and "lookup (wfs w) (base @ [v]) = None \<or> lookup (wfs w) (base @ [v]) = Some Dir"
    and "install_version re install (base @ [v]) w = (go_on, w')"
  shows "wf_fs (wfs w')"
    and "lookup (wfs w') (base @ [v]) = None \<or> lookup (wfs w') (base @ [v]) = Some Dir"
    and "go_on \<Longrightarrow> lookup (wfs w') base = Some Dir"
    and "\<And>q. \<not> prefix (base @ [v]) q \<Longrightarrow>
      lookup (wfs w') q = lookup (wfs w) q \<or> (prefix q base \<and> lookup (wfs w') q = Some Dir)"
proof -
  let ?out = "base @ [v]"
  have path: "dir_path (wfs w) ?out" using assms(3,4,5) by (auto simp: dir_path_def prefix_snoc)
  have all: "wf_fs (wfs w') \<and> (lookup (wfs w') ?out = None \<or> lookup (wfs w') ?out = Some Dir) \<and>
    (go_on \<longrightarrow> lookup (wfs w') base = Some Dir) \<and>
    (\<forall>q. \<not> prefix ?out q \<longrightarrow> lookup (wfs w') q = lookup (wfs w) q \<or> (prefix q base \<and> lookup (wfs w') q = Some Dir))"
  proof (cases "fileExists no_faults (wfs w) ?out")
    case True
    have "lookup (wfs w) ?out = Some Dir" using True fileExists_missing [OF assms(2) path] assms(5) by metis
    then have "lookup (wfs w) base = Some Dir" using wf_fsD(1) [OF assms(2)] by blast
    then show ?thesis using True assms(1,2,5,6) by (simp add: install_version_def)
  next
    case False
    then have none: "lookup (wfs w) ?out = None"
      using stat_dir_path [OF assms(2) path] assms(5) by (auto simp: fileExists_def)
    obtain fs1 where fs1: "os_MkdirAll no_faults (wfs w) ?out = (None, fs1)" "wf_fs fs1"
      "\<And>q. lookup fs1 q = (if prefix q ?out then Some Dir else lookup (wfs w) q)"
      using os_MkdirAll_dir_path [OF assms(2) path] by blast
    have dir: "lookup fs1 ?out = Some Dir" by (simp add: fs1(3))
    have empty: "lookup fs1 (?out @ [c]) = None" for c
      using no_children [OF assms(2), of ?out c] none by (simp add: fs1(3))
    obtain res fs2 where d: "downloadExtractTarGz no_faults (http_downloads re) ?out (inst_url install) (inst_exe install) fs1 = (res, fs2)"
      by fastforce
    note b = download_below [OF fs1(2) dir empty d]
    have base: "lookup fs2 base = Some Dir" "\<not> prefix ?out base" using b(2) [of base] fs1(3) by (auto dest: prefix_length_le)
    obtain fs3 where fs3: "os_RemoveAll no_faults fs2 ?out = (None, fs3)" "wf_fs fs3"
      "\<And>q. lookup fs3 q = (if prefix ?out q then None else lookup fs2 q)"
      using os_RemoveAll_dir_path [OF b(1) dir_path_Dir [OF b(1) base(1)] assms(4)] by blast
    have frame: "lookup fs2 q = lookup (wfs w) q \<or> (prefix q base \<and> lookup fs2 q = Some Dir)" if "\<not> prefix ?out q" for q
      using b(2) [of q] that fs1(3) by (auto simp: prefix_snoc)
    have out2: "lookup fs2 ?out = Some Dir" using b(2) [of ?out] dir by simp
    have "wfs w' = fs2 \<or> (\<not> go_on \<and> wfs w' = fs3)"
      using assms(1,6) False fs1(1) d fs3(1)
      by (auto simp: install_version_def simp del: no_faults split: flow.splits option.splits)
    then show ?thesis
    proof (elim disjE conjE)
      assume "wfs w' = fs2" then show ?thesis using b(1) base(1) out2 frame by auto
    next
      assume "\<not> go_on" "wfs w' = fs3"
      then show ?thesis using fs3(2,3) frame by auto
    qed
  qed
  show "wf_fs (wfs w')" "lookup (wfs w') ?out = None \<or> lookup (wfs w') ?out = Some Dir"
    "go_on \<Longrightarrow> lookup (wfs w') base = Some Dir" using all by blast+
  show "\<not> prefix ?out q \<Longrightarrow>
      lookup (wfs w') q = lookup (wfs w) q \<or> (prefix q base \<and> lookup (wfs w') q = Some Dir)" for q using all by blast
qed

lemma install_below:
  assumes "tidy_world w" and "env_faults (renv re) = no_faults" and "registered (inst_agentType install)"
    and "good_version (inst_version install)"
  defines "base \<equiv> base_of w (inst_agentType install)" and "v \<equiv> inst_version install"
  shows "lookup (wfs (ProcessInstall re install w)) (base @ [v]) = None \<or>
      lookup (wfs (ProcessInstall re install w)) (base @ [v]) = Some Dir"
    and "slot_ok ''CURRENT'' (lookup (wfs (ProcessInstall re install w)) (base @ [''CURRENT'']))"
    and "\<And>q. \<not> prefix (base @ [v]) q \<Longrightarrow> q \<noteq> base @ [''CURRENT''] \<Longrightarrow>
      lookup (wfs (ProcessInstall re install w)) q = lookup (wfs w) q \<or>
      (prefix q base \<and> lookup (wfs (ProcessInstall re install w)) q = Some Dir)"
proof -
  let ?a = "inst_agentType install" and ?w = "ProcessInstall re install w"
  have v: "plain_name v" "v \<noteq> ''CURRENT''" "v \<noteq> ''filebeat.yml''" using assms(4) by (simp_all add: good_version_def v_def)
  have b: "agentBasePath w ?a = base"
    using agentBasePath_base [OF assms(3)] tidy_worldD(2) [OF assms(1,3)] by (simp add: base_def)
  have slot: "lookup (wfs w) (base @ [v]) = None \<or> lookup (wfs w) (base @ [v]) = Some Dir"
    using slot_dir [OF tidy_worldD(4) [OF assms(1,3)] v(2,3)] by (simp add: base_def)
  have cur: "slot_ok ''CURRENT'' (lookup (wfs w) (base @ [''CURRENT'']))"
    using tidy_worldD(4) [OF assms(1,3)] by (simp add: base_def)
  obtain go_on w1 where i: "install_version re install (base @ [v]) w = (go_on, w1)" by fastforce
  note ib = install_version_below [OF assms(2) tidy_worldD(1) [OF assms(1)] tidy_worldD(3) [OF assms(1,3), folded base_def] v(1) slot i]
  have np: "\<not> prefix (base @ [v]) (base @ [''CURRENT''])" "\<not> prefix (base @ [''CURRENT'']) base"
    "base @ [v] \<noteq> base @ [''CURRENT'']" using v(2) by (auto dest: prefix_length_le)
  have cur1: "lookup (wfs w1) (base @ [''CURRENT'']) = lookup (wfs w) (base @ [''CURRENT''])"
    using ib(4) [OF np(1)] by (auto dest: prefix_length_le)
  have "(lookup (wfs ?w) (base @ [v]) = None \<or> lookup (wfs ?w) (base @ [v]) = Some Dir) \<and>
    slot_ok ''CURRENT'' (lookup (wfs ?w) (base @ [''CURRENT''])) \<and>
    (\<forall>q. \<not> prefix (base @ [v]) q \<longrightarrow> q \<noteq> base @ [''CURRENT''] \<longrightarrow>
      lookup (wfs ?w) q = lookup (wfs w) q \<or> (prefix q base \<and> lookup (wfs ?w) q = Some Dir))"
  proof (cases go_on)
    case False
    then have "?w = w1" using assms(3) i b v(1) by (simp add: ProcessInstall_def Let_def v_def)
    then show ?thesis using ib cur cur1 by simp
  next
    case True
    have l: "lookup (wfs w1) (base @ [''CURRENT'']) = None \<or> (\<exists>t. lookup (wfs w1) (base @ [''CURRENT'']) = Some (Link t))"
      using cur cur1 by (simp add: slot_ok_def)
    obtain w2 where s: "ensureCurrentSymlink (renv re) ?a base v w1 = (None, w2)"
      "\<And>q. lookup (wfs w2) q = (if q = base @ [''CURRENT''] then Some (Link v) else lookup (wfs w1) q)"
      using symlink_spec [OF assms(2) ib(1) ib(3) [OF True] l, where v = v and a = ?a] by metis
    have "wfs ?w = wfs w2"
      using assms(3) i b v(1) s(1) True by (simp add: ProcessInstall_def Let_def v_def runner_ensure_wfs)
    then show ?thesis using ib s(2) np(3) by simp
  qed
  then show "lookup (wfs ?w) (base @ [v]) = None \<or> lookup (wfs ?w) (base @ [v]) = Some Dir"
    "slot_ok ''CURRENT'' (lookup (wfs ?w) (base @ [''CURRENT'']))"
    "\<And>q. \<not> prefix (base @ [v]) q \<Longrightarrow> q \<noteq> base @ [''CURRENT''] \<Longrightarrow>
      lookup (wfs ?w) q = lookup (wfs w) q \<or> (prefix q base \<and> lookup (wfs ?w) q = Some Dir)"
    by blast+
qed

lemma install_files:
  assumes "tidy_world w" and "env_faults (renv re) = no_faults" and "good_version (inst_version install)"
    and "wf_fs (wfs (ProcessInstall re install w))"
  shows "tidy_world (ProcessInstall re install w)"
    and "keeps_files b \<Longrightarrow> agent_configs (ProcessInstall re install w) b = agent_configs w b"
proof -
  let ?a = "inst_agentType install" and ?v = "inst_version install"
  let ?w = "ProcessInstall re install w" and ?base = "base_of w (inst_agentType install)"
  have "tidy_world ?w \<and> (keeps_files b \<longrightarrow> agent_configs ?w b = agent_configs w b)"
  proof (cases "registered ?a")
    case False
    then show ?thesis using assms(1) by (simp add: ProcessInstall_def Let_def)
  next
    case True
    note ib = install_below [OF assms(1,2) True assms(3)]
    have v: "?v \<noteq> configsDirSubpath" "''CURRENT'' \<noteq> configsDirSubpath" using assms(3) by (simp_all add: good_version_def configsDirSubpath_def)
    have b: "?base = agent_base (DataPath w) ?a" using tidy_worldD(2) [OF assms(1) True] .
    have p: "base_of ?w = base_of w" "DataPath ?w = DataPath w" using paths_same [OF paths_install] by auto
    have below: "only_below (agent_base (DataPath w) ?a) (wfs w) (wfs ?w)"
      unfolding only_below_def b [symmetric]
    proof (intro allI impI)
      fix q assume "\<not> prefix ?base q"
      then have "\<not> prefix (?base @ [?v]) q" "q \<noteq> ?base @ [''CURRENT'']" by (auto dest: append_prefixD)
      then show "lookup (wfs ?w) q = lookup (wfs w) q \<or> (prefix q ?base \<and> lookup (wfs ?w) q = Some Dir)" by (rule ib(3))
    qed
    have inside: "lookup (wfs ?w) (?base @ c # p) = lookup (wfs w) (?base @ c # p)" if "c \<noteq> ?v" "c \<noteq> ''CURRENT''" for c p
      using ib(3) [of "?base @ c # p"] that by (auto simp: prefix_def)
    have "slot_ok c (lookup (wfs ?w) (?base @ [c]))" for c
      using inside [of c "[]"] tidy_worldD(4) [OF assms(1) True, of c] ib(1,2) assms(3)
      by (cases "c = ?v"; cases "c = ''CURRENT''") auto
    moreover have "dir_path (wfs ?w) ?base"
    proof -
      have "lookup (wfs ?w) q = lookup (wfs w) q \<or> lookup (wfs ?w) q = Some Dir" if "prefix q ?base" for q
      proof -
        have "\<not> prefix (?base @ [?v]) q" "q \<noteq> ?base @ [''CURRENT'']" using that by (auto dest!: prefix_length_le)
        then show ?thesis using ib(3) [of q] by blast
      qed
      then show ?thesis using tidy_worldD(3) [OF assms(1) True] unfolding dir_path_def by metis
    qed
    ultimately have tidy: "tidy (DataPath w) (wfs ?w)"
      using tidy_change [OF _ True assms(4) _ below] assms(1) b by (simp add: tidy_world_def tidy_agent_def)
    have same: "lookup (wfs ?w) (base_of w c @ configsDirSubpath # x) = lookup (wfs w) (base_of w c @ configsDirSubpath # x)"
      if c: "keeps_files c" for c x
    proof (cases "c = ?a")
      case True
      then show ?thesis using inside v by simp
    next
      case False
      note r = keeps_registered [OF c]
      show ?thesis
        using only_below_others [OF below True r] False tidy_worldD(2) [OF assms(1) r] by auto
    qed
    have "configs_ok (base_of w c @ [configsDirSubpath]) (config_ext c) (wfs ?w)" if c: "keeps_files c" for c
      using same [OF c] tidy_worldD(5) [OF assms(1) c] by (simp add: configs_ok_def only_ext_def)
    then have "tidy_world ?w" using tidy assms(1) p by (simp add: tidy_world_def)
    then show ?thesis
      using same p by (simp add: agent_configs_def file_config_def file_content_def fun_eq_iff)
  qed
  then show "tidy_world ?w" "keeps_files b \<Longrightarrow> agent_configs ?w b = agent_configs w b" by blast+
qed

section \<open>Clearing and starting\<close>

text \<open>Purging needs no order in the directories of configurations, and leaves them missing.\<close>

lemma purge_tidy:
  assumes "tidy (DataPath w) (wfs w)" and "\<And>a. registered a \<Longrightarrow> base_of w a = agent_base (DataPath w) a"
    and "set order = set SupportedAgents" and "PurgeAgentConfigs no_faults order w = (err, w')" and "wf_fs (wfs w')"
    and "DataPath w' = DataPath w"
  shows "tidy_world w'" and "keeps_files a \<Longrightarrow> agent_configs w' a = Map.empty" and "err = None"
proof -
  have order: "a \<in> set order \<longleftrightarrow> registered a" for a
    using assms(3) by (auto simp: SupportedAgents_def registered_def)
  have dirs: "\<forall>a \<in> set order. keeps_files a \<longrightarrow> dir_path (wfs w) (base_of w a)"
    using assms(1,2) order by (simp add: tidy_def tidy_agent_def)
  have wf: "wf_fs (wfs w)" using assms(1) by (simp add: tidy_def)
  have l: "err = None" "base_of w' = base_of w" "lookup (wfs w') q =
      (if \<exists>a \<in> set order. keeps_files a \<and> prefix (base_of w a @ [configsDirSubpath]) q then None else lookup (wfs w) q)" for q
    using PurgeAgentConfigs_all [OF wf dirs] assms(4) by (metis prod.inject)+
  have "tidy_agent (wfs w') (agent_base (DataPath w) a)" if a: "registered a" for a
  proof -
    have t: "tidy_agent (wfs w) (agent_base (DataPath w) a)" using assms(1) a by (simp add: tidy_def)
    have "lookup (wfs w') q = lookup (wfs w) q \<or> lookup (wfs w') q = None" for q by (simp add: l(3))
    moreover then have "slot_ok c (lookup (wfs w') (agent_base (DataPath w) a @ [c]))" for c
      using t by (metis slot_simps(1) tidy_agent_def)
    ultimately show ?thesis using t dir_path_mono unfolding tidy_agent_def by blast
  qed
  then have "tidy (DataPath w) (wfs w')" using assms(5) by (simp add: tidy_def)
  moreover have gone: "lookup (wfs w') (base_of w' a @ configsDirSubpath # x) = None" if "keeps_files a" for a x
  proof -
    have "a \<in> set order \<and> keeps_files a \<and> prefix (base_of w a @ [configsDirSubpath]) (base_of w a @ configsDirSubpath # x)"
      using that order keeps_registered by (simp add: prefix_def)
    then show ?thesis using l(3) l(2) by auto
  qed
  ultimately show "tidy_world w'"
    using assms(2,6) l(2) by (simp add: tidy_world_def configs_ok_def only_ext_def)
  show "keeps_files a \<Longrightarrow> agent_configs w' a = Map.empty"
    using gone by (simp add: agent_configs_def file_config_def file_content_def fun_eq_iff)
  show "err = None" by (rule l(1))
qed

lemma paths_stopAll: "paths_of (stopAll henv order w) = paths_of w \<and> wfs (stopAll henv order w) = wfs w"
proof (induction order arbitrary: w)
  case (Cons a order)
  then show ?case using paths_Stop [of henv a w] by (simp add: stopAll_def)
qed (simp add: stopAll_def)

lemma paths_purge: "paths_of (snd (PurgeAgentConfigs flt order w)) = paths_of w"
proof (induction flt order w rule: PurgeAgentConfigs.induct)
  case (2 flt a as w)
  have "paths_of (snd (runner_PurgeConfig flt a w)) = paths_of w"
    by (auto simp: runner_PurgeConfig_def Telegraf_PurgeConfig_def paths_of_def base_of_def fun_eq_iff
        split: AgentType.split prod.split)
  then show ?case using 2 by (auto split: prod.split option.split)
qed simp

lemma detach_files:
  assumes "tidy_world w" and "env_faults (renv re) = no_faults" and "set (range_agents re) = set SupportedAgents"
    and "wf_fs (wfs (Start_detach re w))"
  shows "tidy_world (Start_detach re w)"
    and "keeps_files a \<Longrightarrow> agent_configs (Start_detach re w) a = Map.empty"
proof -
  let ?s = "stopAll (env_handler (renv re)) (range_agents re) w"
  have s: "wfs ?s = wfs w" "base_of ?s = base_of w" "DataPath ?s = DataPath w"
    using paths_stopAll paths_same by blast+
  obtain err w' where p: "PurgeAgentConfigs no_faults (range_agents re) ?s = (err, w')" by fastforce
  have d: "Start_detach re w = w'" using p assms(2) by (simp add: Start_detach_def Let_def del: no_faults)
  have "DataPath w' = DataPath ?s" using paths_same [OF paths_purge] p by (metis snd_conv)
  note t = purge_tidy [OF _ _ assms(3) p assms(4) [unfolded d] this, unfolded s]
  show "tidy_world (Start_detach re w)" "keeps_files a \<Longrightarrow> agent_configs (Start_detach re w) a = Map.empty"
    using t assms(1) unfolding d tidy_world_def by blast+
qed

lemma tidy_files_ok: "tidy_world w \<Longrightarrow> files_ok w"
proof -
  assume t: "tidy_world w"
  have "dir_path (wfs w) (agent_base (DataPath w) TELEGRAF)"
    using t by (simp add: tidy_world_def tidy_def tidy_agent_def registered_def)
  then have dp: "clean_path (DataPath w)"
    by (auto simp: dir_path_def agent_base_def clean_path_def plain_name_def list_all_iff)
  have "clean_path (base_of w a)" for a
  proof (cases "registered a")
    case True
    then have "dir_path (wfs w) (base_of w a)" using tidy_worldD(3) [OF t] by blast
    then show ?thesis by (auto simp: dir_path_def clean_path_def plain_name_def list_all_iff)
  next
    case False
    then show ?thesis by (cases a) (simp_all add: registered_def base_of_def)
  qed
  then show "files_ok w" using dp tidy_worldD(1) [OF t] by (simp add: files_ok_def)
qed

lemma paths_configure: "paths_of (ProcessConfigure env conf w) = paths_of w"
proof -
  have "paths_of (snd (runner_ProcessConfig env a conf w)) = paths_of w" for a
    by (auto simp: runner_ProcessConfig_def Telegraf_ProcessConfig_def paths_of_def base_of_def fun_eq_iff
        split: AgentType.split prod.split)
  moreover obtain res w1 where r: "runner_ProcessConfig env (conf_agentType conf) conf w = (res, w1)" by fastforce
  ultimately have "paths_of w1 = paths_of w" by (metis snd_conv)
  then show ?thesis using r paths_Ensure by (auto simp: ProcessConfigure_def Let_def split: flow.split option.split)
qed

lemma paths_next:
  assumes "world_next w e = Some w'"
  shows "paths_of w' = paths_of w"
proof (cases e)
  case (EvDetach re)
  then show ?thesis
    using assms paths_purge [of "env_faults (renv re)" "range_agents re" "stopAll (env_handler (renv re)) (range_agents re) w"]
      paths_stopAll by (auto simp: Start_detach_def Let_def split: if_splits)
qed (use assms paths_install paths_configure paths_stopAll paths_Ensure in
    \<open>auto simp: Start_done_def split: if_splits option.splits\<close>)

text \<open>Every event keeps the directories, and does to the configurations what it should.\<close>

lemma configs_step:
  assumes "tidy_world w" and "event_fine lb e" and "world_next w e = Some w'"
  shows "tidy_world w'" and "keeps_files a \<Longrightarrow> agent_configs w' a = event_configs lb a e (agent_configs w a)"
proof -
  have wf: "wf_fs (wfs w')" using files_next [OF tidy_files_ok [OF assms(1)] assms(3)] by (simp add: files_ok_def)
  have up: "\<not> wdown w" using assms(3) by (auto split: if_splits)
  have still: "tidy_world w' \<and> agent_configs w' a = agent_configs w a"
    if "paths_of w' = paths_of w" "wfs w' = wfs w" using tidy_same [OF that] assms(1) by simp
  have "tidy_world w' \<and> (keeps_files a \<longrightarrow> agent_configs w' a = event_configs lb a e (agent_configs w a))"
  proof (cases e)
    case (EvInstall re install)
    then have "w' = ProcessInstall re install w" using assms(3) up by simp
    then show ?thesis
      using install_files [OF assms(1)] assms(2) wf EvInstall by (simp add: event_fine_def event_configs_def)
  next
    case (EvConfigure env conf)
    then have "w' = ProcessConfigure env conf w" using assms(3) up by simp
    then show ?thesis
      using configure_files [OF assms(1)] assms(2) EvConfigure by (simp add: event_fine_def event_configs_def)
  next
    case (EvDetach re)
    then have "w' = Start_detach re w" using assms(3) up by simp
    then show ?thesis
      using detach_files [OF assms(1)] assms(2) wf EvDetach by (simp add: event_fine_def event_configs_def)
  next
    case (EvDone re)
    then have "w' = stopAll (env_handler (renv re)) (range_agents re) w" using assms(3) up by (simp add: Start_done_def)
    then show ?thesis using still paths_stopAll EvDone by (simp add: event_configs_def)
  next
    case (EvRestart env b)
    then show ?thesis
      using still assms(3) up paths_Ensure [of env b False "w\<lparr>whandler := pop_restart b (whandler w)\<rparr>"]
      by (auto simp: event_configs_def split: if_splits)
  qed (use still assms(3) up in \<open>auto simp: event_configs_def split: option.splits\<close>)
  then show "tidy_world w'" "keeps_files a \<Longrightarrow> agent_configs w' a = event_configs lb a e (agent_configs w a)" by blast+
qed

lemma load_runners_bases:
  assumes "load_runners re as w = (None, w')"
  shows "wfs w' = wfs w" and "DataPath w' = DataPath w"
    and "registered a \<Longrightarrow> base_of w' a = (if a \<in> set as then agentBasePath w a else base_of w a)"
proof -
  have "wfs w' = wfs w \<and> DataPath w' = DataPath w \<and>
    (registered a \<longrightarrow> base_of w' a = (if a \<in> set as then agentBasePath w a else base_of w a))"
    using assms
  proof (induction re as w rule: load_runners.induct)
    case (2 re b as w)
    obtain w1 where w1: "runner_Load (rload re) b (agentBasePath w b) w = (None, w1)" "load_runners re as w1 = (None, w')"
      using "2.prems" by (auto split: prod.splits option.splits)
    have "wfs w1 = wfs w \<and> DataPath w1 = DataPath w \<and>
        (registered a \<longrightarrow> base_of w1 a = (if a = b then agentBasePath w a else base_of w a))"
      using w1(1) by (cases b) (auto simp: runner_Load_def Telegraf_Load_def Let_def base_of_def registered_def
          split: AgentType.splits sum.splits prod.splits)
    then show ?case
      using "2.IH" [OF w1(1) [symmetric] refl w1(2)] by (auto simp: agentBasePath_def)
  qed simp
  then show "wfs w' = wfs w" "DataPath w' = DataPath w"
    "registered a \<Longrightarrow> base_of w' a = (if a \<in> set as then agentBasePath w a else base_of w a)" by blast+
qed

lemma boot_files:
  assumes "tidy dataPath fs" and "env_faults (renv re) = no_faults" and "set (range_agents re) = set SupportedAgents"
    and "NewAgentsRunner re (boot_world dataPath fs) = (None, w)"
  shows "tidy_world w" and "keeps_files a \<Longrightarrow> agent_configs w a = Map.empty"
proof -
  obtain w1 where w1: "load_runners re (range_agents re) (boot_world dataPath fs) = (None, w1)"
    "PurgeAgentConfigs no_faults (range_agents re) w1 = (None, w)"
    using assms(2,4) by (auto simp: NewAgentsRunner_def simp del: no_faults split: prod.splits option.splits)
  note l = load_runners_bases [OF w1(1)]
  have boot: "DataPath (boot_world dataPath fs) = dataPath" "wfs (boot_world dataPath fs) = fs"
    by (simp_all add: boot_world_def)
  have bases: "base_of w1 b = agent_base (DataPath w1) b" if "registered b" for b
    using l(2) l(3) [OF that] that assms(3) boot
    by (simp add: agentBasePath_base) (auto simp: SupportedAgents_def registered_def)
  have d: "DataPath w = DataPath w1" using paths_same [OF paths_purge] w1(2) by (metis snd_conv)
  have t1: "tidy (DataPath w1) (wfs w1)" using assms(1) l(1,2) boot by simp
  have "dir_path fs (agent_base dataPath TELEGRAF)" using assms(1) by (simp add: tidy_def tidy_agent_def registered_def)
  then have dp: "clean_path dataPath"
    by (auto simp: dir_path_def agent_base_def clean_path_def plain_name_def list_all_iff)
  have "wf_fs fs" using assms(1) by (simp add: tidy_def)
  from files_boot [OF this dp, of re] have wf: "wf_fs (wfs w)" using assms(4) by (simp add: files_ok_def)
  note t = purge_tidy [OF t1 bases assms(3) w1(2) wf d]
  show "tidy_world w" "keeps_files a \<Longrightarrow> agent_configs w a = Map.empty" using t by blast+
qed

lemma boot_path:
  assumes "NewAgentsRunner re (boot_world dataPath fs) = (None, w)"
  shows "DataPath w = dataPath"
proof -
  obtain w1 where w1: "load_runners re (range_agents re) (boot_world dataPath fs) = (None, w1)"
    "PurgeAgentConfigs (env_faults (renv re)) (range_agents re) w1 = (None, w)"
    using assms by (auto simp: NewAgentsRunner_def split: prod.splits option.splits)
  have "DataPath w = DataPath w1" using paths_same [OF paths_purge] w1(2) by (metis snd_conv)
  then show ?thesis using load_runners_bases(2) [OF w1(1)] by (simp add: boot_world_def)
qed

end
