(* ===== verification/Files_System.thy ===== *)
theory Files_System
  imports World_Configs Envoy_System
begin

text \<open>
  From the Ambassador to the agents that read their configurations from files: what the
  directories of filebeat, oracle and packages hold is what the instructions of all connections
  since the last detachment say. The counterpart of \<open>Telegraf_System\<close>, whose agent is served its
  configurations from memory.
\<close>

section \<open>The specification\<close>

definition files_spec_step :: "libs \<Rightarrow> AgentType \<Rightarrow> router_log \<Rightarrow> (string \<Rightarrow> string option) \<Rightarrow> (string \<Rightarrow> string option)" where
  "files_spec_step lb a l m =
     (case l of
        Applied k i \<Rightarrow> (case i of Configure conf \<Rightarrow> configured lb a conf m | _ \<Rightarrow> m)
      | Detached \<Rightarrow> Map.empty
      | _ \<Rightarrow> m)"

definition files_spec :: "libs \<Rightarrow> AgentType \<Rightarrow> router_log list \<Rightarrow> (string \<Rightarrow> string option)" where
  "files_spec lb a h = fold (files_spec_step lb a) h Map.empty"

text \<open>System calls succeed, the libraries are the same throughout, versions have names of their
  own and configurations have ids without a slash.\<close>

definition step_fine :: "libs \<Rightarrow> envoy \<Rightarrow> envoy_event \<Rightarrow> bool" where
  "step_fine lb s e =
     (case e of
        EgressEvent ie ge \<Rightarrow>
          env_faults (renv (ie_router ie)) = no_faults \<and> env_libs (renv (ie_router ie)) = lb \<and>
          (case instruction_at_hand (sys_egress s) ge of
             Some (k, Install install) \<Rightarrow> good_version (inst_version install)
           | Some (k, Configure conf) \<Rightarrow> list_all plain_id (conf_operations conf)
           | _ \<Rightarrow> True)
      | WorldEvent _ \<Rightarrow> True)"

definition files_follow :: "libs \<Rightarrow> path \<Rightarrow> envoy \<Rightarrow> bool" where
  "files_follow lb dataPath s \<longleftrightarrow>
     tidy_world (sys_world s) \<and> DataPath (sys_world s) = dataPath \<and>
     (\<forall>a. keeps_files a \<longrightarrow> agent_configs (sys_world s) a = files_spec lb a (history s))"

section \<open>The refinement\<close>

lemma files_spec_append: "files_spec lb a (h @ h') = fold (files_spec_step lb a) h' (files_spec lb a h)"
  by (simp add: files_spec_def)

text \<open>One event of the world and what the history says of it.\<close>

lemma files_follow_event:
  assumes "files_follow lb dp s" and "event_fine lb we" and "world_next (sys_world s) we = Some w"
    and "\<And>a m. fold (files_spec_step lb a) h m = event_configs lb a we m"
  shows "files_follow lb dp (s\<lparr>sys_egress := g, sys_world := w, history := history s @ h\<rparr>)"
  using configs_step [OF _ assms(2,3)] paths_same [OF paths_next [OF assms(3)]] assms(1,4)
  by (simp add: files_follow_def files_spec_append)

lemma files_follow_stutter:
  assumes "files_follow lb dp s" and "\<And>a m. fold (files_spec_step lb a) h m = m"
  shows "files_follow lb dp (s\<lparr>sys_egress := g, history := history s @ h\<rparr>)"
  using assms by (simp add: files_follow_def files_spec_append)

lemma files_follow_router:
  assumes "files_follow lb dp s" and "step_fine lb s (EgressEvent ie ge)" and "\<not> wdown (sys_world s)" and "full_range ie"
  shows "files_follow lb dp (s\<lparr>sys_egress := g, sys_world := router_effect ie (sys_egress s) ge (sys_world s),
      history := history s @ router_logs (sys_egress s) ge\<rparr>)"
proof (cases "instruction_at_hand (sys_egress s) ge")
  case None
  have range: "set (range_agents (ie_router ie)) = set SupportedAgents"
    using assms(4) unfolding full_range_def by (metis set_mset_mset)
  show ?thesis
  proof (cases "ge = RouterTakesDetach")
    case True
    have "event_fine lb (EvDetach (ie_router ie))"
      using assms(2) range by (simp add: event_fine_def step_fine_def)
    moreover have "world_next (sys_world s) (EvDetach (ie_router ie)) = Some (Start_detach (ie_router ie) (sys_world s))"
      using assms(3) by simp
    ultimately show ?thesis
      using files_follow_event [OF assms(1), of "EvDetach (ie_router ie)" _ "[Detached]"] None True
      by (simp add: router_effect_def router_logs_def event_configs_def files_spec_step_def del: world_next.simps)
  next
    case False
    then show ?thesis using files_follow_stutter [OF assms(1), of "[]"] None by (simp add: router_effect_def router_logs_def)
  qed
next
  case (Some ki)
  then obtain k i where ki: "instruction_at_hand (sys_egress s) ge = Some (k, i)" by (cases ki) simp
  have log: "router_logs (sys_egress s) ge = [Applied k i]"
    and eff: "router_effect ie (sys_egress s) ge (sys_world s) = attached_step ie i (sys_world s)"
    by (simp_all add: router_logs_def router_effect_def ki)
  show ?thesis
  proof (cases "event_of ie i")
    case None
    then have "files_spec_step lb a (Applied k i) m = m" for a m
      by (cases i) (simp_all add: event_of_def files_spec_step_def)
    then show ?thesis
      using files_follow_stutter [OF assms(1), of "[Applied k i]"] None by (simp add: log eff attached_step_def)
  next
    case (Some we)
    have fine: "event_fine lb we" and spec: "files_spec_step lb a (Applied k i) m = event_configs lb a we m" for a m
      using Some assms(2) ki
      by (cases i; simp add: event_of_def event_fine_def step_fine_def files_spec_step_def event_configs_def; force)+
    obtain w where w: "world_next (sys_world s) we = Some w"
      using Some assms(3) by (cases i) (auto simp: event_of_def)
    show ?thesis
      using files_follow_event [OF assms(1) fine w, of "[Applied k i]"] spec Some w by (simp add: log eff attached_step_def)
  qed
qed

lemma files_follow_next:
  assumes "files_follow lb dp s" and "step_fine lb s e" and "envoy_next s e = Some t"
  shows "files_follow lb dp t"
  using assms(3)
proof (cases rule: envoy_next_cases)
  case (egress ie ge g)
  then show ?thesis using files_follow_router [OF assms(1) _ egress(2,3), of ge g] assms(2) by simp
next
  case (world we w)
  have fine: "event_fine lb we" and spec: "fold (files_spec_step lb a) (world_logs we) m = event_configs lb a we m" for a m
    using world(2) by (cases we; simp add: own_event_def event_fine_def event_configs_def world_logs_def files_spec_step_def)+
  show ?thesis
    using files_follow_event [OF assms(1) fine world(3) spec, of "sys_egress s"] world(4) by (simp add: files_follow_def)
qed

text \<open>
  C5 From the Ambassador to the files of filebeat, oracle and packages: in any run of the attached
  Envoy whose data directory was in order at the start, in which system calls succeed and ids and
  versions are proper names, the directory of configurations of each of the three agents holds
  exactly the files of the specification, and no other entry: the operations of the configure
  instructions for the agent carried out since the last detachment, in their order, of each
  instruction those before the first write that is not a JSON object; a write to oracle or packages
  goes over the old content. Installations, test monitors, restarts, process ends and the
  instructions for other agents, in whatever order, change none of them.
\<close>

theorem files_follow_instructions:
  assumes "runCmd env dataPath fs = Running (g, w, c)" and "tidy dataPath fs"
    and "env_faults (renv (run_router env)) = no_faults" and "set (range_agents (run_router env)) = set SupportedAgents"
    and "envoy_run (envoy_up w) es = Some t" and "along (step_fine lb) (envoy_up w) es"
    and "a \<in> {FILEBEAT, ORACLE, PACKAGES}"
  shows "let d = dataPath @ [''agents'', AgentType_String a, ''config.d''] in
    (\<forall>i. file_content (wfs (sys_world t)) (d @ [i @ config_ext a]) = files_spec lb a (history t) i) \<and>
    (\<forall>n. lookup (wfs (sys_world t)) (d @ [n]) \<noteq> None \<longrightarrow>
       (\<exists>i. n = i @ config_ext a \<and> files_spec lb a (history t) i \<noteq> None))"
proof -
  obtain re where n: "NewAgentsRunner re (boot_world dataPath fs) = (None, w)" "renv re = renv (run_router env)"
    "range_agents re = range_agents (run_router env)"
    using assms(1) by (auto simp: runCmd_def setup_agents_def with_listeners_def
        split: launch.splits prod.splits option.splits sum.splits)
  have boot: "tidy_world w" "\<And>a. keeps_files a \<Longrightarrow> agent_configs w a = Map.empty"
    using boot_files [OF assms(2) _ _ n(1)] n(2,3) assms(3,4) by auto
  have dp: "DataPath w = dataPath" by (rule boot_path [OF n(1)])
  have "files_follow lb dataPath (envoy_up w)"
    using boot dp by (simp add: files_follow_def envoy_up_def files_spec_def)
  then have f: "files_follow lb dataPath t"
    using along_run [OF assms(5,6), where I = "files_follow lb dataPath"] files_follow_next by blast
  have k: "keeps_files a" using assms(7) by (simp add: keeps_files_def)
  let ?d = "dataPath @ [''agents'', AgentType_String a, ''config.d'']"
  have tw: "tidy_world (sys_world t)" and all: "agent_configs (sys_world t) a = files_spec lb a (history t)"
    and b: "base_of (sys_world t) a @ [configsDirSubpath] = ?d"
    using f k tidy_worldD(2) [OF _ keeps_registered [OF k]]
    by (auto simp: files_follow_def agent_base_def configsDirSubpath_def)
  have content: "file_content (wfs (sys_world t)) (?d @ [i @ config_ext a]) = files_spec lb a (history t) i" for i
    using fun_cong [OF all, of i] unfolding agent_configs_def b file_config_def .
  have "\<exists>i. m = i @ config_ext a \<and> files_spec lb a (history t) i \<noteq> None"
    if m: "lookup (wfs (sys_world t)) (?d @ [m]) \<noteq> None" for m
  proof -
    have ok: "configs_ok ?d (config_ext a) (wfs (sys_world t))" using tidy_worldD(5) [OF tw k] unfolding b .
    then obtain i where i: "m = i @ config_ext a" using m unfolding configs_ok_def only_ext_def by blast
    moreover have "file_content (wfs (sys_world t)) (?d @ [m]) \<noteq> None"
      using ok m unfolding configs_ok_def file_content_def
      by (cases "the (lookup (wfs (sys_world t)) (?d @ [m]))") (force dest: spec [of _ m])+
    ultimately show ?thesis using content [of i] by auto
  qed
  then show ?thesis using content unfolding Let_def by blast
qed

definition files_events :: "monitor_env \<Rightarrow> envoy_event list" where
  "files_events me =
     map (EgressEvent (plain_instruction me))
       (connects 0 @ [Watch 0 (Inr (Configure filebeat_conf)), Watch 0 (Inr Ready)])"

lemma files_events_run:
  "\<exists>t. envoy_run (envoy_up witness_boot) (files_events me) = Some t \<and>
     history t = [Applied 0 Ready, Applied 0 (Configure filebeat_conf)] \<and>
     along (step_fine plain_libs) (envoy_up witness_boot) (files_events me)"
  by (simp add: files_events_def envoy_run_defs step_fine_def renv_witness good_env_def filebeat_conf_def plain_id_def yml_op_def)

lemma tidy_empty: "tidy [''data''] []"
  by (auto simp: tidy_def tidy_agent_def agent_base_def dir_path_empty plain_name_def lookup_def registered_def)

lemma files_follow_instructions_witness:
  "\<forall>me. \<exists>t. envoy_run (envoy_up witness_boot) (files_events me) = Some t \<and>
     file_content (wfs (sys_world t)) [''data'', ''agents'', ''FILEBEAT'', ''config.d'', ''a.yml''] = Some ''x'' \<and>
     lookup (wfs (sys_world t)) [''data'', ''agents'', ''FILEBEAT'', ''config.d'', ''b.yml''] = None"
proof
  fix me
  obtain t where t: "envoy_run (envoy_up witness_boot) (files_events me) = Some t"
    "history t = [Applied 0 Ready, Applied 0 (Configure filebeat_conf)]"
    "along (step_fine plain_libs) (envoy_up witness_boot) (files_events me)"
    using files_events_run by blast
  obtain g c where r: "runCmd plain_run [''data''] [] = Running (g, witness_boot, c)" using plain_runs by blast
  have e: "env_faults (renv (run_router plain_run)) = no_faults"
    "set (range_agents (run_router plain_run)) = set SupportedAgents"
    by (auto simp: plain_run_def sample_run_def witness_env_def good_env_def SupportedAgents_def)
  have holds: "files_spec plain_libs FILEBEAT (history t) = [''a'' \<mapsto> ''x'']"
    by (simp add: t(2) files_spec_def files_spec_step_def configured_def filebeat_conf_def yml_op_def writable_def
        config_render_def config_step_def config_combine_def replace_content_def)
  have ext: "config_ext FILEBEAT = ''.yml''" by (simp add: config_ext_def)
  let ?d = "[''data'', ''agents'', ''FILEBEAT'', ''config.d'']"
  have f: "\<And>i. file_content (wfs (sys_world t)) (?d @ [i @ ''.yml'']) = [''a'' \<mapsto> ''x''] i"
    "\<And>n. lookup (wfs (sys_world t)) (?d @ [n]) \<noteq> None \<Longrightarrow> \<exists>i. n = i @ ''.yml'' \<and> [''a'' \<mapsto> ''x''] i \<noteq> None"
    using files_follow_instructions [OF r tidy_empty e t(1,3), of FILEBEAT] by (simp_all add: holds ext Let_def)
  show "\<exists>t. envoy_run (envoy_up witness_boot) (files_events me) = Some t \<and>
     file_content (wfs (sys_world t)) [''data'', ''agents'', ''FILEBEAT'', ''config.d'', ''a.yml''] = Some ''x'' \<and>
     lookup (wfs (sys_world t)) [''data'', ''agents'', ''FILEBEAT'', ''config.d'', ''b.yml''] = None"
    using t(1) f(1) [of "''a''"] f(2) [of "''b.yml''"]
    by (intro exI [of _ t]) (cases "lookup (wfs (sys_world t)) (?d @ [''b.yml''])"; auto split: if_splits)
qed

end
