(* ===== verification/Egress_Posts.thy ===== *)
theory Egress_Posts
  imports Egress_Setup
begin

text \<open>
  What is sent to the Ambassador over a connection that comes and goes
  (\<^verbatim>\<open>ambassador/connection.go\<close>). \<open>Egress_Connection\<close> has the attach loop and the goroutines of
  every connection; here the fields they share with the goroutines that post are added:
  \<^verbatim>\<open>envoyId\<close>, \<^verbatim>\<open>client\<close> and \<^verbatim>\<open>outgoingContext\<close>, each written and read by itself, without a
  lock. A call reads the context and the client one after the other, and \<^verbatim>\<open>attach\<close> may replace
  them in between. The accesses are taken as atomic and sequentially consistent.
\<close>

section \<open>State\<close>

text \<open>What one successful \<^verbatim>\<open>dialNetwork\<close> leads to: a client connection, closed when
  \<^verbatim>\<open>attach\<close> returns; a context with the id in its headers; and, if \<^verbatim>\<open>AttachEnvoy\<close> succeeds, the
  connection with this number in \<^verbatim>\<open>conns\<close>.\<close>

record dialed =
  dial_id :: string
  dial_conn :: "nat option"
  dial_closed :: bool

datatype purpose = Posting post | Testing EnvoyInstructionTestMonitor | KeepingAlive nat nat

text \<open>A goroutine on its way to a call: at the test of \<^verbatim>\<open>c.attached\<close>, waiting for the results of a
  test run, about to read \<^verbatim>\<open>c.outgoingContext\<close>, about to read \<^verbatim>\<open>c.client\<close> with the context of a
  dial in its hand, having made the call, having left it, or panicking on a nil value. What is
  remembered of a call: the dial its context is of and the one its client is of, whether that
  client was closed, whether the context was done, and the error returned.\<close>

datatype call_pc =
    CCheck
  | CAwait
  | CContext
  | CClient nat
  | CMade nat nat bool bool "go_error option"
  | CDropped
  | CPanicked

record rpc_call =
  purpose :: purpose
  call_pc :: call_pc

text \<open>Where \<^verbatim>\<open>attach\<close> stands while it opens a connection.\<close>

datatype attach_stage = AtDial | AtContext | AtAttach

record egress_rpc =
  base :: egress
  envoyId :: string
  generated :: nat
  client :: "nat option"
  outgoingContext :: "nat option"
  stage :: attach_stage
  dials :: "dialed list"
  calls :: "rpc_call list"

definition started_rpc :: "bool \<Rightarrow> egress_rpc" where
  "started_rpc b =
     \<lparr>base = started_egress b, envoyId = [], generated = 0, client = None, outgoingContext = None,
      stage = AtDial, dials = [], calls = []\<rparr>"

section \<open>Steps\<close>

definition dial_done :: "egress_rpc \<Rightarrow> nat \<Rightarrow> bool" where
  "dial_done s d \<longleftrightarrow>
     (case dial_conn (dials s ! d) of None \<Rightarrow> app_done (base s) | Some k \<Rightarrow> ctx_done (base s) k)"

definition close_last :: "dialed list \<Rightarrow> dialed list" where
  "close_last ds = (let d = length ds - 1 in ds[d := (ds ! d)\<lparr>dial_closed := True\<rparr>])"

definition attach_last :: "nat \<Rightarrow> dialed list \<Rightarrow> dialed list" where
  "attach_last k ds = (let d = length ds - 1 in ds[d := (ds ! d)\<lparr>dial_conn := Some k\<rparr>])"

text \<open>A keep-alive goroutine at its call reads the context next; a test monitor at hand is given to
  a goroutine of its own, which posts its results.\<close>

definition spawned :: "egress \<Rightarrow> egress_event \<Rightarrow> rpc_call list" where
  "spawned b e =
     (case e of
        Watch k answer \<Rightarrow>
          (case watch (conns b ! k) of
             WHandle (TestMonitor testMonitor) \<Rightarrow> [\<lparr>purpose = Testing testMonitor, call_pc = CAwait\<rparr>]
           | _ \<Rightarrow> [])
      | Keep k j takes_done failure \<Rightarrow>
          (if keepAlives (conns b ! k) ! j = KSelect \<and> \<not> takes_done
           then [\<lparr>purpose = KeepingAlive k j, call_pc = CContext\<rparr>] else [])
      | _ \<Rightarrow> [])"

text \<open>A keep-alive goroutine goes on with what its last call returned.\<close>

definition answered :: "egress_rpc \<Rightarrow> egress_event \<Rightarrow> bool" where
  "answered s e =
     (case e of
        Keep k j takes_done failure \<Rightarrow>
          keepAlives (conns (base s) ! k) ! j = KCall \<longrightarrow>
          (case filter (\<lambda>c. purpose c = KeepingAlive k j) (rev (calls s)) of
             [] \<Rightarrow> False
           | c # _ \<Rightarrow> (case call_pc c of CMade _ _ _ _ err \<Rightarrow> err = failure | _ \<Rightarrow> False))
      | _ \<Rightarrow> True)"

datatype rpc_event =
    Generates                  \<comment> \<open>the id \<^verbatim>\<open>Start\<close> generates when it gives up retrying\<close>
  | Opens                      \<comment> \<open>\<^verbatim>\<open>attach\<close> is called\<close>
  | DialFails
  | DialSucceeds
  | SetsContext
  | AttachEnvoyReturns "go_error option"
  | Other egress_event         \<comment> \<open>a step of \<open>Egress_Connection\<close> that is none of the above\<close>
  | Posts post
  | Checks nat
  | Gets nat "TestMonitorResults option"
  | TakesContext nat
  | Calls nat "go_error option"

definition set_pc :: "nat \<Rightarrow> call_pc \<Rightarrow> egress_rpc \<Rightarrow> egress_rpc" where
  "set_pc n pc s = s\<lparr>calls := (calls s)[n := (calls s ! n)\<lparr>call_pc := pc\<rparr>]\<rparr>"

text \<open>\<open>gen\<close> gives the ids the generator returns, one after the other.\<close>

definition start_generates :: "(nat \<Rightarrow> string) \<Rightarrow> egress_rpc \<Rightarrow> egress_rpc option" where
  "start_generates gen s =
     (if loop (base s) = Between
      then Some (s\<lparr>envoyId := gen (generated s), generated := Suc (generated s)\<rparr>) else None)"

definition attach_opens :: "(nat \<Rightarrow> string) \<Rightarrow> egress_rpc \<Rightarrow> egress_rpc option" where
  "attach_opens gen s =
     map_option (\<lambda>b. s\<lparr>base := b, envoyId := gen (generated s), generated := Suc (generated s), stage := AtDial\<rparr>)
       (egress_next (base s) (Loop Attaches))"

fun attach_rpc :: "rpc_event \<Rightarrow> egress_rpc \<Rightarrow> egress_rpc option" where
  "attach_rpc DialFails s =
     (if stage s = AtDial
      then map_option (\<lambda>b. s\<lparr>base := b\<rparr>) (egress_next (base s) (Loop AttachFails)) else None)"
| "attach_rpc DialSucceeds s =
     (if loop (base s) = Dialing \<and> stage s = AtDial
      then Some (s\<lparr>dials := dials s @ [\<lparr>dial_id = envoyId s, dial_conn = None, dial_closed = False\<rparr>],
                   client := Some (length (dials s)), stage := AtContext\<rparr>)
      else None)"
| "attach_rpc SetsContext s =
     (if loop (base s) = Dialing \<and> stage s = AtContext
      then Some (s\<lparr>outgoingContext := Some (length (dials s) - 1), stage := AtAttach\<rparr>) else None)"
| "attach_rpc (AttachEnvoyReturns (Some err)) s =
     (if stage s = AtAttach
      then map_option (\<lambda>b. s\<lparr>base := b, dials := close_last (dials s)\<rparr>) (egress_next (base s) (Loop AttachFails))
      else None)"
| "attach_rpc (AttachEnvoyReturns None) s =
     (if stage s = AtAttach
      then map_option (\<lambda>b. s\<lparr>base := b, dials := attach_last (length (conns (base s))) (dials s)\<rparr>)
             (egress_next (base s) (Loop AttachSucceeds))
      else None)"
| "attach_rpc _ s = None"

text \<open>The connection is closed when \<^verbatim>\<open>attach\<close> returns from its loop.\<close>

definition other_rpc :: "egress_event \<Rightarrow> egress_rpc \<Rightarrow> egress_rpc option" where
  "other_rpc e s =
     (if e \<in> {Loop Attaches, Loop AttachFails, Loop AttachSucceeds} \<or> \<not> answered s e then None
      else map_option (\<lambda>b. s\<lparr>base := b, calls := calls s @ spawned (base s) e,
               dials := if e = Loop TakesDone then close_last (dials s) else dials s\<rparr>)
             (egress_next (base s) e))"

text \<open>The goroutines that call: \<^verbatim>\<open>PostLogEvent\<close> and \<^verbatim>\<open>PostMetric\<close> look at \<^verbatim>\<open>c.attached\<close> first,
  \<^verbatim>\<open>PostTestMonitorResults\<close> is reached by the goroutines of \<^verbatim>\<open>processTestMonitor\<close>.\<close>

fun call_step :: "rpc_event \<Rightarrow> egress_rpc \<Rightarrow> egress_rpc option" where
  "call_step (Posts p) s =
     (case p of
        ResultsPosted _ \<Rightarrow> None
      | _ \<Rightarrow> Some (s\<lparr>calls := calls s @ [\<lparr>purpose = Posting p, call_pc = CCheck\<rparr>]\<rparr>))"
| "call_step (Checks n) s =
     (if call_pc (calls s ! n) = CCheck
      then Some (set_pc n (if attached (base s) then CContext else CDropped) s) else None)"
| "call_step (Gets n results) s =
     (if call_pc (calls s ! n) = CAwait
      then Some (case results of
             None \<Rightarrow> set_pc n CDropped s
           | Some r \<Rightarrow> s\<lparr>calls := (calls s)[n := \<lparr>purpose = Posting (ResultsPosted r), call_pc = CContext\<rparr>]\<rparr>)
      else None)"
| "call_step (TakesContext n) s =
     (if call_pc (calls s ! n) = CContext
      then Some (set_pc n (case outgoingContext s of None \<Rightarrow> CPanicked | Some d \<Rightarrow> CClient d) s) else None)"
| "call_step (Calls n failure) s =
     (case call_pc (calls s ! n) of
        CClient d \<Rightarrow>
          Some (set_pc n (case client s of
                  None \<Rightarrow> CPanicked
                | Some d' \<Rightarrow> CMade d d' (dial_closed (dials s ! d')) (dial_done s d) failure) s)
      | _ \<Rightarrow> None)"
| "call_step _ s = None"

definition call_of :: "rpc_event \<Rightarrow> nat option" where
  "call_of e = (case e of Checks n \<Rightarrow> Some n | Gets n _ \<Rightarrow> Some n | TakesContext n \<Rightarrow> Some n | Calls n _ \<Rightarrow> Some n | _ \<Rightarrow> None)"

definition rpc_next :: "(nat \<Rightarrow> string) \<Rightarrow> egress_rpc \<Rightarrow> rpc_event \<Rightarrow> egress_rpc option" where
  "rpc_next gen s e =
     (case e of
        Generates \<Rightarrow> start_generates gen s
      | Opens \<Rightarrow> attach_opens gen s
      | Other oe \<Rightarrow> other_rpc oe s
      | Posts p \<Rightarrow> call_step e s
      | _ \<Rightarrow>
          (case call_of e of
             None \<Rightarrow> attach_rpc e s
           | Some n \<Rightarrow> (if n < length (calls s) then call_step e s else None)))"

fun rpc_run :: "(nat \<Rightarrow> string) \<Rightarrow> egress_rpc \<Rightarrow> rpc_event list \<Rightarrow> egress_rpc option" where
  "rpc_run gen s [] = Some s"
| "rpc_run gen s (e # es) = (case rpc_next gen s e of None \<Rightarrow> None | Some t \<Rightarrow> rpc_run gen t es)"

inductive rpc_reachable :: "(nat \<Rightarrow> string) \<Rightarrow> egress_rpc \<Rightarrow> bool" for gen where
  start: "rpc_reachable gen (started_rpc b)"
| step: "rpc_reachable gen s \<Longrightarrow> rpc_next gen s e = Some t \<Longrightarrow> rpc_reachable gen t"

interpretation rpcs: transition_system "\<lambda>s. \<exists>b. s = started_rpc b" "\<lambda>s e t. rpc_next gen s e = Some t"
    "rpc_reachable gen" for gen
proof
  fix s :: egress_rpc and P :: "egress_rpc \<Rightarrow> bool"
  assume "rpc_reachable gen s" and "\<forall>s. (\<exists>b. s = started_rpc b) \<longrightarrow> P s"
    and "\<forall>s e t. rpc_reachable gen s \<longrightarrow> P s \<longrightarrow> rpc_next gen s e = Some t \<longrightarrow> P t"
  then show "P s" by (induction rule: rpc_reachable.induct) blast+
qed

lemma rpc_run_reachable: "rpc_run gen s es = Some t \<Longrightarrow> rpc_reachable gen s \<Longrightarrow> rpc_reachable gen t"
  by (induction es arbitrary: s) (auto split: option.splits intro: rpc_reachable.step)

section \<open>The attach loop underneath\<close>

text \<open>The five kinds of steps.\<close>

lemma rpc_cases:
  assumes "rpc_next gen s e = Some t"
  obtains (generates) "e = Generates" and "loop (base s) = Between"
      and "t = s\<lparr>envoyId := gen (generated s), generated := Suc (generated s)\<rparr>"
  | (opens) "e = Opens" and "loop (base s) = Between"
      and "t = s\<lparr>base := (base s)\<lparr>loop := Dialing\<rparr>, envoyId := gen (generated s), generated := Suc (generated s),
             stage := AtDial\<rparr>"
  | (attaches) "attach_rpc e s = Some t"
  | (other) oe where "e = Other oe" and "other_rpc oe s = Some t"
  | (calls) "call_step e s = Some t" and "\<And>n. call_of e = Some n \<Longrightarrow> n < length (calls s)"
  using assms by (cases e) (auto simp: rpc_next_def call_of_def attach_opens_def start_generates_def split: if_splits)

text \<open>Opening a connection, with the step of the loop written out.\<close>

lemma attach_rpc_cases:
  assumes "attach_rpc e s = Some t"
  obtains (dial_fails) "loop (base s) = Dialing" and "t = s\<lparr>base := (base s)\<lparr>loop := Between\<rparr>\<rparr>"
  | (dial_succeeds) "loop (base s) = Dialing" and "stage s = AtDial"
      and "t = s\<lparr>dials := dials s @ [\<lparr>dial_id = envoyId s, dial_conn = None, dial_closed = False\<rparr>],
                 client := Some (length (dials s)), stage := AtContext\<rparr>"
  | (sets_context) "loop (base s) = Dialing" and "stage s = AtContext"
      and "t = s\<lparr>outgoingContext := Some (length (dials s) - 1), stage := AtAttach\<rparr>"
  | (attach_fails) "loop (base s) = Dialing" and "stage s = AtAttach"
      and "t = s\<lparr>base := (base s)\<lparr>loop := Between\<rparr>, dials := close_last (dials s)\<rparr>"
  | (attach_succeeds) "loop (base s) = Dialing" and "stage s = AtAttach"
      and "t = s\<lparr>base := (base s)\<lparr>conns := conns (base s) @ [new_connection], loop := Selecting (length (conns (base s)))\<rparr>,
                 dials := attach_last (length (conns (base s))) (dials s)\<rparr>"
proof (cases e)
  case DialFails
  then show ?thesis using assms dial_fails by (simp split: if_splits)
next
  case DialSucceeds
  then show ?thesis using assms dial_succeeds by (simp split: if_splits)
next
  case SetsContext
  then show ?thesis using assms sets_context by (simp split: if_splits)
next
  case (AttachEnvoyReturns f)
  then show ?thesis using assms attach_fails attach_succeeds by (cases f) (simp_all split: if_splits)
qed (use assms in simp_all)

lemma other_rpc_cases:
  assumes "other_rpc oe s = Some t"
  obtains b where "egress_next (base s) oe = Some b" and "oe \<notin> {Loop Attaches, Loop AttachFails, Loop AttachSucceeds}"
    and "t = s\<lparr>base := b, calls := calls s @ spawned (base s) oe,
               dials := if oe = Loop TakesDone then close_last (dials s) else dials s\<rparr>"
  using assms by (auto simp: other_rpc_def simp del: egress_next.simps split: if_splits)

lemma call_step_keeps:
  assumes "call_step e s = Some t"
  shows "\<exists>cs. t = s\<lparr>calls := cs\<rparr>"
  using assms by (cases rule: call_step.elims)
    (auto simp: set_pc_def split: if_splits post.splits option.splits call_pc.splits)

lemma rpc_next_base:
  assumes "rpc_next gen s e = Some t"
  shows "base t = base s \<or> (\<exists>oe. egress_next (base s) oe = Some (base t))"
  using assms
proof (cases rule: rpc_cases)
  case opens
  then have "egress_next (base s) (Loop Attaches) = Some (base t)" by simp
  then show ?thesis by blast
next
  case attaches
  then have "base t = base s \<or> egress_next (base s) (Loop AttachFails) = Some (base t) \<or>
      egress_next (base s) (Loop AttachSucceeds) = Some (base t)"
    by (cases rule: attach_rpc_cases) simp_all
  then show ?thesis by blast
next
  case (other oe)
  from other(2) show ?thesis by (cases rule: other_rpc_cases) (auto simp del: egress_next.simps)
next
  case calls
  then obtain cs where "t = s\<lparr>calls := cs\<rparr>" using call_step_keeps by blast
  then show ?thesis by simp
qed simp

text \<open>Every run with posts is a run of the connection.\<close>

lemma base_reachable: "rpc_reachable gen s \<Longrightarrow> egress_reachable (base s)"
proof (erule rpcs.invariant_rule)
  fix s assume "\<exists>b. s = started_rpc b"
  then show "egress_reachable (base s)" by (auto simp: started_rpc_def intro: egress_reachable.start)
next
  fix s e t assume "egress_reachable (base s)" and "rpc_next gen s e = Some t"
  then show "egress_reachable (base t)" using rpc_next_base egress_reachable.step by metis
qed

lemma nth_update_in: "k < length xs \<Longrightarrow> xs[j := x] ! k = (if j = k then x else xs ! k)"
  by (simp add: nth_list_update)

lemma loop_grows:
  assumes "attach_step l s = Some t"
  shows "length (conns t) = (if l = AttachSucceeds then Suc (length (conns s)) else length (conns s)) \<and>
    (\<forall>k < length (conns s). ctx_done s k \<longrightarrow> ctx_done t k) \<and> (attached t \<longrightarrow> attached s) \<and>
    (loop t = Dialing \<longrightarrow> loop s = Dialing \<or> l = Attaches)"
  using assms by (cases l)
    (auto simp: ctx_done_def nth_append nth_update_in split: if_splits loop_pc.splits list.splits)

lemma egress_grows:
  assumes "egress_next s e = Some t"
  shows "length (conns t) = (if e = Loop AttachSucceeds then Suc (length (conns s)) else length (conns s))"
    and "k < length (conns s) \<Longrightarrow> ctx_done s k \<Longrightarrow> ctx_done t k"
    and "attached t \<Longrightarrow> attached s \<or> conns s \<noteq> []"
    and "loop t = Dialing \<Longrightarrow> loop s = Dialing \<or> e = Loop Attaches"
proof -
  have "length (conns t) = (if e = Loop AttachSucceeds then Suc (length (conns s)) else length (conns s)) \<and>
      (k < length (conns s) \<longrightarrow> ctx_done s k \<longrightarrow> ctx_done t k) \<and>
      (attached t \<longrightarrow> attached s \<or> conns s \<noteq> []) \<and> (loop t = Dialing \<longrightarrow> loop s = Dialing \<or> e = Loop Attaches)"
  proof (cases e)
    case (Loop l)
    then show ?thesis using assms loop_grows [of l s t] by simp
  next
    case (Watch j answer)
    then show ?thesis
      using assms watch_conn_keeps(1) by (auto simp: watch_step_def ctx_done_def nth_update_in split: if_splits option.splits)
  next
    case (Keep j m d f)
    then show ?thesis
      using assms keep_conn_keeps(1) by (auto simp: keep_step_def ctx_done_def nth_update_in split: if_splits option.splits)
  qed (use assms in \<open>auto simp: ctx_done_def split: if_splits\<close>)
  then show "length (conns t) = (if e = Loop AttachSucceeds then Suc (length (conns s)) else length (conns s))"
    "k < length (conns s) \<Longrightarrow> ctx_done s k \<Longrightarrow> ctx_done t k"
    "attached t \<Longrightarrow> attached s \<or> conns s \<noteq> []" "loop t = Dialing \<Longrightarrow> loop s = Dialing \<or> e = Loop Attaches" by blast+
qed

section \<open>Invariants\<close>

text \<open>The fields are set before anything can need them.\<close>

definition fields_inv :: "egress_rpc \<Rightarrow> bool" where
  "fields_inv s \<longleftrightarrow>
     client s = (if dials s = [] then None else Some (length (dials s) - 1)) \<and>
     (\<forall>d. outgoingContext s = Some d \<longrightarrow> d < length (dials s)) \<and>
     (loop (base s) = Dialing \<and> stage s \<noteq> AtDial \<longrightarrow> dials s \<noteq> []) \<and>
     (loop (base s) = Dialing \<and> stage s = AtAttach \<longrightarrow> outgoingContext s \<noteq> None) \<and>
     (conns (base s) \<noteq> [] \<longrightarrow> outgoingContext s \<noteq> None) \<and>
     (attached (base s) \<longrightarrow> conns (base s) \<noteq> [])"

text \<open>When there is a later dial, the connection of an earlier one has ended.\<close>

definition ended_inv :: "egress_rpc \<Rightarrow> bool" where
  "ended_inv s \<longleftrightarrow>
     (\<forall>d < length (dials s). \<forall>k. dial_conn (dials s ! d) = Some k \<longrightarrow>
        k < length (conns (base s)) \<and> (Suc d < length (dials s) \<longrightarrow> ctx_done (base s) k))"

definition call_ok :: "egress_rpc \<Rightarrow> rpc_call \<Rightarrow> bool" where
  "call_ok s c \<longleftrightarrow>
     call_pc c \<noteq> CPanicked \<and>
     (call_pc c \<in> {CAwait, CContext} \<longrightarrow> conns (base s) \<noteq> []) \<and>
     (\<forall>d. call_pc c = CClient d \<longrightarrow> d < length (dials s)) \<and>
     (\<forall>d d' closed over err. call_pc c = CMade d d' closed over err \<longrightarrow>
        d \<le> d' \<and> d' < length (dials s) \<and> (d < d' \<and> \<not> over \<longrightarrow> dial_conn (dials s ! d) = None))"

definition calls_inv :: "egress_rpc \<Rightarrow> bool" where
  "calls_inv s \<longleftrightarrow> (\<forall>c \<in> set (calls s). call_ok s c)"

lemma close_last_simps [simp]:
  "length (close_last ds) = length ds" "close_last ds = [] \<longleftrightarrow> ds = []"
  "dial_conn (close_last ds ! d) = dial_conn (ds ! d)" "dial_id (close_last ds ! d) = dial_id (ds ! d)"
  "map dial_id (close_last ds) = map dial_id ds"
  by (auto simp: close_last_def Let_def nth_list_update list_update_beyond map_update split: nat.splits
      intro!: nth_update_same nth_equalityI)

lemma attach_last_simps [simp]:
  "length (attach_last k ds) = length ds" "attach_last k ds = [] \<longleftrightarrow> ds = []"
  "d < length ds \<Longrightarrow> dial_conn (attach_last k ds ! d) = (if Suc d = length ds then Some k else dial_conn (ds ! d))"
  "map dial_id (attach_last k ds) = map dial_id ds"
  by (auto simp: attach_last_def Let_def nth_list_update map_update intro!: nth_equalityI)

lemma fields_inv_reachable: "rpc_reachable gen s \<Longrightarrow> fields_inv s"
proof (erule rpcs.invariant_rule)
  fix s assume "\<exists>b. s = started_rpc b" then show "fields_inv s" by (auto simp: fields_inv_def started_rpc_def started_egress_def)
next
  fix s e t assume i: "fields_inv s" and n: "rpc_next gen s e = Some t"
  from n show "fields_inv t"
  proof (cases rule: rpc_cases)
    case attaches
    then show ?thesis using i by (cases rule: attach_rpc_cases) (auto simp: fields_inv_def)
  next
    case (other oe)
    from other(2) show ?thesis
    proof (cases rule: other_rpc_cases)
      case (1 b)
      have "conns b = [] \<longleftrightarrow> conns (base s) = []" using egress_grows(1) [OF 1(1)] 1(2) by (auto simp flip: length_0_conv)
      then show ?thesis using i 1(2,3) egress_grows(3,4) [OF 1(1)] by (auto simp: fields_inv_def)
    qed
  next
    case calls
    then obtain cs where "t = s\<lparr>calls := cs\<rparr>" using call_step_keeps by blast
    then show ?thesis using i by (simp add: fields_inv_def)
  qed (use i in \<open>auto simp: fields_inv_def\<close>)
qed

lemma ended_inv_reachable: "rpc_reachable gen s \<Longrightarrow> ended_inv s"
proof (erule rpcs.invariant_rule)
  fix s assume "\<exists>b. s = started_rpc b" then show "ended_inv s" by (auto simp: ended_inv_def started_rpc_def)
next
  fix s e t assume r: "rpc_reachable gen s" and i: "ended_inv s" and n: "rpc_next gen s e = Some t"
  have all: "ctx_done (base s) k" if "loop (base s) = Dialing" "k < length (conns (base s))" for k
    using open_inv_reachable [OF base_reachable [OF r]] that by (auto simp: open_inv_def ctx_done_def)
  from n show "ended_inv t"
  proof (cases rule: rpc_cases)
    case attaches
    then show ?thesis
    proof (cases rule: attach_rpc_cases)
      case dial_succeeds
      then show ?thesis using i all by (auto simp: ended_inv_def nth_append)
    next
      case attach_succeeds
      then show ?thesis using i by (auto simp: ended_inv_def ctx_done_def nth_append split: if_splits)
    qed (use i in \<open>auto simp: ended_inv_def ctx_done_def\<close>)
  next
    case (other oe)
    from other(2) show ?thesis
    proof (cases rule: other_rpc_cases)
      case (1 b)
      then show ?thesis using i egress_grows(1,2) [OF 1(1)] by (auto simp: ended_inv_def)
    qed
  next
    case calls
    then obtain cs where "t = s\<lparr>calls := cs\<rparr>" using call_step_keeps by blast
    then show ?thesis using i by (simp add: ended_inv_def)
  qed (use i in \<open>auto simp: ended_inv_def ctx_done_def\<close>)
qed

lemma rpc_grows:
  assumes "rpc_next gen s e = Some t"
  shows "conns (base s) \<noteq> [] \<Longrightarrow> conns (base t) \<noteq> []" and "length (dials s) \<le> length (dials t)"
    and "Suc d < length (dials s) \<Longrightarrow> dial_conn (dials t ! d) = dial_conn (dials s ! d)"
proof -
  have "(conns (base s) \<noteq> [] \<longrightarrow> conns (base t) \<noteq> []) \<and> length (dials s) \<le> length (dials t) \<and>
      (Suc d < length (dials s) \<longrightarrow> dial_conn (dials t ! d) = dial_conn (dials s ! d))"
    using assms
  proof (cases rule: rpc_cases)
    case attaches
    then show ?thesis by (cases rule: attach_rpc_cases) (auto simp: nth_append)
  next
    case (other oe)
    from other(2) show ?thesis
    proof (cases rule: other_rpc_cases)
      case (1 b)
      have "conns b = [] \<longleftrightarrow> conns (base s) = []" using egress_grows(1) [OF 1(1)] 1(2) by (auto simp flip: length_0_conv)
      then show ?thesis using 1(3) by simp
    qed
  next
    case calls
    then obtain cs where "t = s\<lparr>calls := cs\<rparr>" using call_step_keeps by blast
    then show ?thesis by simp
  qed simp_all
  then show "conns (base s) \<noteq> [] \<Longrightarrow> conns (base t) \<noteq> []" "length (dials s) \<le> length (dials t)"
    "Suc d < length (dials s) \<Longrightarrow> dial_conn (dials t ! d) = dial_conn (dials s ! d)" by blast+
qed

lemma call_ok_step:
  assumes "rpc_next gen s e = Some t" and "call_ok s c"
  shows "call_ok t c"
  using assms(2) rpc_grows(1,2) [OF assms(1)] rpc_grows(3) [OF assms(1)] by (fastforce simp: call_ok_def)

text \<open>A call that starts or goes on stays in order.\<close>

lemma spawned_ok:
  assumes "egress_next (base s) oe = Some b" and "c \<in> set (spawned (base s) oe)"
  shows "call_ok s c"
  using assms by (auto simp: spawned_def call_ok_def split: egress_event.splits watch_pc.splits EnvoyInstruction.splits if_splits)

lemma call_step_ok:
  assumes "call_step e s = Some t" and "fields_inv s" and "ended_inv s" and "calls_inv s"
    and "\<And>n. call_of e = Some n \<Longrightarrow> n < length (calls s)" and "c \<in> set (calls t)"
  shows "call_ok s c"
proof (cases "c \<in> set (calls s)")
  case True then show ?thesis using assms(4) by (simp add: calls_inv_def)
next
  case False
  have old: "call_ok s (calls s ! n)" if "call_of e = Some n" for n
    using assms(4,5) that by (simp add: calls_inv_def)
  have new: "c = c'" if "calls t = (calls s)[n := c']" for n c'
    using assms(6) that False set_update_subset_insert [of "calls s" n c'] by auto
  show ?thesis
  proof (cases e)
    case (Posts p)
    then show ?thesis using assms(1,6) False by (auto simp: call_ok_def split: post.splits)
  next
    case (Checks n)
    then show ?thesis
      using assms(1,2) new [of n] by (auto simp: call_ok_def fields_inv_def set_pc_def split: if_splits)
  next
    case (Gets n results)
    then show ?thesis
      using assms(1) old [of n] new [of n] by (auto simp: call_ok_def set_pc_def call_of_def split: if_splits option.splits)
  next
    case (TakesContext n)
    then show ?thesis
      using assms(1,2) old [of n] new [of n]
      by (auto simp: call_ok_def fields_inv_def set_pc_def call_of_def split: if_splits option.splits)
  next
    case (Calls n failure)
    then obtain d where d: "call_pc (calls s ! n) = CClient d" "d < length (dials s)"
      using assms(1) old [of n] by (auto simp: call_ok_def call_of_def split: call_pc.splits)
    let ?last = "length (dials s) - 1"
    have "client s = Some ?last" using assms(2) d(2) by (auto simp: fields_inv_def)
    then have c: "call_pc c = CMade d ?last (dial_closed (dials s ! ?last)) (dial_done s d) failure"
      using assms(1) Calls d(1) new [of n] by (auto simp: set_pc_def)
    have "dial_conn (dials s ! d) = None" if "d < ?last" "\<not> dial_done s d"
      using assms(3) that d(2) by (auto simp: ended_inv_def dial_done_def split: option.splits)
    then show ?thesis using c d(2) by (auto simp: call_ok_def)
  qed (use assms(1) in simp_all)
qed

lemma calls_inv_reachable: "rpc_reachable gen s \<Longrightarrow> calls_inv s"
proof (erule rpcs.invariant_rule)
  fix s assume "\<exists>b. s = started_rpc b" then show "calls_inv s" by (auto simp: calls_inv_def started_rpc_def)
next
  fix s e t assume r: "rpc_reachable gen s" and i: "calls_inv s" and n: "rpc_next gen s e = Some t"
  have "call_ok s c" if c: "c \<in> set (calls t)" for c
    using n
  proof (cases rule: rpc_cases)
    case attaches
    then have "calls t = calls s" by (cases rule: attach_rpc_cases) simp_all
    then show ?thesis using i c by (simp add: calls_inv_def)
  next
    case (other oe)
    from other(2) show ?thesis
      using i c spawned_ok by (cases rule: other_rpc_cases) (auto simp: calls_inv_def)
  next
    case calls
    then show ?thesis
      using call_step_ok [OF calls(1) fields_inv_reachable [OF r] ended_inv_reachable [OF r] i calls(2) c] by blast
  qed (use i c in \<open>simp_all add: calls_inv_def\<close>)
  then show "calls_inv t" using call_ok_step [OF n] by (simp add: calls_inv_def)
qed

text \<open>Every dial has an id of its own.\<close>

definition ids_inv :: "(nat \<Rightarrow> string) \<Rightarrow> egress_rpc \<Rightarrow> bool" where
  "ids_inv gen s \<longleftrightarrow>
     distinct (map dial_id (dials s)) \<and>
     (if loop (base s) = Dialing \<and> stage s = AtDial
      then 0 < generated s \<and> envoyId s = gen (generated s - 1) \<and>
        set (map dial_id (dials s)) \<subseteq> gen ` {..<generated s - 1}
      else set (map dial_id (dials s)) \<subseteq> gen ` {..<generated s})"

lemma fewer_ids: "A \<subseteq> gen ` {..<m :: nat} \<Longrightarrow> m \<le> n \<Longrightarrow> A \<subseteq> gen ` {..<n}"
  by (meson image_mono lessThan_subset_iff order_trans)

lemma new_id: "inj gen \<Longrightarrow> A \<subseteq> gen ` {..<n :: nat} \<Longrightarrow> gen n \<notin> A"
  by (auto dest: injD)

lemma ids_weaken:
  assumes "ids_inv gen s"
  shows "set (map dial_id (dials s)) \<subseteq> gen ` {..<generated s}"
proof -
  have "set (map dial_id (dials s)) \<subseteq> gen ` {..<generated s - 1} \<or> set (map dial_id (dials s)) \<subseteq> gen ` {..<generated s}"
    using assms by (auto simp: ids_inv_def split: if_splits)
  then show ?thesis using fewer_ids [of _ gen "generated s - 1" "generated s"] by auto
qed

lemma ids_inv_reachable: "rpc_reachable gen s \<Longrightarrow> inj gen \<Longrightarrow> ids_inv gen s"
proof (erule rpcs.invariant_rule)
  fix s assume "\<exists>b. s = started_rpc b" then show "ids_inv gen s" by (auto simp: ids_inv_def started_rpc_def started_egress_def)
next
  fix s e t assume g: "inj gen" and i: "ids_inv gen s" and n: "rpc_next gen s e = Some t"
  note less = ids_weaken [OF i]
  have d: "distinct (map dial_id (dials s))" using i by (simp add: ids_inv_def)
  from n show "ids_inv gen t"
  proof (cases rule: rpc_cases)
    case generates
    then show ?thesis using d less fewer_ids [OF less, of "Suc (generated s)"] by (simp add: ids_inv_def)
  next
    case opens
    then show ?thesis using d less by (simp add: ids_inv_def)
  next
    case attaches
    then show ?thesis
    proof (cases rule: attach_rpc_cases)
      case dial_succeeds
      then have a: "0 < generated s" "envoyId s = gen (generated s - 1)"
        "set (map dial_id (dials s)) \<subseteq> gen ` {..<generated s - 1}"
        using i by (simp_all add: ids_inv_def)
      have "envoyId s \<notin> set (map dial_id (dials s))" using new_id [OF g a(3)] a(2) by simp
      then show ?thesis using d less a(1,2) dial_succeeds by (simp add: ids_inv_def)
    qed (use d less in \<open>simp_all add: ids_inv_def flip: set_map\<close>)
  next
    case (other oe)
    from other(2) show ?thesis
    proof (cases rule: other_rpc_cases)
      case (1 b)
      have same: "map dial_id (dials t) = map dial_id (dials s)" using 1(3) by simp
      have "loop b = Dialing \<Longrightarrow> loop (base s) = Dialing" using egress_grows(4) [OF 1(1)] 1(2) by blast
      then show ?thesis using i d less 1(3) unfolding ids_inv_def same by (auto simp del: set_map)
    qed
  next
    case calls
    then obtain cs where "t = s\<lparr>calls := cs\<rparr>" using call_step_keeps by blast
    then show ?thesis using i by (auto simp: ids_inv_def split: if_splits)
  qed
qed

section \<open>Guarantees\<close>

text \<open>What gRPC documents: a call on a closed client connection fails, and so does a call with a
  context that is done.\<close>

definition refused_when_over :: "egress_rpc \<Rightarrow> bool" where
  "refused_when_over s \<longleftrightarrow>
     list_all (\<lambda>c. case call_pc c of CMade d d' closed over None \<Rightarrow> \<not> closed \<and> \<not> over | _ \<Rightarrow> True) (calls s)"

text \<open>The dial that a successful call's context, with the id in its headers, is of, and the one its
  client is of.\<close>

definition delivered :: "rpc_call \<Rightarrow> (nat \<times> nat) option" where
  "delivered c = (case call_pc c of CMade d d' closed over None \<Rightarrow> Some (d, d') | _ \<Rightarrow> None)"

text \<open>
  C32 Whatever is posted while connections come and go, the fields the goroutines share do no harm:
  no goroutine ever finds a nil context or client, and a call that gets through never carries the
  id of another attachment than the one it is made on, although it reads the context and the client
  one after the other: the id is that of this attachment, or of none that ever was.
\<close>

theorem calls_on_their_attachment:
  assumes "rpc_reachable gen s" and "inj gen" and "refused_when_over s" and "c \<in> set (calls s)"
  shows "call_pc c \<noteq> CPanicked \<and>
    (\<forall>d d'. delivered c = Some (d, d') \<longrightarrow> d \<le> d' \<and> d' < length (dials s) \<and>
       (\<forall>a < length (dials s). dial_conn (dials s ! a) \<noteq> None \<and> dial_id (dials s ! a) = dial_id (dials s ! d) \<longrightarrow> a = d'))"
proof (intro conjI allI impI)
  have ok: "call_ok s c" using calls_inv_reachable [OF assms(1)] assms(4) by (simp add: calls_inv_def)
  then show "call_pc c \<noteq> CPanicked" by (simp add: call_ok_def)
  fix d d' assume g: "delivered c = Some (d, d')"
  then obtain closed over where c: "call_pc c = CMade d d' closed over None"
    by (auto simp: delivered_def split: call_pc.splits option.splits)
  then have "\<not> over" using assms(3,4) by (auto simp: refused_when_over_def list_all_iff)
  have le: "d \<le> d'" "d' < length (dials s)" using ok c by (auto simp: call_ok_def)
  show "d \<le> d'" using le(1) .
  show "d' < length (dials s)" using le(2) .
  fix a assume a: "a < length (dials s)"
    and same: "dial_conn (dials s ! a) \<noteq> None \<and> dial_id (dials s ! a) = dial_id (dials s ! d)"
  have "distinct (map dial_id (dials s))" using ids_inv_reachable [OF assms(1,2)] by (simp add: ids_inv_def)
  then have "a = d" using a le same nth_eq_iff_index_eq [of "map dial_id (dials s)" a d] by simp
  then show "a = d'" using ok c \<open>\<not> over\<close> same le by (auto simp: call_ok_def)
qed

definition nth_id :: "nat \<Rightarrow> string" where
  "nth_id n = show_nat n"

definition a_log_event :: post where
  "a_log_event = LogEventPosted \<lparr>log_agentType = FILEBEAT, log_jsonContent = ''{}''\<rparr>"

definition rpc_up :: "rpc_event list" where
  "rpc_up = [Opens, DialSucceeds, SetsContext, AttachEnvoyReturns None] @ map Other (replicate 4 (Watch 0 (Inr Ready)))"

text \<open>The connection fails at \<^verbatim>\<open>Recv\<close>; an attempt to attach follows that fails, and another.\<close>

definition rpc_lost :: "rpc_event list" where
  "rpc_lost =
     map Other [Watch 0 (Inl io_error), Watch 0 (Inl io_error), Loop TakesError, Loop Notifies, Loop Cancels, Loop TakesDone] @
     [Opens, DialSucceeds, SetsContext]"

lemmas rpc_run_defs =
  rpc_up_def rpc_lost_def a_log_event_def started_rpc_def egress_run_defs rpc_next_def attach_opens_def
  other_rpc_def call_of_def set_pc_def close_last_def attach_last_def dial_done_def spawned_def answered_def
  refused_when_over_def delivered_def

text \<open>
  The test of \<^verbatim>\<open>c.attached\<close> does not cover the call: what has passed it on one connection may be
  sent on the next one, before that is attached, under the id of an attempt to attach that failed.
\<close>

lemma sent_without_attachment:
  "\<exists>s. rpc_run nth_id (started_rpc True)
      (rpc_up @ [Posts a_log_event, Checks 0] @ rpc_lost @
       [TakesContext 0, AttachEnvoyReturns (Some io_error), Opens, DialSucceeds, Calls 0 None]) = Some s \<and>
     delivered (calls s ! 0) = Some (1, 2) \<and> refused_when_over s \<and> length (calls s) = 1 \<and> length (dials s) = 3 \<and>
     map dial_conn (dials s) = [Some 0, None, None]"
  by (simp add: rpc_run_defs numeral_eq_Suc)

lemma inj_nth_id: "inj nth_id"
  by (simp add: inj_def nth_id_def show_nat_inj)

definition rpc_post :: "rpc_event list" where
  "rpc_post = rpc_up @ [Posts a_log_event, Checks 0, TakesContext 0, Calls 0 None]"

lemma rpc_post_run:
  "\<exists>s c. rpc_run nth_id (started_rpc True) rpc_post = Some s \<and> calls s = [c] \<and> delivered c = Some (0, 0) \<and>
     refused_when_over s \<and> map dial_conn (dials s) = [Some 0]"
  by (simp add: rpc_post_def rpc_run_defs numeral_eq_Suc)

lemma calls_on_their_attachment_witness:
  "\<exists>s c. rpc_run nth_id (started_rpc True) rpc_post = Some s \<and> c \<in> set (calls s) \<and> delivered c = Some (0, 0) \<and>
     call_pc c \<noteq> CPanicked \<and>
     (\<forall>a < length (dials s). dial_conn (dials s ! a) \<noteq> None \<and> dial_id (dials s ! a) = dial_id (dials s ! 0) \<longrightarrow> a = 0)"
proof -
  obtain s c where s: "rpc_run nth_id (started_rpc True) rpc_post = Some s" "calls s = [c]" "delivered c = Some (0, 0)"
    "refused_when_over s" using rpc_post_run by blast
  have c: "c \<in> set (calls s)" using s(2) by simp
  have r: "rpc_reachable nth_id s" using rpc_run_reachable [OF s(1) rpc_reachable.start] .
  show ?thesis using calls_on_their_attachment [OF r inj_nth_id s(4) c] s(1,3) c by blast
qed

text \<open>An undisturbed call is made as \<open>PostLogEvent\<close> and \<open>PostMetric\<close> of \<open>Egress_Setup\<close> say: when
  the Envoy is attached, and on the connection it is attached by.\<close>

lemma undisturbed_post:
  assumes "rpc_reachable gen s" and "\<forall>r. p \<noteq> ResultsPosted r"
  shows "if attached (base s)
    then \<exists>d t. rpc_run gen s [Posts p, Checks (length (calls s)), TakesContext (length (calls s)), Calls (length (calls s)) None] = Some t \<and>
           (\<exists>closed over. calls t = calls s @ [\<lparr>purpose = Posting p, call_pc = CMade d (length (dials s) - 1) closed over None\<rparr>]) \<and>
           outgoingContext s = Some d
    else \<exists>t. rpc_run gen s [Posts p, Checks (length (calls s))] = Some t \<and>
           calls t = calls s @ [\<lparr>purpose = Posting p, call_pc = CDropped\<rparr>]"
  using fields_inv_reachable [OF assms(1)] assms(2)
  by (cases p) (auto simp: fields_inv_def rpc_next_def call_of_def set_pc_def nth_append list_update_append split: if_splits)

end
