(* ===== verification/Envoy_Cli.thy ===== *)
theory Envoy_Cli
  imports Envoy_Commands
begin

text \<open>
  The command line (package \<^verbatim>\<open>cmd\<close>): the settings with their defaults and flags
  (\<^verbatim>\<open>config/config_keys.go\<close> and the \<^verbatim>\<open>init\<close> functions), reading the configuration
  (\<^verbatim>\<open>root.go\<close>), the loop that waits for an interrupt (\<^verbatim>\<open>common.go\<close>), \<^verbatim>\<open>check-tls\<close>, \<^verbatim>\<open>version\<close> and
  the loops of \<^verbatim>\<open>stress-connections\<close>. The configuration library \<^verbatim>\<open>viper\<close> is represented by what the
  program asks of it.
\<close>

section \<open>Settings\<close>

datatype setting = TextSetting string | TimeSetting duration | IntSetting int64 | BoolSetting bool

definition time_Second :: int64 where "time_Second = 1000000000"

definition DefaultAgentsDataPath :: string where "DefaultAgentsDataPath = ''/var/lib/telemetry-envoy''"

text \<open>\<^verbatim>\<open>viper.SetDefault\<close>.\<close>

definition agents_defaults :: "(string \<times> setting) list" where
  "agents_defaults =
     [(''agents.dataPath'', TextSetting DefaultAgentsDataPath),
      (''agents.testMonitorTimeout'', TimeSetting (30 * time_Second)),
      (''agents.defaultMonitoringInterval'', TimeSetting (60 * time_Second)),
      (''agents.maxFlushInterval'', TimeSetting (60 * time_Second))]"

definition handler_defaults :: "(string \<times> setting) list" where
  "handler_defaults =
     [(''agents.terminationTimeout'', TimeSetting (5 * time_Second)), (''agents.restartDelay'', TimeSetting (1 * time_Second))]"

definition egress_defaults :: "(string \<times> setting) list" where
  "egress_defaults =
     [(''ambassador.address'', TextSetting ''localhost:6565''), (''grpc.callLimit'', TimeSetting (30 * time_Second)),
      (''ambassador.keepAliveInterval'', TimeSetting (45 * time_Second))]"

definition ingest_defaults :: "(string \<times> setting) list" where
  "ingest_defaults =
     [(''ingest.lumberjack.bind'', TextSetting []), (''ingest.telegraf.json.bind'', TextSetting ''localhost:8094''),
      (''ingest.lineProtocol.bind'', TextSetting [])]"

definition defaults :: "(string \<times> setting) list" where
  "defaults = agents_defaults @ handler_defaults @ egress_defaults @ ingest_defaults"

text \<open>Flags with the keys they are bound to.\<close>

record flag =
  flag_name :: string
  flag_default :: setting
  flag_key :: string

definition text_flag :: "string \<Rightarrow> string \<Rightarrow> flag" where
  "text_flag name key = \<lparr>flag_name = name, flag_default = TextSetting [], flag_key = key\<rparr>"

definition root_flags :: "flag list" where
  "root_flags =
     [text_flag ''resource-id'' ''resource_id'', text_flag ''zone'' ''zone'', text_flag ''auth-token'' ''auth_token'',
      \<lparr>flag_name = ''data-path'', flag_default = TextSetting DefaultAgentsDataPath, flag_key = ''agents.dataPath''\<rparr>]"

definition run_flags :: "flag list" where
  "run_flags = [text_flag ''ca'' ''tls.ca'', text_flag ''cert'' ''tls.cert'', text_flag ''key'' ''tls.key'']"

definition check_tls_flags :: "flag list" where
  "check_tls_flags = [text_flag ''ambassador'' ''ambassador.address'']"

definition detached_flags :: "flag list" where
  "detached_flags = [text_flag ''instructions'' ''detached.instructions'']"

definition stress_flags :: "flag list" where
  "stress_flags =
     [\<lparr>flag_name = ''connection-count'', flag_default = IntSetting 5, flag_key = ''stress.connection-count''\<rparr>,
      \<lparr>flag_name = ''connections-delay'', flag_default = TimeSetting 0, flag_key = ''stress.connections-delay''\<rparr>,
      \<lparr>flag_name = ''metrics-per-minute'', flag_default = IntSetting 20, flag_key = ''stress.metrics-per-minute''\<rparr>,
      \<lparr>flag_name = ''stagger-metrics'', flag_default = BoolSetting True, flag_key = ''stress.stagger-metrics''\<rparr>,
      \<lparr>flag_name = ''resource-prefix'', flag_default = TextSetting ''resource'', flag_key = ''stress.resource-prefix''\<rparr>,
      \<lparr>flag_name = ''quiet'', flag_default = BoolSetting True, flag_key = ''stress.quiet''\<rparr>]"

text \<open>The keys whose values the program asks for, in all of its packages; \<^verbatim>\<open>tls\<close> is decoded as a
  whole, into \<^verbatim>\<open>disabled\<close>, \<^verbatim>\<open>provided\<close> and \<^verbatim>\<open>auth_service\<close>.\<close>

definition keys_read :: "string list" where
  "keys_read =
     [''agents.dataPath'', ''agents.terminationTimeout'', ''agents.restartDelay'', ''agents.testMonitorTimeout'',
      ''agents.defaultMonitoringInterval'', ''agents.maxFlushInterval'', ''ambassador.address'', ''ambassador.keepAliveInterval'',
      ''grpc.callLimit'', ''resource_id'', ''zone'', ''labels'', ''auth_token'', ''tls.disabled'', ''tls.provided'',
      ''tls.auth_service'', ''ingest.lumberjack.bind'', ''ingest.telegraf.json.bind'', ''ingest.lineProtocol.bind'',
      ''perfTest.port'', ''perfTest.metricsPerMinute'', ''perfTest.floatsPerMetric'', ''detached.instructions'',
      ''stress.connection-count'', ''stress.connections-delay'', ''stress.metrics-per-minute'', ''stress.stagger-metrics'',
      ''stress.resource-prefix'', ''stress.quiet'']"

text \<open>Everything with a default is read, and a default that a flag has too is the same; but the flags
  \<^verbatim>\<open>--ca\<close>, \<^verbatim>\<open>--cert\<close> and \<^verbatim>\<open>--key\<close> of \<^verbatim>\<open>run\<close> are bound to keys that nothing reads.\<close>

definition all_flags :: "flag list" where
  "all_flags = root_flags @ run_flags @ check_tls_flags @ detached_flags @ stress_flags"

lemma settings_used:
  "list_all (\<lambda>d. fst d \<in> set keys_read) defaults"
  "filter (\<lambda>f. flag_key f \<notin> set keys_read) all_flags = run_flags"
  "list_all (\<lambda>f. case map_of defaults (flag_key f) of None \<Rightarrow> True | Some d \<Rightarrow> d = flag_default f) root_flags"
  by code_simp+

section \<open>Reading the configuration\<close>

datatype log_level = InfoLevel | DebugLevel

record viper_setup =
  config_file :: "string option"
  config_name :: string
  config_paths :: "string list"
  env_prefix :: string
  env_replace :: "(char \<times> char) list"

definition config_search :: "string \<Rightarrow> viper_setup" where
  "config_search cfgFile =
     \<lparr>config_file = (if cfgFile \<noteq> [] then Some cfgFile else None),
      config_name = (if cfgFile \<noteq> [] then [] else ''telemetry-envoy''),
      config_paths = (if cfgFile \<noteq> [] then [] else [''/etc/salus'', ''$HOME/.salus'', ''.'']),
      env_prefix = ''ENVOY'', env_replace = [(CHR ''.'', CHR ''_''), (CHR ''-'', CHR ''_'')]\<rparr>"

text \<open>\<open>read\<close> is \<^verbatim>\<open>viper.ReadInConfig\<close>.\<close>

definition initConfig :: "(viper_setup \<Rightarrow> go_error option) \<Rightarrow> bool \<Rightarrow> string \<Rightarrow> (log_level \<times> viper_setup) launch" where
  "initConfig read debug cfgFile =
     (let setup = config_search cfgFile; level = (if debug then DebugLevel else InfoLevel) in
      case read setup of
        None \<Rightarrow> Running (level, setup)
      | Some err \<Rightarrow> if cfgFile \<noteq> [] then Fatal err else Running (level, setup))"

text \<open>\<^verbatim>\<open>strings.NewReplacer\<close> for single characters, and the variable of the environment that
  \<^verbatim>\<open>AutomaticEnv\<close> reads for a key.\<close>

definition Replacer_Replace :: "(char \<times> char) list \<Rightarrow> string \<Rightarrow> string" where
  "Replacer_Replace reps s = map (\<lambda>c. case map_of reps c of None \<Rightarrow> c | Some d \<Rightarrow> d) s"

definition upper_char :: "char \<Rightarrow> char" where
  "upper_char c = (let n = (of_char c :: nat) in if 97 \<le> n \<and> n \<le> 122 then char_of (n - 32) else c)"

definition env_variable :: "viper_setup \<Rightarrow> string \<Rightarrow> string" where
  "env_variable setup key = Replacer_Replace (env_replace setup) (map upper_char (env_prefix setup @ ''_'' @ key))"

text \<open>The variables the manual gives are the ones read, but for the data directory.\<close>

lemma env_variables:
  "env_variable (config_search []) ''resource_id'' = ''ENVOY_RESOURCE_ID''"
  "env_variable (config_search []) ''zone'' = ''ENVOY_ZONE''"
  "env_variable (config_search []) ''auth_token'' = ''ENVOY_AUTH_TOKEN''"
  "env_variable (config_search []) ''agents.dataPath'' = ''ENVOY_AGENTS_DATAPATH''"
  by code_simp+

lemma initConfig_fatal:
  "initConfig read debug cfgFile = Fatal err \<longleftrightarrow> cfgFile \<noteq> [] \<and> read (config_search cfgFile) = Some err"
  by (auto simp: initConfig_def Let_def split: option.splits)

section \<open>Small commands\<close>

record VersionInfo =
  vi_Version :: string
  vi_Commit :: string
  vi_Date :: string

definition main_version :: VersionInfo where
  "main_version = \<lparr>vi_Version = ''dev'', vi_Commit = ''none'', vi_Date = ''unknown''\<rparr>"

definition versionCmd :: "VersionInfo \<Rightarrow> string" where
  "versionCmd v = vi_Version v @ '', commit '' @ vi_Commit v @ '', built at '' @ vi_Date v @ newline"

text \<open>The status \<^verbatim>\<open>Execute\<close> ends the program with, if it does, and what it prints; the argument is the
  result of the command.\<close>

definition Execute :: "go_error option \<Rightarrow> (nat \<times> string) option" where
  "Execute result = map_option (\<lambda>err. (1, Error err @ newline)) result"

definition checkTlsCmd ::
  "auth_env \<Rightarrow> (certificate \<Rightarrow> cert_pool \<Rightarrow> string \<Rightarrow> go_error option) \<Rightarrow> string \<Rightarrow> unit launch" where
  "checkTlsCmd env tls_Dial ambassadorAddress =
     (case LoadCertificates env of
        Inl err \<Rightarrow> Fatal err
      | Inr (certificate, certPool) \<Rightarrow>
          (case tls_Dial certificate certPool ambassadorAddress of
             Some err \<Rightarrow> Fatal err
           | None \<Rightarrow> Running ()))"

text \<open>\<^verbatim>\<open>check-tls\<close> succeeds with exactly the certificates a connection would be made with.\<close>

lemma checkTls_dials_like_run:
  "checkTlsCmd env tls_Dial address = Running () \<longleftrightarrow>
     (\<exists>certificate pool.
        loadTlsDialOption env False = Inr (WithTransportCredentials certificate pool) \<and>
        tls_Dial certificate pool address = None)"
  by (auto simp: checkTlsCmd_def loadTlsDialOption_def split: sum.splits option.splits)

section \<open>Waiting for an interrupt\<close>

text \<open>\<^verbatim>\<open>handleInterrupts\<close> after its body: the channel of signals holds one, further ones are dropped.\<close>

record interrupts =
  signalChan :: nat
  cancelled :: bool
  exited :: bool

datatype interrupt_event = SignalArrives | TakesSignal | TakesDone

definition interrupt_step :: "interrupt_event \<Rightarrow> interrupts \<Rightarrow> interrupts option" where
  "interrupt_step e s =
     (case e of
        SignalArrives \<Rightarrow> Some (s\<lparr>signalChan := 1\<rparr>)
      | TakesSignal \<Rightarrow>
          if exited s \<or> signalChan s = 0 then None else Some (s\<lparr>signalChan := signalChan s - 1, cancelled := True\<rparr>)
      | TakesDone \<Rightarrow> if exited s \<or> \<not> cancelled s then None else Some (s\<lparr>exited := True\<rparr>))"

fun interrupt_run :: "interrupts \<Rightarrow> interrupt_event list \<Rightarrow> interrupts option" where
  "interrupt_run s [] = Some s"
| "interrupt_run s (e # es) = (case interrupt_step e s of None \<Rightarrow> None | Some t \<Rightarrow> interrupt_run t es)"

definition uninterrupted :: interrupts where
  "uninterrupted = \<lparr>signalChan = 0, cancelled = False, exited = False\<rparr>"

lemma interrupt_step_cases:
  assumes "interrupt_step e s = Some t"
  obtains "e = SignalArrives" "t = s\<lparr>signalChan := 1\<rparr>"
  | "e = TakesSignal" "\<not> exited s" "0 < signalChan s" "t = s\<lparr>signalChan := signalChan s - 1, cancelled := True\<rparr>"
  | "e = TakesDone" "\<not> exited s" "cancelled s" "t = s\<lparr>exited := True\<rparr>"
  using assms by (cases e) (auto simp: interrupt_step_def split: if_splits)

lemma interrupt_run_signals:
  "interrupt_run s es = Some t \<Longrightarrow> signalChan s \<le> 1 \<Longrightarrow>
     signalChan t + count_list es TakesSignal \<le> signalChan s + count_list es SignalArrives"
  by (induction es arbitrary: s) (fastforce split: option.splits elim!: interrupt_step_cases)+

lemma interrupt_run_cancelled:
  "interrupt_run s es = Some t \<Longrightarrow> cancelled t \<longleftrightarrow> cancelled s \<or> TakesSignal \<in> set es"
  by (induction es arbitrary: s) (auto split: option.splits elim!: interrupt_step_cases)

lemma interrupt_run_exited:
  "interrupt_run s es = Some t \<Longrightarrow> (exited s \<longrightarrow> cancelled s) \<Longrightarrow> exited t \<longrightarrow> cancelled t"
  by (induction es arbitrary: s) (auto split: option.splits elim!: interrupt_step_cases)

lemma interrupt_run_pending:
  "interrupt_run s es = Some t \<Longrightarrow> SignalArrives \<in> set es \<or> 0 < signalChan s \<Longrightarrow> 0 < signalChan t \<or> TakesSignal \<in> set es"
  by (induction es arbitrary: s) (fastforce split: option.splits elim!: interrupt_step_cases)+

text \<open>The program ends only after a signal, and after one the loop always goes on until it ends the
  program: it takes at most as many steps as there were signals, and one more.\<close>

lemma interrupt_ends_program:
  assumes "interrupt_run uninterrupted es = Some t"
  shows "exited t \<Longrightarrow> SignalArrives \<in> set es"
    and "SignalArrives \<in> set es \<Longrightarrow> \<not> exited t \<Longrightarrow>
      (\<exists>e u. e \<noteq> SignalArrives \<and> interrupt_step e t = Some u)"
    and "count_list es TakesSignal \<le> count_list es SignalArrives"
proof -
  show c: "count_list es TakesSignal \<le> count_list es SignalArrives" using interrupt_run_signals [OF assms] by (simp add: uninterrupted_def)
  show "SignalArrives \<in> set es" if "exited t"
  proof -
    have "TakesSignal \<in> set es" using interrupt_run_exited [OF assms] interrupt_run_cancelled [OF assms] that by (auto simp: uninterrupted_def)
    then show ?thesis using c by (metis count_list_0_iff le_zero_eq)
  qed
  show "\<exists>e u. e \<noteq> SignalArrives \<and> interrupt_step e t = Some u" if "SignalArrives \<in> set es" "\<not> exited t"
  proof (cases "cancelled t")
    case True
    then show ?thesis using that(2) by (intro exI [of _ TakesDone]) (simp add: interrupt_step_def)
  next
    case False
    then show ?thesis
      using that interrupt_run_pending [OF assms] interrupt_run_cancelled [OF assms]
      by (intro exI [of _ TakesSignal]) (auto simp: interrupt_step_def uninterrupted_def)
  qed
qed

section \<open>The loops of the load generator\<close>

text \<open>The ticks a connection's goroutine sees until its context is done, which is \<open>None\<close>; \<open>drawn\<close> is
  what \<^verbatim>\<open>rand\<close> gives for each.\<close>

fun sendMetrics_loop :: "string \<Rightarrow> string \<Rightarrow> (int64 \<times> float64) option list \<Rightarrow> NameTagValueMetric list" where
  "sendMetrics_loop resource_Id monitorId [] = []"
| "sendMetrics_loop resource_Id monitorId (None # _) = []"
| "sendMetrics_loop resource_Id monitorId (Some (unix_seconds, drawn) # ts) =
     sendMetric unix_seconds drawn resource_Id monitorId # sendMetrics_loop resource_Id monitorId ts"

definition sendMetrics ::
  "bool \<Rightarrow> (duration \<Rightarrow> duration) \<Rightarrow> int64 \<Rightarrow> string \<Rightarrow> string \<Rightarrow> (int64 \<times> float64) option list \<Rightarrow>
   NameTagValueMetric list option" where
  "sendMetrics stagger random rate resource_Id monitorId ts =
     (case sendMetrics_start stagger random rate of
        None \<Rightarrow> None
      | Some _ \<Rightarrow> Some (sendMetrics_loop resource_Id monitorId ts))"

text \<open>The router of the generated connections: instructions have no effect.\<close>

definition mock_ProcessInstall :: "EnvoyInstructionInstall \<Rightarrow> world \<Rightarrow> world" where
  "mock_ProcessInstall install w = w"

definition mock_ProcessConfigure :: "EnvoyInstructionConfigure \<Rightarrow> world \<Rightarrow> world" where
  "mock_ProcessConfigure configure w = w"

text \<open>A connection of the load generator crashes the program exactly for rates that give no
  positive interval; otherwise it sends one metric for each tick, under its own resource.\<close>

lemma sendMetrics_panics:
  "sendMetrics stagger random rate resource_Id monitorId ts = None \<longleftrightarrow> sint rate \<le> 0 \<or> 60000000000 < sint rate"
proof -
  have "sendMetrics_start stagger random rate = None \<longleftrightarrow> rate_ticker rate = None"
    by (auto simp: sendMetrics_start_def stress_interval_def rate_ticker_def NewTicker_def split: if_splits)
  then show ?thesis using rate_ticker_None [of rate] by (auto simp: sendMetrics_def split: option.splits)
qed

lemma sendMetrics_loop_sends:
  "map (\<lambda>m. mt_tags m ''simulating_resource'') (sendMetrics_loop resource_Id monitorId ts) =
     replicate (length (takeWhile (\<lambda>t. t \<noteq> None) ts)) (Some resource_Id)"
  by (induction resource_Id monitorId ts rule: sendMetrics_loop.induct) (simp_all add: sendMetric_def)

end
