(* ===== verification/Spec2Isabelle.thy ===== *)
theory Spec2Isabelle
  imports Stop_Protocol Ensure_Race Test_Monitor Capabilities Ingest_Pipeline Telegraf_System Files_System Egress_Posts Envoy_Cli
begin

text \<open>
  The Telemetry Envoy (\<^verbatim>\<open>salus-telemetry-envoy\<close>): a program that runs on a monitored host, attaches
  to an Ambassador, installs, configures, starts and stops the agents it is told to, and passes on
  what they report.

  \<^bigskip>
  \<^bold>\<open>Parts and how they interact.\<close> The egress connection (\<^verbatim>\<open>ambassador\<close>) receives instructions and
  hands them to the agents router (\<^verbatim>\<open>agents\<close>), which keeps one runner per agent type: telegraf,
  filebeat, oracle, packages. A runner keeps configurations, prepares the agent's files and asks
  the command handler to start, signal, stop and restart the agent's process. Agents send metrics
  and logs to the ingestors (\<^verbatim>\<open>ingest\<close>, with the parser in \<^verbatim>\<open>lineproto\<close>), whose bound addresses
  are registered in \<^verbatim>\<open>config\<close> and read by the runners; the ingestors post on the egress
  connection. When a connection is lost, the connection tells the router, which stops all agents
  and forgets all configurations. \<^verbatim>\<open>auth\<close> provides the certificates of a connection, \<^verbatim>\<open>cmd\<close> puts
  an Envoy together.

  \<^bigskip>
  \<^bold>\<open>Foundations.\<close>
  \<^item> \<open>Envoy_Prelude\<close>: Go errors, results, the transition systems the concurrent parts are
    instances of (a locale whose invariant rules they all use).
  \<^item> \<open>Go_Strings\<close>, \<open>Go_Duration\<close>, \<open>Go_Files\<close>, \<open>Go_Json\<close>, \<open>Go_Struct\<close>, \<open>Go_Url\<close>: what the program
    uses of Go's standard library: text functions, 64-bit durations that wrap around, a file system
    with directories, links and injected faults, JSON decoding into maps and into structures,
    parsing, resolving and printing of URLs.
  \<^item> \<open>Telemetry\<close>: the messages exchanged with an Ambassador.

  \<^bold>\<open>Agents\<close> (package \<^verbatim>\<open>agents\<close>).
  \<^item> \<open>Agent_Files\<close>: \<^verbatim>\<open>agents.go\<close>: extraction of archives, content operations, readiness, purging.
  \<^item> \<open>Converters\<close>: \<^verbatim>\<open>converters.go\<close>: monitor configurations from JSON to telegraf's format; what
    every setting becomes, and when the random order of Go's maps matters.
  \<^item> \<open>Config_Store\<close>: the contract of a store of configurations, as a locale; each runner's store
    is an interpretation of it, and the claims on configure instructions rest on that.
  \<^item> \<open>Command_Output\<close>: the goroutines that read an agent's output and the select that waits for the
    phrase that shows it is up, as steps in any order.
  \<^item> \<open>Command_Handler\<close>: \<^verbatim>\<open>command_handler.go\<close>: contexts in a store indexed by number, processes,
    waiting, restarts, with its contract as a locale. Each operation runs to completion.
  \<^item> \<open>Stop_Protocol\<close>: the same \<^verbatim>\<open>Stop\<close> and \<^verbatim>\<open>WaitOnAgentCommand\<close> step by step, any number of
    goroutines interleaved: signals, restarts, absence of deadlock, and the panic that is possible.
  \<^item> \<open>Ensure_Race\<close>: \<^verbatim>\<open>EnsureRunningState\<close> step by step: alone it is what the runners do as a whole, two
    at once may both start the agent; and what a start that fails late leaves behind.
  \<^item> \<open>Agent_Runner\<close>: the contract of a runner, as a locale, and what ties runners to contexts.
  \<^item> \<open>Telegraf_Runner\<close>, \<open>Filebeat_Runner\<close>, \<open>Json_Config_Files\<close>, \<open>Oracle_Runner\<close>,
    \<open>Packages_Runner\<close>: the runners (\<^verbatim>\<open>telegraf.go\<close>, \<^verbatim>\<open>filebeat.go\<close>, \<^verbatim>\<open>oracle.go\<close>,
    \<^verbatim>\<open>pkgagent.go\<close>): configurations, main configuration, configuration server, readiness, starting,
    test monitors.
  \<^item> \<open>Test_Monitor\<close>: \<^verbatim>\<open>telegraf_test_config_runner.go\<close>: the server of a test run and the channel its
    goroutines report errors on. \<open>Capabilities\<close>: \<^verbatim>\<open>capabilities.go\<close>.
  \<^item> \<open>Agents_Router\<close>: \<^verbatim>\<open>agents_router.go\<close> and \<^verbatim>\<open>registry.go\<close>: the whole world of the agents, its
    events, and the invariant that at most one process of each agent is kept alive.
  \<^item> \<open>Agent_Install\<close>: what an install instruction achieves, and what it leaves when it fails.
  \<^item> \<open>World_Files\<close>: through all of this the file system stays a tree with plain names.
  \<^item> \<open>World_Configs\<close>: the agents' directories stay in order: an agent's directory holds its installed
    versions, the link to the current one, its configuration directory and what its runner writes,
    and no event of the router leaves anything else there.

  \<^bold>\<open>Connection, ingest, configuration.\<close>
  \<^item> \<open>Egress_Connection\<close>: \<^verbatim>\<open>ambassador/connection.go\<close>: the attach loop, the goroutine that watches
    for instructions and the keep-alive goroutines of every connection, as steps in any order.
  \<^item> \<open>Egress_Setup\<close>: what a connection is made with, what is posted on it, and the detached mode
    (\<^verbatim>\<open>detached_runner.go\<close>, \<^verbatim>\<open>stdout_egress.go\<close>).
  \<^item> \<open>Egress_Posts\<close>: the fields of the connection that calls use, step by step: id, client and
    context, replaced by each attempt to attach while others read them to post and to keep alive.
  \<^item> \<open>Auth\<close>: package \<^verbatim>\<open>auth\<close>: where certificates come from, and which address the token goes to.
  \<^item> \<open>Line_Protocol\<close>, \<open>Ingest\<close>, \<open>Perf_Test\<close>: packages \<^verbatim>\<open>lineproto\<close> and \<^verbatim>\<open>ingest\<close>: what lines, batches
    and requests become. \<open>Ingest_Pipeline\<close>: the goroutines of the ingestors and their channels as
    steps in any order: nothing is lost or reordered, and everything is posted in the end.
  \<^item> \<open>Envoy_Config\<close>: package \<^verbatim>\<open>config\<close>: listener addresses and host labels.
  \<^item> \<open>Envoy_Commands\<close>: package \<^verbatim>\<open>cmd\<close>: \<^verbatim>\<open>run\<close>, \<^verbatim>\<open>detached\<close>, the end of the program, and
    \<^verbatim>\<open>stress-connections\<close>. \<open>Envoy_Cli\<close>: settings, flags, reading the configuration, waiting for an
    interrupt, the small commands.
  \<^item> \<open>Envoy_System\<close>: the attached Envoy as a whole: connection, router and agents side by side, with
    the invariants of the parts carried over and what holds only of them together.
  \<^item> \<open>Telegraf_System\<close>: from the Ambassador to the agent: what telegraf is served is what the abstract
    store of \<open>Config_Store\<close> makes of the instructions carried out since the last detachment.
  \<^item> \<open>Files_System\<close>: the same for the agents that read configuration files (filebeat, oracle, packages):
    each file is what an abstract map of files becomes under the instructions carried out. It is
    stated for a data directory that is in order at the start (\<open>tidy_world\<close>), instructions with
    plain file names (\<open>event_fine\<close>) and system calls that do not fail.

  \<^bigskip>
  \<^bold>\<open>Conventions.\<close> A call that returns an error gives a sum (\<open>Inl\<close> the error) or an optional
  error; a panic is \<open>Panics\<close> or no value; the end of the whole program is the flag \<open>wdown\<close>.
  Effects are explicit: file systems, handler states and runners are arguments and results.
  What the environment decides (which system calls fail, which order a map is ranged over, when
  processes end, what a server answers) is an argument, so the claims hold for all of it.

  \<^bigskip>
  \<^bold>\<open>Bounds and fuel.\<close> Go's \<^verbatim>\<open>int\<close>, \<^verbatim>\<open>int64\<close> and \<^verbatim>\<open>time.Duration\<close> are words of 64 bits and wrap
  around. Channel capacities (1 for the output search, the detach channel and signals, 2 for the
  errors of a test run, 10 for the errors of a connection, 10 and 100 for metrics) and the retry limit of test monitors are those of the source. The JSON reader has
  fuel two above twice the length of its text; \<open>Go_Json\<close> proves that more makes no difference. Trimming
  has the length of the text as fuel, as every turn removes a character.

  \<^bigskip>
  \<^bold>\<open>Code outside the repository\<close> is an argument: the case conversions and the TOML encoder, the
  generated parser of the line protocol (its grammar for values is modelled), gRPC, the protocol
  buffer JSON code, X.509, UUIDs, the lumberjack server, Linux capabilities, and the libraries for
  the command line and configuration, which are represented by what they are asked. No hypothesis is made about any of it,
  except where a claim states one.

  \<^bigskip>
  \<^bold>\<open>Not modelled.\<close> Logging; how the configuration library chooses between flags, environment, file
  and defaults; the texts of URL errors; the HTTP and lumberjack servers beyond what they hand to
  the program; the waiting times between attempts to attach, which the model leaves open;
  \<^verbatim>\<open>RunToCompletion\<close>, one call of the standard library whose outcome is an argument. In
  \<open>Agents_Router\<close> and \<open>Envoy_System\<close> operations of the router run one after the other, as its mutex
  arranges for instructions; detaches and restarts are not under it, which \<open>Ensure_Race\<close> takes up
  for restarts. The interleavings of \<^verbatim>\<open>Stop\<close> and of the connection's goroutines are the subject of
  \<open>Stop_Protocol\<close>, \<open>Egress_Connection\<close> and \<open>Egress_Posts\<close>.
\<close>

end
